(* ===== verification/Prelude.thy ===== *)
theory Prelude
  imports Main "HOL-Library.Char_ord" "HOL-Library.List_Lexorder"
    "HOL-Library.Multiset" "HOL-Library.Word" "HOL-Library.Signed_Division"
begin

text \<open>
  Shared vocabulary of the development: Go's fixed-width signed integers (as \<^typ>\<open>int\<close>
  with the wrap-around written out), Go's truncating division, byte strings and the
  decimal conversions of \<^verbatim>\<open>strconv\<close>, and the result type of fallible code with its
  sequencing combinator. The collections \<open>result_simps\<close> and \<open>goint\<close> carry the
  automation of the component theories.
\<close>

named_theorems result_simps "sequencing of fallible steps"
named_theorems goint "Go integer arithmetic"

type_synonym bytes = string

section \<open>Fallible steps\<close>

text \<open>
  A Go function returning \<open>(T, error)\<close> is a value of \<open>'e + 'a\<close>: \<open>Inl\<close> the error,
  \<open>Inr\<close> the result. \<open>rbind m f\<close> is the idiom \<open>x, err := m; if err != nil return err\<close>.
\<close>

definition rbind :: "'e + 'a \<Rightarrow> ('a \<Rightarrow> 'e + 'b) \<Rightarrow> 'e + 'b" where
  "rbind m f = (case m of Inl e \<Rightarrow> Inl e | Inr x \<Rightarrow> f x)"

lemma rbind_simps [simp]:
  "rbind (Inl e) f = Inl e"
  "rbind (Inr x) f = f x"
  by (simp_all add: rbind_def)

lemma rbind_eq_Inr [result_simps]:
  "rbind m f = Inr y \<longleftrightarrow> (\<exists>x. m = Inr x \<and> f x = Inr y)"
  by (cases m) (auto simp: rbind_def)

lemma rbind_eq_Inl:
  "rbind m f = Inl e \<longleftrightarrow> m = Inl e \<or> (\<exists>x. m = Inr x \<and> f x = Inl e)"
  by (cases m) (auto simp: rbind_def)

lemma rbind_cong [fundef_cong]:
  "m = m' \<Longrightarrow> (\<And>x. m' = Inr x \<Longrightarrow> f x = f' x) \<Longrightarrow> rbind m f = rbind m' f'"
  by (cases m) auto

definition is_ok :: "'e + 'a \<Rightarrow> bool" where
  "is_ok m \<longleftrightarrow> (case m of Inl _ \<Rightarrow> False | Inr _ \<Rightarrow> True)"

lemma is_ok_simps [simp]: "\<not> is_ok (Inl e)" "is_ok (Inr x)"
  by (simp_all add: is_ok_def)

lemma is_ok_iff: "is_ok m \<longleftrightarrow> (\<exists>x. m = Inr x)"
  by (cases m) auto

lemma if_Inl_eq_Inr [result_simps]:
  "(if c then Inl e else m) = Inr y \<longleftrightarrow> \<not> c \<and> m = Inr y"
  by auto

lemma option_eqI: "(\<And>v. a = Some v \<longleftrightarrow> b = Some v) \<Longrightarrow> a = b"
  by (cases a; cases b) auto

section \<open>Go integers\<close>

text \<open>
  A signed \<open>w\<close>-bit integer is an \<^typ>\<open>int\<close>; the result of every arithmetic operation is
  wrapped with \<open>wrapN w\<close>, the two's complement reduction (\<open>wrapN_sint\<close> below). The
  agent's release build is 32-bit (\<^verbatim>\<open>GOARCH=386\<close> in the Makefile), so Go's \<open>int\<close> has
  \<open>intBits = 32\<close> bits; \<open>int64\<close> has 64. No lemma of the development uses more of
  \<open>intBits\<close> than that it is positive, except where a statement names a bound.
\<close>

definition wrapN :: "nat \<Rightarrow> int \<Rightarrow> int" where
  "wrapN w x = (x + 2 ^ (w - 1)) mod 2 ^ w - 2 ^ (w - 1)"

definition intBits :: nat where
  "intBits = 32"

definition wrap64 :: "int \<Rightarrow> int" where
  "wrap64 x = wrapN 64 x"

definition wrapI :: "int \<Rightarrow> int" where
  "wrapI x = wrapN intBits x"

lemma intBits_pos [simp]: "0 < intBits"
  by (simp add: intBits_def)

lemma wrapN_cong_mod:
  "wrapN w a = wrapN w b \<longleftrightarrow> a mod 2 ^ w = b mod 2 ^ w"
proof -
  have "(a + c) mod 2 ^ w = (b + c) mod 2 ^ w \<longleftrightarrow> a mod 2 ^ w = b mod 2 ^ w" for c :: int
    by (simp add: mod_eq_dvd_iff)
  then show ?thesis by (simp add: wrapN_def)
qed

lemma wrapN_mod: "wrapN w a mod 2 ^ w = a mod 2 ^ w"
  by (simp add: wrapN_def mod_diff_left_eq)

lemma wrapN_wrapN [simp]: "wrapN w (wrapN w a) = wrapN w a"
  by (simp add: wrapN_cong_mod wrapN_mod)

lemma wrapN_add_left [goint]: "wrapN w (wrapN w a + b) = wrapN w (a + b)"
  by (simp add: wrapN_cong_mod) (metis mod_add_left_eq wrapN_mod)

lemma wrapN_add_right [goint]: "wrapN w (a + wrapN w b) = wrapN w (a + b)"
  by (simp add: wrapN_cong_mod) (metis mod_add_right_eq wrapN_mod)

lemma wrapN_diff_left [goint]: "wrapN w (wrapN w a - b) = wrapN w (a - b)"
  by (simp add: wrapN_cong_mod) (metis mod_diff_left_eq wrapN_mod)

lemma wrapN_diff_right [goint]: "wrapN w (a - wrapN w b) = wrapN w (a - b)"
  by (simp add: wrapN_cong_mod) (metis mod_diff_right_eq wrapN_mod)

lemma wrapN_id:
  assumes "0 < w" and "- (2 ^ (w - 1)) \<le> x" and "x < 2 ^ (w - 1)"
  shows "wrapN w x = x"
proof -
  have "(2::int) ^ w = 2 * 2 ^ (w - 1)"
    using assms(1) by (cases w) auto
  with assms have "(x + 2 ^ (w - 1)) mod 2 ^ w = x + 2 ^ (w - 1)"
    by (intro mod_pos_pos_trivial) linarith+
  then show ?thesis by (simp add: wrapN_def)
qed

lemma wrapN_lower: "- (2 ^ (w - 1)) \<le> wrapN w x"
  by (simp add: wrapN_def)

lemma wrapN_upper:
  assumes "0 < w" shows "wrapN w x < 2 ^ (w - 1)"
proof -
  have "(2::int) ^ w = 2 * 2 ^ (w - 1)"
    using assms by (cases w) auto
  moreover have "(x + 2 ^ (w - 1)) mod 2 ^ w < (2::int) ^ w"
    by (rule pos_mod_bound) simp
  ultimately show ?thesis by (simp add: wrapN_def)
qed

text \<open>The reduction is the two's complement reading of the machine word.\<close>

lemma wrapN_sint:
  "wrapN LENGTH('w::len) x = sint (word_of_int x :: 'w word)"
proof -
  have "LENGTH('w) = Suc (LENGTH('w) - 1)" by simp
  then show ?thesis
    by (simp add: wrapN_def sint_sbintrunc' signed_take_bit_eq_take_bit_shift take_bit_eq_mod
        add.commute)
qed

lemma wrap64_sint: "wrap64 x = sint (word_of_int x :: 64 word)"
  using wrapN_sint [where 'w = 64] by (simp add: wrap64_def)

definition fits64 :: "int \<Rightarrow> bool" where
  "fits64 x \<longleftrightarrow> - (2 ^ 63) \<le> x \<and> x < 2 ^ 63"

definition fitsI :: "int \<Rightarrow> bool" where
  "fitsI x \<longleftrightarrow> - (2 ^ (intBits - 1)) \<le> x \<and> x < 2 ^ (intBits - 1)"

lemma wrap64_id [simp]: "fits64 x \<Longrightarrow> wrap64 x = x"
  unfolding wrap64_def fits64_def by (rule wrapN_id) auto

lemma wrapI_id [simp]: "fitsI x \<Longrightarrow> wrapI x = x"
  unfolding wrapI_def fitsI_def by (rule wrapN_id) auto

lemma fits64_wrap64 [simp]: "fits64 (wrap64 x)"
  using wrapN_lower [of 64 x] wrapN_upper [of 64 x] by (simp add: fits64_def wrap64_def)

lemma fitsI_wrapI [simp]: "fitsI (wrapI x)"
  using wrapN_lower [of intBits x] wrapN_upper [of intBits x] by (simp add: fitsI_def wrapI_def)

lemma wrap64_idem [simp]: "wrap64 (wrap64 x) = wrap64 x"
  by (simp add: wrap64_def)

lemma wrapI_idem [simp]: "wrapI (wrapI x) = wrapI x"
  by (simp add: wrapI_def)

lemma wrap64_arith [goint]:
  "wrap64 (wrap64 a + b) = wrap64 (a + b)"
  "wrap64 (a + wrap64 b) = wrap64 (a + b)"
  "wrap64 (wrap64 a - b) = wrap64 (a - b)"
  "wrap64 (a - wrap64 b) = wrap64 (a - b)"
  by (simp_all add: wrap64_def goint)

lemma wrapI_arith [goint]:
  "wrapI (wrapI a + b) = wrapI (a + b)"
  "wrapI (a + wrapI b) = wrapI (a + b)"
  "wrapI (wrapI a - b) = wrapI (a - b)"
  "wrapI (a - wrapI b) = wrapI (a - b)"
  by (simp_all add: wrapI_def goint)

text \<open>
  Go's \<open>/\<close> and \<open>%\<close> truncate towards zero: \<open>sdiv\<close> and \<open>smod\<close> of the library. On
  non-negative operands they are \<open>div\<close> and \<open>mod\<close>.
\<close>

lemma sdiv_nonneg: "0 \<le> a \<Longrightarrow> 0 < b \<Longrightarrow> (a::int) sdiv b = a div b"
  by (cases "a = 0") (simp_all add: signed_divide_int_def sgn_if)

lemma smod_nonneg: "0 \<le> a \<Longrightarrow> 0 < b \<Longrightarrow> (a::int) smod b = a mod b"
  by (cases "a = 0") (simp_all add: smod_int_alt_def sgn_if)

section \<open>Decimal text\<close>

text \<open>
  \<^verbatim>\<open>strconv.Itoa\<close> / \<^verbatim>\<open>FormatInt(n, 10)\<close> / \<^verbatim>\<open>%d\<close>: a minus sign for a
  negative number, then the decimal digits with no leading zero. \<^verbatim>\<open>%02d\<close> pads a
  non-negative number with one zero to two digits.
\<close>

definition digit :: "nat \<Rightarrow> char" where
  "digit d = char_of (48 + d)"

fun ntoa :: "nat \<Rightarrow> string" where
  "ntoa n = (if n < 10 then [digit n] else ntoa (n div 10) @ [digit (n mod 10)])"

declare ntoa.simps [simp del]

definition itoa :: "int \<Rightarrow> string" where
  "itoa i = (if i < 0 then ''-'' @ ntoa (nat (- i)) else ntoa (nat i))"

definition pad02 :: "int \<Rightarrow> string" where
  "pad02 i = (if 0 \<le> i \<and> i < 10 then ''0'' @ itoa i else itoa i)"

text \<open>
  \<^verbatim>\<open>strconv.ParseInt(s, 10, w)\<close>: an optional sign, then at least one digit and
  nothing else; a value outside the \<open>w\<close>-bit range is an error that still returns the
  nearest bound. The result pairs the returned value with whether the error is nil.
  \<^verbatim>\<open>Atoi\<close> is \<^verbatim>\<open>ParseInt\<close> at the width of \<^verbatim>\<open>int\<close>.
\<close>

definition is_digit :: "char \<Rightarrow> bool" where
  "is_digit c \<longleftrightarrow> 48 \<le> (of_char c :: nat) \<and> (of_char c :: nat) \<le> 57"

definition digit_val :: "char \<Rightarrow> nat" where
  "digit_val c = of_char c - 48"

definition digits_val :: "string \<Rightarrow> nat" where
  "digits_val s = foldl (\<lambda>n c. 10 * n + digit_val c) 0 s"

definition split_sign :: "string \<Rightarrow> bool \<times> string" where
  "split_sign s = (case s of
      [] \<Rightarrow> (False, [])
    | c # cs \<Rightarrow> if c = CHR ''-'' then (True, cs) else if c = CHR ''+'' then (False, cs) else (False, s))"

definition parseInt :: "nat \<Rightarrow> string \<Rightarrow> int \<times> bool" where
  "parseInt w s = (case split_sign s of (neg, ds) \<Rightarrow>
     if ds = [] \<or> \<not> list_all is_digit ds then (0, False)
     else let n = int (digits_val ds) in
       if \<not> neg \<and> 2 ^ (w - 1) \<le> n then (2 ^ (w - 1) - 1, False)
       else if neg \<and> 2 ^ (w - 1) < n then (- (2 ^ (w - 1)), False)
       else (if neg then - n else n, True))"

definition atoi :: "string \<Rightarrow> int \<times> bool" where
  "atoi s = parseInt intBits s"

lemma of_char_digit: "d < 10 \<Longrightarrow> (of_char (digit d) :: nat) = 48 + d"
  by (simp add: digit_def)

lemma is_digit_digit [simp]: "d < 10 \<Longrightarrow> is_digit (digit d)"
  by (simp add: is_digit_def of_char_digit)

lemma digit_val_digit [simp]: "d < 10 \<Longrightarrow> digit_val (digit d) = d"
  by (simp add: digit_val_def of_char_digit)

lemma ntoa_digits: "list_all is_digit (ntoa n)"
proof (induction n rule: ntoa.induct)
  case (1 n)
  then show ?case by (subst ntoa.simps) auto
qed

lemma ntoa_ne [simp]: "ntoa n \<noteq> []"
  by (subst ntoa.simps) simp

lemma digits_val_snoc [simp]: "digits_val (s @ [c]) = 10 * digits_val s + digit_val c"
  by (simp add: digits_val_def)

lemma digits_val_ntoa [simp]: "digits_val (ntoa n) = n"
proof (induction n rule: ntoa.induct)
  case (1 n)
  show ?case
  proof (cases "n < 10")
    case True
    then show ?thesis by (subst ntoa.simps) (simp add: digits_val_def)
  next
    case False
    then have "digits_val (ntoa n) = 10 * digits_val (ntoa (n div 10)) + n mod 10"
      by (subst ntoa.simps) simp
    with 1 False show ?thesis by simp
  qed
qed

lemma ntoa_hd_digit: "is_digit (hd (ntoa n))"
  using ntoa_digits [of n] by (cases "ntoa n") auto

lemma split_sign_digits:
  assumes "is_digit (hd s)" and "s \<noteq> []"
  shows "split_sign s = (False, s)"
proof -
  obtain c cs where s: "s = c # cs" using assms(2) by (cases s) auto
  with assms(1) have "c \<noteq> CHR ''-''" "c \<noteq> CHR ''+''"
    by (auto simp: is_digit_def)
  then show ?thesis by (simp add: split_sign_def s)
qed

lemma split_sign_itoa:
  "split_sign (itoa i) = (i < 0, ntoa (nat \<bar>i\<bar>))"
  by (simp add: itoa_def split_sign_digits ntoa_hd_digit) (simp add: split_sign_def)

text \<open>The decimal round trip: what \<open>itoa\<close> prints, \<open>parseInt\<close> reads back.\<close>

lemma parseInt_itoa:
  assumes "- (2 ^ (w - 1)) \<le> i" and "i < 2 ^ (w - 1)"
  shows "parseInt w (itoa i) = (i, True)"
  using assms
  by (auto simp: parseInt_def split_sign_itoa ntoa_digits Let_def)

lemma atoi_itoa: "fitsI i \<Longrightarrow> atoi (itoa i) = (i, True)"
  by (simp add: atoi_def fitsI_def parseInt_itoa)

lemma parseInt_range:
  assumes "0 < w"
  shows "- (2 ^ (w - 1)) \<le> fst (parseInt w s) \<and> fst (parseInt w s) < 2 ^ (w - 1)"
proof -
  have p: "(0::int) < 2 ^ (w - 1)" by simp
  have "fst (parseInt w s) \<in> {- (2 ^ (w - 1)) ..< 2 ^ (w - 1)}"
  proof -
    have "- int n < 2 ^ (w - 1)" and "- (2 ^ (w - 1)) \<le> int n" for n
      using p by linarith+
    with p show ?thesis by (auto simp: parseInt_def Let_def split: prod.splits)
  qed
  then show ?thesis by simp
qed

lemma fitsI_atoi [simp]: "fitsI (fst (atoi s))"
  using parseInt_range [of intBits s] by (simp add: atoi_def fitsI_def)

lemma itoa_inj: "itoa i = itoa j \<longleftrightarrow> i = j"
proof
  assume "itoa i = itoa j"
  then have "split_sign (itoa i) = split_sign (itoa j)" by simp
  then have s: "(i < 0) = (j < 0)" and "ntoa (nat \<bar>i\<bar>) = ntoa (nat \<bar>j\<bar>)"
    by (simp_all add: split_sign_itoa)
  then have "nat \<bar>i\<bar> = nat \<bar>j\<bar>"
    by (metis digits_val_ntoa)
  with s show "i = j" by linarith
qed simp

end
