(* ===== verification/Domain.thy ===== *)
theory Domain
  imports Prelude
begin

text \<open>
  The domain types of \<^verbatim>\<open>internal/store/store.go\<close>: products, stock events, sales,
  search criteria, the activity log, the sync link, the setting keys with their defaults,
  and the errors the store returns. Field names carry a short prefix because Isabelle's
  record selectors share one name space.
\<close>

section \<open>Errors\<close>

text \<open>
  \<open>ErrNotFound\<close> and \<open>ErrBarcodeTaken\<close> are the exported errors of the contract; the next
  five are the \<^verbatim>\<open>fmt.Errorf\<close> values of \<open>CreateSale\<close> and the decoder's error; the
  last three are what bbolt documents: a blank key, a key longer than 32768 bytes, and a
  commit that fails (the disk is full, the file is closed).
\<close>

datatype err =
    ErrNotFound
  | ErrBarcodeTaken
  | ErrInvalidQuantity
  | ErrUnknownProduct string
  | ErrEmptySale
  | ErrUnderpaid
  | ErrDecode
  | ErrKeyRequired
  | ErrKeyTooLarge
  | ErrIO string

text \<open>\<^verbatim>\<open>err.Error()\<close>, for the errors whose text reaches the user.\<close>

fun errText :: "err \<Rightarrow> string" where
  "errText ErrNotFound = ''that item could not be found''"
| "errText ErrBarcodeTaken = ''an item with this barcode already exists''"
| "errText ErrInvalidQuantity = ''invalid quantity''"
| "errText (ErrUnknownProduct i) = ''unknown product '' @ [CHR 0x22] @ i @ [CHR 0x22]"
| "errText ErrEmptySale = ''empty sale''"
| "errText ErrUnderpaid = ''payment is less than the total''"
| "errText ErrDecode = ''unexpected end of JSON input''"
| "errText ErrKeyRequired = ''key required''"
| "errText ErrKeyTooLarge = ''key too large''"
| "errText (ErrIO m) = m"

section \<open>Time\<close>

text \<open>
  A \<^verbatim>\<open>time.Time\<close> is its instant, in nanoseconds since the zero time (January 1 of
  year 1, UTC), and the offset of its location from UTC in seconds. \<open>Before\<close>, \<open>After\<close>
  and \<open>IsZero\<close> look at the instant only.
\<close>

record gotime =
  instant :: int
  offset :: int

definition zeroTime :: gotime where
  "zeroTime = \<lparr>instant = 0, offset = 0\<rparr>"

definition tBefore :: "gotime \<Rightarrow> gotime \<Rightarrow> bool" where
  "tBefore a b \<longleftrightarrow> instant a < instant b"

definition tAfter :: "gotime \<Rightarrow> gotime \<Rightarrow> bool" where
  "tAfter a b \<longleftrightarrow> instant b < instant a"

definition tIsZero :: "gotime \<Rightarrow> bool" where
  "tIsZero t \<longleftrightarrow> instant t = 0"

definition tUTC :: "gotime \<Rightarrow> gotime" where
  "tUTC t = t\<lparr>offset := 0\<rparr>"

lemma tUTC_simps [simp]: "instant (tUTC t) = instant t" "offset (tUTC t) = 0" "tUTC (tUTC t) = tUTC t"
  by (simp_all add: tUTC_def)

section \<open>Records\<close>

record Product =
  pID :: string
  pName :: string
  pPriceCents :: int
  pBarcode :: string
  pTrackStock :: bool
  pStock :: int
  pTaxable :: bool
  pActive :: bool
  pUpdatedAt :: gotime
  pDeletedAt :: "gotime option"

record ProductDraft =
  dName :: string
  dPriceCents :: int
  dBarcode :: string
  dTrackStock :: bool
  dStock :: int
  dTaxable :: bool

record StockEvent =
  evID :: string
  evProductID :: string
  evDelta :: int
  evReason :: string
  evCreatedAt :: gotime

definition StockInitial :: string where "StockInitial = ''initial''"
definition StockRestock :: string where "StockRestock = ''restock''"
definition StockAdjustment :: string where "StockAdjustment = ''adjustment''"

record SaleItem =
  itProductID :: string
  itName :: string
  itPriceCents :: int
  itQty :: int
  itTaxable :: bool
  itTaxCents :: int

record SaleLine =
  lnProductID :: string
  lnQty :: int

record SaleInput =
  inLines :: "SaleLine list"
  inPaidCents :: int
  inPaymentMethod :: string
  inReference :: string

record SearchCriteria =
  scReference :: string
  scItemName :: string
  scPaymentMethod :: string
  scStart :: gotime
  scEnd :: gotime
  scMinCents :: int
  scMaxCents :: int
  scLimit :: int

record Sale =
  saID :: string
  saCreatedAt :: gotime
  saItems :: "SaleItem list"
  saSubtotalCents :: int
  saTaxCents :: int
  saTotalCents :: int
  saPaidCents :: int
  saChangeCents :: int
  saPaymentMethod :: string
  saReference :: string
  saTaxRateBps :: int
  saTaxMode :: string

record AuditEntry =
  auID :: string
  auAt :: gotime
  auAction :: string
  auDetail :: string

record SyncState =
  syLinked :: bool
  syBaseURL :: string
  syShopID :: string
  syEmail :: string
  syToken :: string
  syCursor :: int
  syLastSync :: gotime
  syLastError :: string

section \<open>Constants\<close>

definition TaxModeNone :: string where "TaxModeNone = ''none''"
definition TaxModeInclusive :: string where "TaxModeInclusive = ''inclusive''"
definition TaxModeExclusive :: string where "TaxModeExclusive = ''exclusive''"

definition PaymentCash :: string where "PaymentCash = ''cash''"
definition PaymentMpesa :: string where "PaymentMpesa = ''mpesa''"

definition KeyShopName :: string where "KeyShopName = ''shop_name''"
definition KeyPaperWidth :: string where "KeyPaperWidth = ''paper_width''"
definition KeyPrinterAddr :: string where "KeyPrinterAddr = ''printer_addr''"
definition KeyScanner :: string where "KeyScanner = ''barcode_scanner''"
definition KeyReceiptTheme :: string where "KeyReceiptTheme = ''receipt_theme''"
definition KeyHeaderLine :: string where "KeyHeaderLine = ''receipt_header''"
definition KeyFooter :: string where "KeyFooter = ''receipt_footer''"
definition KeyHasLogo :: string where "KeyHasLogo = ''has_logo''"
definition KeyTaxRateBps :: string where "KeyTaxRateBps = ''tax_rate_bps''"
definition KeyTaxMode :: string where "KeyTaxMode = ''tax_mode''"

lemmas setting_keys =
  KeyShopName_def KeyPaperWidth_def KeyPrinterAddr_def KeyScanner_def KeyReceiptTheme_def
  KeyHeaderLine_def KeyFooter_def KeyHasLogo_def KeyTaxRateBps_def KeyTaxMode_def

lemmas tax_modes = TaxModeNone_def TaxModeInclusive_def TaxModeExclusive_def

text \<open>\<^verbatim>\<open>Defaults()\<close>: the settings of a fresh shop.\<close>

definition Defaults :: "string \<rightharpoonup> string" where
  "Defaults = map_of [
     (KeyShopName, ''My Shop''),
     (KeyPaperWidth, ''80''),
     (KeyPrinterAddr, ''''),
     (KeyScanner, ''off''),
     (KeyReceiptTheme, ''classic''),
     (KeyHeaderLine, ''''),
     (KeyFooter, ''Asante sana'' @ [CHR 0x0A] @ ''Thank you''),
     (KeyHasLogo, ''no''),
     (KeyTaxRateBps, ''0''),
     (KeyTaxMode, ''none'')]"

end
