(* ===== verification/Tax.thy ===== *)
theory Tax
  imports Domain
begin

text \<open>
  \<^verbatim>\<open>internal/store/tax.go\<close>: the tax of a sale, per line, in integer cents. The loop of
  \<open>ComputeTax\<close> is \<open>taxLoop\<close>, one iteration \<open>taxLine\<close>; the two running totals wrap at 64
  bits as the code's do. The lemmas give the exact value of every result (wrapped sums of
  the lines' figures), the rounding of a line, and the bounds of an inclusive line's tax.
\<close>

section \<open>The code\<close>

definition roundHalfUp :: "int \<Rightarrow> int \<Rightarrow> int" where
  "roundHalfUp n d = (if d = 0 then 0 else wrap64 (wrap64 (n + d sdiv 2) sdiv d))"

definition lineGross :: "SaleItem \<Rightarrow> int" where
  "lineGross it = wrap64 (itPriceCents it * itQty it)"

text \<open>The figure written to \<^verbatim>\<open>items[i].TaxCents\<close>, and whether it is added to the total
  (the untaxed case \<^verbatim>\<open>continue\<close>s first).\<close>

definition untaxed :: "int \<Rightarrow> string \<Rightarrow> SaleItem \<Rightarrow> bool" where
  "untaxed rateBps mode it \<longleftrightarrow>
     rateBps \<le> 0 \<or> mode = TaxModeNone \<or> mode = '''' \<or> \<not> itTaxable it"

definition taxLine :: "int \<Rightarrow> string \<Rightarrow> SaleItem \<Rightarrow> int" where
  "taxLine rateBps mode it =
     (let gross = lineGross it in
      if untaxed rateBps mode it then 0
      else if mode = TaxModeExclusive then roundHalfUp (wrap64 (gross * rateBps)) 10000
      else if mode = TaxModeInclusive then
        roundHalfUp (wrap64 (gross * rateBps)) (wrapI (10000 + rateBps))
      else 0)"

fun taxLoop :: "int \<Rightarrow> string \<Rightarrow> SaleItem list \<Rightarrow> int \<Rightarrow> int \<Rightarrow> SaleItem list \<times> int \<times> int" where
  "taxLoop rateBps mode [] subtotal tax = ([], subtotal, tax)"
| "taxLoop rateBps mode (it # its) subtotal tax =
     (let t = taxLine rateBps mode it;
          subtotal' = wrap64 (subtotal + lineGross it);
          tax' = (if untaxed rateBps mode it then tax else wrap64 (tax + t));
          (its', s, x) = taxLoop rateBps mode its subtotal' tax'
      in (it\<lparr>itTaxCents := t\<rparr> # its', s, x))"

definition ComputeTax :: "int \<Rightarrow> string \<Rightarrow> SaleItem list \<Rightarrow> SaleItem list \<times> int \<times> int \<times> int" where
  "ComputeTax rateBps mode items =
     (case taxLoop rateBps mode items 0 0 of (items', subtotal, tax) \<Rightarrow>
       (items', subtotal, tax,
        if mode = TaxModeExclusive \<and> rateBps > 0 then wrap64 (subtotal + tax) else subtotal))"

section \<open>The loop in closed form\<close>

definition sumGross :: "SaleItem list \<Rightarrow> int" where
  "sumGross items = (\<Sum>it\<leftarrow>items. itPriceCents it * itQty it)"

definition sumTax :: "SaleItem list \<Rightarrow> int" where
  "sumTax items = (\<Sum>it\<leftarrow>items. itTaxCents it)"

definition taxedItem :: "int \<Rightarrow> string \<Rightarrow> SaleItem \<Rightarrow> SaleItem" where
  "taxedItem rateBps mode it = it\<lparr>itTaxCents := taxLine rateBps mode it\<rparr>"

lemma taxLine_untaxed: "untaxed rateBps mode it \<Longrightarrow> taxLine rateBps mode it = 0"
  by (simp add: taxLine_def Let_def)

lemma taxLoop_eq:
  "wrap64 s = s \<Longrightarrow> wrap64 x = x \<Longrightarrow> taxLoop rateBps mode items s x =
     (map (taxedItem rateBps mode) items,
      wrap64 (s + sumGross items),
      wrap64 (x + sumTax (map (taxedItem rateBps mode) items)))"
proof (induction items arbitrary: s x)
  case (Cons it its)
  have "wrap64 (wrap64 (s + lineGross it) + sumGross its) = wrap64 (s + sumGross (it # its))"
    by (simp add: goint sumGross_def lineGross_def add.assoc)
  moreover have "(if untaxed rateBps mode it then x else wrap64 (x + taxLine rateBps mode it)) =
      wrap64 (x + taxLine rateBps mode it)"
    using Cons.prems by (auto simp: taxLine_untaxed)
  ultimately show ?case
    by (simp add: Let_def Cons.IH goint taxedItem_def sumTax_def add.assoc)
qed (simp_all add: sumGross_def sumTax_def)

lemma ComputeTax_eq:
  "ComputeTax rateBps mode items =
    (let items' = map (taxedItem rateBps mode) items;
         subtotal = wrap64 (sumGross items);
         tax = wrap64 (sumTax items')
     in (items', subtotal, tax,
         if mode = TaxModeExclusive \<and> 0 < rateBps then wrap64 (subtotal + tax) else subtotal))"
  by (simp add: ComputeTax_def taxLoop_eq Let_def fits64_def)

section \<open>Rounding\<close>

text \<open>Away from the 64-bit bounds, \<open>roundHalfUp n d\<close> is \<open>n / d\<close> rounded to the nearest
  integer, a half upwards: it is the one integer within half of the quotient, above.\<close>

lemma roundHalfUp_exact:
  assumes "0 \<le> n" and "0 < d" and "fits64 (n + d div 2)"
  shows "roundHalfUp n d = (n + d div 2) div d"
proof -
  have h: "0 \<le> d div 2" and nn: "0 \<le> n + d div 2"
    using assms by auto
  have "(n + d div 2) div d \<le> n + d div 2"
    using nn assms(2) by (metis div_by_1 int_one_le_iff_zero_less zdiv_mono2 zero_less_one)
  moreover have "0 \<le> (n + d div 2) div d"
    using nn assms(2) by (simp add: pos_imp_zdiv_nonneg_iff)
  ultimately have "fits64 ((n + d div 2) div d)"
    using assms(3) by (simp add: fits64_def)
  then show ?thesis
    using assms nn by (simp add: roundHalfUp_def sdiv_nonneg)
qed

lemma half_up_bounds:
  fixes n d :: int
  assumes "0 < d"
  defines "r \<equiv> (n + d div 2) div d"
  shows "2 * d * r \<le> 2 * n + d" and "2 * n + d < 2 * d * (r + 1)"
proof -
  define m where "m = n + d div 2"
  have m: "m = d * r + m mod d" and md: "0 \<le> m mod d" "m mod d < d"
    using assms by (simp_all add: m_def r_def)
  have d2: "d = 2 * (d div 2) + d mod 2" "0 \<le> d mod 2" "d mod 2 \<le> 1"
    by auto
  show "2 * d * r \<le> 2 * n + d"
    using m md d2 by (simp add: m_def)
  have "2 * n + d \<le> 2 * m + 1"
    using d2 by (simp add: m_def)
  also have "2 * m + 1 = 2 * (d * r) + 2 * (m mod d) + 1"
    using m by linarith
  also have "\<dots> < 2 * (d * r) + 2 * d"
    using md by linarith
  finally show "2 * n + d < 2 * d * (r + 1)"
    by (simp add: algebra_simps)
qed

lemma roundHalfUp_nearest:
  assumes "0 \<le> n" and "0 < d" and "fits64 (n + d div 2)"
  shows "2 * d * roundHalfUp n d \<le> 2 * n + d \<and> 2 * n + d < 2 * d * (roundHalfUp n d + 1)"
  using half_up_bounds [OF assms(2), of n] by (simp add: roundHalfUp_exact [OF assms])

lemma roundHalfUp_nonneg:
  assumes "0 \<le> n" and "0 < d" and "fits64 (n + d div 2)"
  shows "0 \<le> roundHalfUp n d"
  using assms by (simp add: roundHalfUp_exact pos_imp_zdiv_nonneg_iff)

text \<open>The portion of \<open>g\<close> at \<open>r\<close> parts in \<open>q + r\<close> is at most \<open>g\<close>.\<close>

lemma div_mult_le_int: "0 < d \<Longrightarrow> (n::int) div d * d \<le> n"
  by (metis add_increasing2 div_mult_mod_eq order_refl pos_mod_sign)

lemma portion_le:
  fixes g r q :: int
  assumes "0 \<le> g" and "0 \<le> r" and "0 < q"
  shows "(g * r + (q + r) div 2) div (q + r) \<le> g"
proof -
  have "0 \<le> g * q" and "(q + r) div 2 < q + r" using assms by auto
  then have "g * r + (q + r) div 2 < (g + 1) * (q + r)"
    by (simp add: algebra_simps)
  moreover have "(g * r + (q + r) div 2) div (q + r) * (q + r) \<le> g * r + (q + r) div 2"
    using assms by (simp add: div_mult_le_int)
  ultimately have "(g * r + (q + r) div 2) div (q + r) * (q + r) < (g + 1) * (q + r)"
    by linarith
  then have "(g * r + (q + r) div 2) div (q + r) < g + 1"
    using assms by (simp add: mult_less_cancel_right)
  then show ?thesis by simp
qed

section \<open>Properties\<close>

text \<open>
  C22. \<open>ComputeTax\<close> changes nothing of a line but its tax, its subtotal is the (64-bit) sum
  of price times quantity, its tax is the (64-bit) sum of the lines' printed taxes, and
  its total is subtotal plus tax exactly when tax is on in exclusive mode, else the
  subtotal. No hypothesis: the equations hold with overflow too.
\<close>

theorem ComputeTax_totals:
  "case ComputeTax rateBps mode items of (items', subtotal, tax, tot) \<Rightarrow>
     map (itTaxCents_update (\<lambda>_. 0)) items' = map (itTaxCents_update (\<lambda>_. 0)) items \<and>
     subtotal = wrap64 (\<Sum>it\<leftarrow>items. itPriceCents it * itQty it) \<and>
     tax = wrap64 (\<Sum>it\<leftarrow>items'. itTaxCents it) \<and>
     tot = (if mode = TaxModeExclusive \<and> 0 < rateBps then wrap64 (subtotal + tax) else subtotal)"
  by (simp add: ComputeTax_eq Let_def sumGross_def sumTax_def taxedItem_def)

text \<open>
  With a rate that is not positive, or a mode that is neither inclusive nor exclusive
  (an unconfigured shop), no line is taxed and the total is the subtotal.
\<close>

theorem ComputeTax_off:
  assumes "rateBps \<le> 0 \<or> mode \<notin> {TaxModeInclusive, TaxModeExclusive}"
  shows "ComputeTax rateBps mode items =
    (map (itTaxCents_update (\<lambda>_. 0)) items, wrap64 (sumGross items), 0, wrap64 (sumGross items))"
proof -
  have line: "taxLine rateBps mode it = 0" for it
    using assms by (auto simp: taxLine_def untaxed_def Let_def)
  have off: "\<not> (mode = TaxModeExclusive \<and> 0 < rateBps)"
    using assms by auto
  have items: "map (taxedItem rateBps mode) items = map (itTaxCents_update (\<lambda>_. 0)) items"
    by (simp add: line taxedItem_def)
  have sum: "sumTax (map (itTaxCents_update (\<lambda>_. 0)) items) = 0"
    by (induction items) (auto simp: sumTax_def)
  show ?thesis
    unfolding ComputeTax_eq Let_def items sum if_not_P [OF off] by (simp add: fits64_def)
qed

theorem ComputeTax_off_witness:
  "ComputeTax 0 TaxModeExclusive
     [\<lparr>itProductID = ''p'', itName = ''Bread'', itPriceCents = 6500, itQty = 2, itTaxable = True, itTaxCents = 7\<rparr>] =
   ([\<lparr>itProductID = ''p'', itName = ''Bread'', itPriceCents = 6500, itQty = 2, itTaxable = True, itTaxCents = 0\<rparr>],
    13000, 0, 13000)"
  using ComputeTax_off [of 0 TaxModeExclusive
      "[\<lparr>itProductID = ''p'', itName = ''Bread'', itPriceCents = 6500, itQty = 2, itTaxable = True, itTaxCents = 7\<rparr>]"]
  by (simp add: sumGross_def fits64_def)

definition taxDivisor :: "int \<Rightarrow> string \<Rightarrow> int" where
  "taxDivisor rateBps mode = (if mode = TaxModeInclusive then 10000 + rateBps else 10000)"

text \<open>
  C23. A taxed line's figure is the exact tax rounded to the nearest cent, a half up: in
  exclusive mode of \<open>gross * rate / 10000\<close>, in inclusive mode of
  \<open>gross * rate / (10000 + rate)\<close>; and the embedded tax of an inclusive price lies
  between zero and the price. The amounts stay inside 64 bits, as do all the figures of a
  real shop.
\<close>

theorem taxLine_rounded:
  assumes "itTaxable it" and "0 < rateBps" and "mode \<in> {TaxModeInclusive, TaxModeExclusive}"
    and "0 \<le> itPriceCents it * itQty it" and "fitsI (10000 + rateBps)"
    and "fits64 (itPriceCents it * itQty it * rateBps + taxDivisor rateBps mode)"
  defines "d \<equiv> taxDivisor rateBps mode" and "gross \<equiv> itPriceCents it * itQty it"
  shows "2 * d * taxLine rateBps mode it \<le> 2 * (gross * rateBps) + d \<and>
         2 * (gross * rateBps) + d < 2 * d * (taxLine rateBps mode it + 1) \<and>
         0 \<le> taxLine rateBps mode it \<and>
         (mode = TaxModeInclusive \<longrightarrow> taxLine rateBps mode it \<le> gross)"
proof -
  have d: "0 < d" "d div 2 \<le> d" using assms(2) by (auto simp: d_def taxDivisor_def)
  have g: "0 \<le> gross" "gross \<le> gross * rateBps" "0 \<le> gross * rateBps"
    using assms(2,4) by (auto simp: gross_def mult_le_cancel_left1)
  have f: "fits64 (gross * rateBps + d)" using assms(6) by (simp add: gross_def d_def)
  have fits: "fits64 (gross * rateBps + d div 2)" "fits64 (gross * rateBps)" "fits64 gross"
    using f d g unfolding fits64_def by linarith+
  have line: "taxLine rateBps mode it = roundHalfUp (gross * rateBps) d"
    using assms(1,2,3,5) fits
    by (auto simp: taxLine_def untaxed_def lineGross_def gross_def [symmetric] d_def taxDivisor_def
        tax_modes Let_def)
  have "taxLine rateBps mode it \<le> gross" if "mode = TaxModeInclusive"
  proof -
    have "d = 10000 + rateBps" using that by (simp add: d_def taxDivisor_def)
    with portion_le [of gross rateBps 10000] g assms(2)
    have "(gross * rateBps + d div 2) div d \<le> gross" by simp
    then show ?thesis
      unfolding line roundHalfUp_exact [OF g(3) d(1) fits(1)] .
  qed
  then show ?thesis
    using roundHalfUp_nearest [OF g(3) d(1) fits(1)] roundHalfUp_nonneg [OF g(3) d(1) fits(1)]
    by (simp add: line)
qed

theorem taxLine_rounded_witness:
  "taxLine 1600 TaxModeInclusive
     \<lparr>itProductID = ''p'', itName = ''Bread'', itPriceCents = 6500, itQty = 2, itTaxable = True, itTaxCents = 0\<rparr>
   \<le> 13000"
  using taxLine_rounded [of "\<lparr>itProductID = ''p'', itName = ''Bread'', itPriceCents = 6500, itQty = 2,
      itTaxable = True, itTaxCents = 0\<rparr>" 1600 TaxModeInclusive]
  by (simp add: fitsI_def fits64_def intBits_def taxDivisor_def)

end
