(* ===== verification/Buckets.thy ===== *)
theory Buckets
  imports Domain
begin

text \<open>
  The contents of a bbolt bucket: byte-string keys with their values, in key order. The
  library is not part of the repository; a bucket is the data it stores, and the
  operations here are the ones its documentation promises (\<open>Get\<close> returns nil for a
  missing key, \<open>Put\<close> refuses a blank key and one longer than 32768 bytes, \<open>Delete\<close> of a
  missing key is no error, \<open>ForEach\<close> visits the keys in byte order). The locales
  \<open>merge_log\<close> and \<open>lww_table\<close> are the two ways the sync layer merges a row into a bucket;
  what a whole pull does is proved from their laws alone.

  A value written by \<open>putJSON\<close> is \<open>Json x\<close>: decoding it gives back the record. A value
  that does not decode (a damaged file) is \<open>Corrupt\<close>, so every \<^verbatim>\<open>json.Unmarshal\<close>
  error of the source stays a branch of the model.
\<close>

section \<open>Buckets as key-ordered lists\<close>

type_synonym 'v bucket = "(bytes \<times> 'v) list"

fun bput :: "bytes \<Rightarrow> 'v \<Rightarrow> 'v bucket \<Rightarrow> 'v bucket" where
  "bput k v [] = [(k, v)]"
| "bput k v ((k', v') # b) =
     (if k = k' then (k, v) # b
      else if k < k' then (k, v) # (k', v') # b
      else (k', v') # bput k v b)"

definition bDelete :: "bytes \<Rightarrow> 'v bucket \<Rightarrow> 'v bucket" where
  "bDelete k b = filter (\<lambda>p. fst p \<noteq> k) b"

abbreviation bGet :: "'v bucket \<Rightarrow> bytes \<Rightarrow> 'v option" where
  "bGet \<equiv> map_of"

definition maxKeySize :: nat where
  "maxKeySize = 32768"

definition goodKey :: "bytes \<Rightarrow> bool" where
  "goodKey k \<longleftrightarrow> k \<noteq> [] \<and> length k \<le> maxKeySize"

definition bPut :: "bytes \<Rightarrow> 'v \<Rightarrow> 'v bucket \<Rightarrow> err + 'v bucket" where
  "bPut k v b =
     (if k = [] then Inl ErrKeyRequired
      else if maxKeySize < length k then Inl ErrKeyTooLarge
      else Inr (bput k v b))"

definition bsorted :: "'v bucket \<Rightarrow> bool" where
  "bsorted b \<longleftrightarrow> sorted_wrt (<) (map fst b)"

lemma bPut_eq_Inr [result_simps]:
  "bPut k v b = Inr b' \<longleftrightarrow> goodKey k \<and> b' = bput k v b"
  by (auto simp: bPut_def goodKey_def)

lemma bPut_good [simp]: "goodKey k \<Longrightarrow> bPut k v b = Inr (bput k v b)"
  by (simp add: bPut_eq_Inr)

lemma map_of_bput [simp]: "map_of (bput k v b) = (map_of b)(k \<mapsto> v)"
  by (induction k v b rule: bput.induct) (auto simp: fun_eq_iff)

lemma map_of_bDelete [simp]: "map_of (bDelete k b) = (map_of b)(k := None)"
  by (induction b) (auto simp: bDelete_def fun_eq_iff)

lemma keys_bput [simp]: "fst ` set (bput k v b) = insert k (fst ` set b)"
  by (induction k v b rule: bput.induct) auto

lemma keys_bDelete [simp]: "fst ` set (bDelete k b) = fst ` set b - {k}"
  by (auto simp: bDelete_def)

lemma set_bput_subset: "set (bput k v b) \<subseteq> insert (k, v) (set b)"
  by (induction k v b rule: bput.induct) auto

lemma set_bDelete_subset: "set (bDelete k b) \<subseteq> set b"
  by (auto simp: bDelete_def)

lemma bsorted_Nil [simp]: "bsorted []"
  by (simp add: bsorted_def)

lemma bsorted_Cons: "bsorted ((k, v) # b) \<longleftrightarrow> (\<forall>k' \<in> fst ` set b. k < k') \<and> bsorted b"
  by (auto simp: bsorted_def)

lemma bsorted_bput [simp]: "bsorted b \<Longrightarrow> bsorted (bput k v b)"
proof (induction k v b rule: bput.induct)
  case (2 k v k' v' b)
  then show ?case
    by (auto simp: bsorted_Cons dest: less_trans)
qed (simp add: bsorted_def)

lemma bsorted_bDelete [simp]: "bsorted b \<Longrightarrow> bsorted (bDelete k b)"
  by (auto simp: bsorted_def bDelete_def sorted_wrt_map sorted_wrt_filter)

lemma bsorted_distinct: "bsorted b \<Longrightarrow> distinct (map fst b)"
  by (auto simp: bsorted_def strict_sorted_iff)

lemma bGet_iff: "bsorted b \<Longrightarrow> bGet b k = Some v \<longleftrightarrow> (k, v) \<in> set b"
  by (simp add: bsorted_distinct)

text \<open>Two buckets in key order with the same lookups are the same bucket.\<close>

lemma bucket_ext:
  assumes "bsorted a" and "bsorted b" and "map_of a = map_of b"
  shows "a = b"
proof -
  have "set a = set b"
    using assms by (metis bGet_iff subrelI subset_antisym)
  moreover have "inj_on fst (set a)"
    using bsorted_distinct [OF assms(1)] by (simp add: distinct_map)
  ultimately show ?thesis
    using assms(1,2) by (intro map_sorted_distinct_set_unique [where f = fst])
      (auto simp: bsorted_def strict_sorted_iff)
qed

text \<open>A put of a new key adds one row; a key above all others is appended at the end.\<close>

lemma mset_bput_new: "k \<notin> fst ` set b \<Longrightarrow> mset (bput k v b) = add_mset (k, v) (mset b)"
  by (induction k v b rule: bput.induct) auto

lemma bput_append: "\<forall>k' \<in> fst ` set b. k' < k \<Longrightarrow> bput k v b = b @ [(k, v)]"
  by (induction k v b rule: bput.induct) auto

lemma length_bput_le: "length (bput k v b) \<le> Suc (length b)"
  by (induction k v b rule: bput.induct) auto

lemma bGet_None_iff: "bGet b k = None \<longleftrightarrow> k \<notin> fst ` set b"
  by (rule map_of_eq_None_iff)

section \<open>JSON cells\<close>

datatype 'a cell = Json 'a | Corrupt

definition unmarshal :: "'a cell \<Rightarrow> err + 'a" where
  "unmarshal c = (case c of Json x \<Rightarrow> Inr x | Corrupt \<Rightarrow> Inl ErrDecode)"

text \<open>\<^verbatim>\<open>ForEach\<close> with a callback that decodes the value and stops at the first error.\<close>

fun unmarshalAll :: "'a cell bucket \<Rightarrow> err + 'a list" where
  "unmarshalAll [] = Inr []"
| "unmarshalAll ((k, c) # b) =
     rbind (unmarshal c) (\<lambda>x. rbind (unmarshalAll b) (\<lambda>xs. Inr (x # xs)))"

definition putJSON :: "bytes \<Rightarrow> 'a \<Rightarrow> 'a cell bucket \<Rightarrow> err + 'a cell bucket" where
  "putJSON k v b = bPut k (Json v) b"

definition readable :: "'a cell bucket \<Rightarrow> bool" where
  "readable b \<longleftrightarrow> Corrupt \<notin> snd ` set b"

fun cellVals :: "'a cell bucket \<Rightarrow> 'a list" where
  "cellVals [] = []"
| "cellVals ((k, Json x) # b) = x # cellVals b"
| "cellVals ((k, Corrupt) # b) = cellVals b"

lemma unmarshal_simps [simp]: "unmarshal (Json x) = Inr x" "unmarshal Corrupt = Inl ErrDecode"
  by (simp_all add: unmarshal_def)

lemma unmarshal_eq_Inr [result_simps]: "unmarshal c = Inr x \<longleftrightarrow> c = Json x"
  by (cases c) auto

lemma putJSON_eq_Inr [result_simps]:
  "putJSON k v b = Inr b' \<longleftrightarrow> goodKey k \<and> b' = bput k (Json v) b"
  by (simp add: putJSON_def bPut_eq_Inr)

lemma putJSON_good [simp]: "goodKey k \<Longrightarrow> putJSON k v b = Inr (bput k (Json v) b)"
  by (simp add: putJSON_def)

lemma readable_Nil [simp]: "readable []"
  by (simp add: readable_def)

lemma unmarshalAll_eq_Inr [result_simps]:
  "unmarshalAll b = Inr vs \<longleftrightarrow> readable b \<and> vs = cellVals b"
proof (induction b arbitrary: vs)
  case (Cons p b)
  obtain k c where p: "p = (k, c)" by (cases p)
  show ?case
    by (cases c) (auto simp: p result_simps Cons.IH readable_def)
qed (auto simp: readable_def)

lemma unmarshalAll_readable [simp]: "readable b \<Longrightarrow> unmarshalAll b = Inr (cellVals b)"
  by (simp add: unmarshalAll_eq_Inr)

lemma readable_bput [simp]: "readable b \<Longrightarrow> readable (bput k (Json x) b)"
  using set_bput_subset [of k "Json x" b] by (fastforce simp: readable_def)

lemma set_cellVals: "x \<in> set (cellVals b) \<longleftrightarrow> (\<exists>k. (k, Json x) \<in> set b)"
proof (induction b rule: cellVals.induct)
  case (2 k x' b)
  then show ?case by auto
qed auto

lemma readable_get: "readable b \<Longrightarrow> bGet b k = Some c \<Longrightarrow> \<exists>x. c = Json x"
  by (cases c) (force simp: readable_def dest: map_of_SomeD)+

lemma get_cellVals: "bGet b k = Some (Json x) \<Longrightarrow> x \<in> set (cellVals b)"
  by (auto simp: set_cellVals dest: map_of_SomeD)

lemma mset_cellVals_bput_new:
  assumes "k \<notin> fst ` set b"
  shows "mset (cellVals (bput k (Json x) b)) = add_mset x (mset (cellVals b))"
  using assms
proof (induction b)
  case (Cons p b)
  obtain k' c where p: "p = (k', c)" by (cases p)
  with Cons show ?case by (cases c) auto
qed simp

lemma cellVals_append [simp]: "cellVals (a @ b) = cellVals a @ cellVals b"
  by (induction a rule: cellVals.induct) auto

definition keyed :: "('a \<Rightarrow> bytes) \<Rightarrow> 'a cell bucket \<Rightarrow> bool" where
  "keyed f b \<longleftrightarrow> (\<forall>k x. bGet b k = Some (Json x) \<longrightarrow> f x = k)"

lemma keyed_bput [simp]: "keyed f b \<Longrightarrow> f x = k \<Longrightarrow> keyed f (bput k (Json x) b)"
  by (simp add: keyed_def)

text \<open>A table whose rows lie under their own ids lists each id once.\<close>

lemma keys_cellVals:
  assumes "readable b" and "bsorted b" and "keyed f b"
  shows "map f (cellVals b) = map fst b"
proof -
  have "\<forall>(k, c) \<in> set b. \<exists>x. c = Json x \<and> f x = k"
  proof clarify
    fix k c assume kc: "(k, c) \<in> set b"
    then obtain x where "c = Json x" using assms(1) by (cases c) (force simp: readable_def)+
    with kc assms(2,3) show "\<exists>x. c = Json x \<and> f x = k"
      unfolding keyed_def by (metis bGet_iff)
  qed
  then show ?thesis by (induction b rule: cellVals.induct) auto
qed

lemma distinct_keys_cellVals:
  "readable b \<Longrightarrow> bsorted b \<Longrightarrow> keyed f b \<Longrightarrow> distinct (map f (cellVals b))"
  by (simp add: keys_cellVals bsorted_distinct)

section \<open>Loops that stop at the first error\<close>

text \<open>\<^verbatim>\<open>for _, x := range xs { if err := f(x); err != nil { return err } }\<close> over a state.\<close>

fun forEachR :: "('x \<Rightarrow> 's \<Rightarrow> 'e + 's) \<Rightarrow> 'x list \<Rightarrow> 's \<Rightarrow> 'e + 's" where
  "forEachR f [] s = Inr s"
| "forEachR f (x # xs) s = rbind (f x s) (forEachR f xs)"

lemma forEachR_append:
  "forEachR f (xs @ ys) s = rbind (forEachR f xs s) (forEachR f ys)"
proof (induction xs arbitrary: s)
  case (Cons x xs)
  then show ?case by (cases "f x s") auto
qed simp

lemma forEachR_inv:
  assumes "\<And>x s s'. x \<in> set xs \<Longrightarrow> P s \<Longrightarrow> f x s = Inr s' \<Longrightarrow> P s'"
    and "P s" and "forEachR f xs s = Inr s'"
  shows "P s'"
  using assms
proof (induction xs arbitrary: s)
  case (Cons x xs)
  from Cons.prems(3) obtain t where t: "f x s = Inr t" "forEachR f xs t = Inr s'"
    by (auto simp: result_simps)
  with Cons.prems(1,2) have "P t" by auto
  then show ?case
    by (rule Cons.IH [OF _ _ t(2), rotated]) (use Cons.prems(1) in auto)
qed simp

lemma forEachR_fix: "(\<And>x. x \<in> set xs \<Longrightarrow> f x s = Inr s) \<Longrightarrow> forEachR f xs s = Inr s"
  by (induction xs) auto

lemma forEachR_succeeds:
  assumes "\<And>x s. x \<in> set xs \<Longrightarrow> P s \<Longrightarrow> \<exists>s'. f x s = Inr s' \<and> P s'" and "P s"
  shows "\<exists>s'. forEachR f xs s = Inr s' \<and> P s'"
  using assms
proof (induction xs arbitrary: s)
  case (Cons x xs)
  obtain t where "f x s = Inr t" "P t" using Cons.prems by (metis list.set_intros(1))
  then show ?case using Cons by auto
qed simp

section \<open>Append-only logs merged from several devices\<close>

text \<open>
  A log keyed by client-generated ids. Merging an entry already present changes nothing;
  merging a new one stores it. Nothing else is assumed of the state, so the lemmas hold
  for the stock-event log and for the sales log with its reference index alike.
\<close>

locale merge_log =
  fixes look :: "'s \<Rightarrow> bytes \<Rightarrow> 'v option"
    and merge :: "'e \<Rightarrow> 's \<Rightarrow> err + 's"
    and key :: "'e \<Rightarrow> bytes"
    and val :: "'e \<Rightarrow> 'v"
  assumes merge_seen: "look s (key e) \<noteq> None \<Longrightarrow> merge e s = Inr s"
    and merge_new: "look s (key e) = None \<Longrightarrow> merge e s = Inr s' \<Longrightarrow>
      look s' = (look s)(key e \<mapsto> val e)"
begin

lemma merge_look:
  assumes "merge e s = Inr s'"
  shows "look s' k = (if look s k = None \<and> key e = k then Some (val e) else look s k)"
proof (cases "look s (key e)")
  case None
  with assms have "look s' = (look s)(key e \<mapsto> val e)" by (intro merge_new)
  with None show ?thesis by auto
next
  case (Some v)
  with assms merge_seen [of s e] have "s' = s" by simp
  with Some show ?thesis by auto
qed

lemma merge_idem: "merge e s = Inr s' \<Longrightarrow> merge e s' = Inr s'"
  by (rule merge_seen) (simp add: merge_look)

text \<open>
  The merged log is the old log, then, for an id it lacked, an entry the pull carried.
  When entries with one id have one content (an id is minted once), the order in which
  they arrive does not matter.
\<close>

lemma merge_all_look:
  assumes "forEachR merge es s = Inr s'"
    and same: "\<And>e e'. e \<in> set es \<Longrightarrow> e' \<in> set es \<Longrightarrow> key e = key e' \<Longrightarrow> val e = val e'"
  shows "look s' k = Some v \<longleftrightarrow>
    look s k = Some v \<or> look s k = None \<and> (\<exists>e \<in> set es. key e = k \<and> val e = v)"
  using assms
proof (induction es arbitrary: s)
  case (Cons e es)
  from Cons.prems(1) obtain t where t: "merge e s = Inr t" "forEachR merge es t = Inr s'"
    by (auto simp: result_simps)
  have "look s' k = Some v \<longleftrightarrow>
      look t k = Some v \<or> look t k = None \<and> (\<exists>e \<in> set es. key e = k \<and> val e = v)"
    by (rule Cons.IH [OF t(2)]) (rule Cons.prems(2), auto)
  moreover have "val e' = val e" if "e' \<in> set es" "key e' = key e" for e'
    using that by (intro Cons.prems(2)) auto
  ultimately show ?case
    by (cases "look s k"; cases "key e = k") (auto simp: merge_look [OF t(1)])
qed simp

lemma merge_all_keeps:
  assumes "forEachR merge es s = Inr s'" and "look s k = Some v"
  shows "look s' k = Some v"
  by (rule forEachR_inv [where P = "\<lambda>s. look s k = Some v", OF _ assms(2,1)])
    (simp add: merge_look)

lemma merge_all_converges:
  assumes "forEachR merge es s = Inr t" and "forEachR merge es' s = Inr t'"
    and "set es = set es'"
    and "\<And>e e'. e \<in> set es \<Longrightarrow> e' \<in> set es \<Longrightarrow> key e = key e' \<Longrightarrow> val e = val e'"
  shows "look t = look t'"
proof -
  have "look t k = look t' k" for k
  proof (rule option_eqI)
    fix v
    show "look t k = Some v \<longleftrightarrow> look t' k = Some v"
      using merge_all_look [OF assms(1,4), of k v]
        merge_all_look [OF assms(2) assms(4) [unfolded assms(3)], of k v]
      by (simp only: assms(3))
  qed
  then show ?thesis by (rule ext)
qed

text \<open>Merging the same entries into a state with the merged log changes nothing.\<close>

lemma merge_all_stays:
  assumes "forEachR merge es s = Inr s'" and "look t = look s'"
  shows "forEachR merge es t = Inr t"
proof -
  have seen: "look s' (key e) \<noteq> None" if "e \<in> set es" for e
    using assms(1) that
  proof (induction es arbitrary: s)
    case (Cons a es)
    from Cons.prems(1) obtain t where t: "merge a s = Inr t" "forEachR merge es t = Inr s'"
      by (auto simp: result_simps)
    show ?case
    proof (cases "e = a")
      case True
      have "look t (key a) \<noteq> None" by (auto simp: merge_look [OF t(1)])
      with True merge_all_keeps [OF t(2)] show ?thesis by fastforce
    next
      case False
      with Cons.prems(2) Cons.IH [OF t(2)] show ?thesis by simp
    qed
  qed simp
  show ?thesis
    by (rule forEachR_fix) (use seen merge_seen assms(2) in auto)
qed

end

section \<open>Tables where the last write wins\<close>

text \<open>
  A table merged entry by entry: an entry that is not newer than the stored one is ignored,
  a newer one (or one for a missing id) replaces it.
\<close>

locale lww_table =
  fixes look :: "'s \<Rightarrow> bytes \<Rightarrow> 'e option"
    and merge :: "'e \<Rightarrow> 's \<Rightarrow> err + 's"
    and key :: "'e \<Rightarrow> bytes"
    and stamp :: "'e \<Rightarrow> int"
  assumes lww_old: "look s (key e) = Some old \<Longrightarrow> stamp e \<le> stamp old \<Longrightarrow> merge e s = Inr s"
    and lww_new: "(\<And>old. look s (key e) = Some old \<Longrightarrow> stamp old < stamp e) \<Longrightarrow> merge e s = Inr s' \<Longrightarrow>
      look s' = (look s)(key e \<mapsto> e)"
begin

lemma lww_cases:
  assumes "merge e s = Inr s'"
  obtains (kept) old where "look s (key e) = Some old" and "stamp e \<le> stamp old" and "s' = s"
    | (replaced) "look s' = (look s)(key e \<mapsto> e)"
      and "\<And>old. look s (key e) = Some old \<Longrightarrow> stamp old < stamp e"
proof (cases "\<exists>old. look s (key e) = Some old \<and> stamp e \<le> stamp old")
  case True
  then obtain old where old: "look s (key e) = Some old" "stamp e \<le> stamp old" by blast
  then have "merge e s = Inr s" by (rule lww_old)
  with assms old show ?thesis by (auto intro: kept)
next
  case False
  then have "\<And>old. look s (key e) = Some old \<Longrightarrow> stamp old < stamp e" by (meson not_le)
  with lww_new [OF _ assms] show ?thesis by (auto intro: replaced)
qed

text \<open>What is stored in the end is one of the candidates, and none of them is newer.\<close>

definition cand :: "'s \<Rightarrow> 'e list \<Rightarrow> bytes \<Rightarrow> 'e \<Rightarrow> bool" where
  "cand s es k v \<longleftrightarrow> look s k = Some v \<or> (v \<in> set es \<and> key v = k)"

lemma lww_all:
  assumes "forEachR merge es s = Inr s'"
  shows "(look s' k = None \<longleftrightarrow> (\<forall>v. \<not> cand s es k v)) \<and>
    (\<forall>v. look s' k = Some v \<longrightarrow> cand s es k v \<and> (\<forall>w. cand s es k w \<longrightarrow> stamp w \<le> stamp v))"
  using assms
proof (induction es arbitrary: s)
  case Nil
  then show ?case by (auto simp: cand_def)
next
  case (Cons e es)
  from Cons.prems obtain t where t: "merge e s = Inr t" "forEachR merge es t = Inr s'"
    by (auto simp: result_simps)
  note IH = Cons.IH [OF t(2)]
  from t(1) show ?case
  proof (cases rule: lww_cases)
    case (kept old)
    have c: "cand s (e # es) k v \<longleftrightarrow> cand t es k v \<or> (v = e \<and> key e = k)" for v
      using kept(3) by (auto simp: cand_def)
    have "cand t es (key e) old" using kept by (simp add: cand_def)
    with IH kept(2) show ?thesis unfolding c by fastforce
  next
    case replaced
    have c: "cand s (e # es) k v \<longleftrightarrow> cand t es k v \<or> (key e = k \<and> look s k = Some v)" for v
      using replaced(1) by (auto simp: cand_def)
    have e: "key e = k \<Longrightarrow> cand t es k e" using replaced(1) by (simp add: cand_def)
    show ?thesis
    proof (cases "key e = k")
      case True
      with IH e have "\<exists>v. look s' k = Some v" by auto
      moreover have "stamp w \<le> stamp v" if "look s' k = Some v" "look s k = Some w" for v w
      proof -
        have "stamp w < stamp e" using replaced(2) that(2) True by simp
        moreover have "stamp e \<le> stamp v" using IH e [OF True] that(1) by blast
        ultimately show ?thesis by simp
      qed
      ultimately show ?thesis using IH e [OF True] unfolding c by auto
    next
      case False
      then show ?thesis using IH unfolding c by simp
    qed
  qed
qed

lemma lww_converges:
  assumes "forEachR merge es s = Inr t" and "forEachR merge es' s' = Inr t'"
    and same: "\<And>k v. cand s es k v \<longleftrightarrow> cand s' es' k v"
    and inj: "\<And>k v w. cand s es k v \<Longrightarrow> cand s es k w \<Longrightarrow> stamp v = stamp w \<Longrightarrow> v = w"
  shows "look t = look t'"
proof (rule ext, rule option_eqI)
  fix k v
  have 1: "look t k = Some v \<longleftrightarrow> cand s es k v \<and> (\<forall>w. cand s es k w \<longrightarrow> stamp w \<le> stamp v)" for v
    using lww_all [OF assms(1), of k] inj by (cases "look t k") (auto, metis order_antisym)
  have "look t' k = Some v \<longleftrightarrow> cand s es k v \<and> (\<forall>w. cand s es k w \<longrightarrow> stamp w \<le> stamp v)" for v
    using lww_all [OF assms(2), of k] inj unfolding same [symmetric]
    by (cases "look t' k") (auto, metis order_antisym)
  with 1 show "look t k = Some v \<longleftrightarrow> look t' k = Some v" by simp
qed

lemma lww_all_stays:
  assumes "forEachR merge es s = Inr s'" and "look t = look s'"
  shows "forEachR merge es t = Inr t"
proof (rule forEachR_fix)
  fix e assume "e \<in> set es"
  then have "cand s es (key e) e" by (simp add: cand_def)
  with lww_all [OF assms(1), of "key e"] obtain v where "look s' (key e) = Some v" "stamp e \<le> stamp v"
    by (cases "look s' (key e)") auto
  then show "merge e t = Inr t" using assms(2) by (intro lww_old [of t e v]) simp_all
qed

end

end
