(* ===== verification/Database.thy ===== *)
theory Database
  imports Buckets
begin

text \<open>
  The bbolt database of \<^verbatim>\<open>internal/store/boltstore\<close>: one field per bucket, the
  audit bucket's sequence counter, and transactions. A write transaction either commits
  the state its body returns or leaves the database as it was: the body's error and a
  failed commit both roll back. What a call draws from outside (the clock, the random
  ids, whether the commit succeeds) is the record \<open>env\<close> it takes as an argument.
\<close>

text \<open>Values of the sync-state bucket: plain text, or the RFC3339Nano rendering of a time
  in UTC (which parses back to the same instant).\<close>

datatype stext = Text string | Stamp gotime

record db =
  bProducts :: "Product cell bucket"
  bSales :: "Sale cell bucket"
  bSettings :: "string bucket"
  bBlobs :: "bytes bucket"
  bBarcodeIdx :: "string bucket"
  bRefIdx :: "bytes bucket"
  bAudit :: "AuditEntry cell bucket"
  bAuditSeq :: nat
  bStockEvents :: "StockEvent cell bucket"
  bSyncState :: "stext bucket"
  bPendingProd :: "bytes bucket"
  bPendingSale :: "bytes bucket"
  bPendingStock :: "bytes bucket"

text \<open>\<^verbatim>\<open>init\<close> on a fresh file: every bucket exists and is empty.\<close>

definition emptyDB :: db where
  "emptyDB = \<lparr>bProducts = [], bSales = [], bSettings = [], bBlobs = [], bBarcodeIdx = [],
     bRefIdx = [], bAudit = [], bAuditSeq = 0, bStockEvents = [], bSyncState = [],
     bPendingProd = [], bPendingSale = [], bPendingStock = []\<rparr>"

record env =
  eNow :: gotime
  eNow2 :: gotime
  eRowID :: string
  eEventID :: string
  eAuditID :: string
  eAuditID2 :: string
  eIO :: "string option"

definition dbUpdate :: "env \<Rightarrow> (db \<Rightarrow> err + 'a \<times> db) \<Rightarrow> db \<Rightarrow> (err + 'a) \<times> db" where
  "dbUpdate e f D =
     (case f D of
        Inl x \<Rightarrow> (Inl x, D)
      | Inr (r, D') \<Rightarrow> (case eIO e of Some m \<Rightarrow> (Inl (ErrIO m), D) | None \<Rightarrow> (Inr r, D')))"

definition dbExec :: "env \<Rightarrow> (db \<Rightarrow> err + db) \<Rightarrow> db \<Rightarrow> (err + unit) \<times> db" where
  "dbExec e f D = dbUpdate e (\<lambda>D. rbind (f D) (\<lambda>D'. Inr ((), D'))) D"

lemma dbUpdate_eq_Inr [result_simps]:
  "dbUpdate e f D = (Inr r, D') \<longleftrightarrow> eIO e = None \<and> f D = Inr (r, D')"
  by (auto simp: dbUpdate_def split: sum.splits option.splits)

lemma dbUpdate_ok: "eIO e = None \<Longrightarrow> f D = Inr (r, D') \<Longrightarrow> dbUpdate e f D = (Inr r, D')"
  by (simp add: dbUpdate_eq_Inr)

lemma dbUpdate_err: "dbUpdate e f D = (Inl x, D') \<Longrightarrow> D' = D"
  by (auto simp: dbUpdate_def split: sum.splits option.splits)

lemma dbExec_eq_Inr [result_simps]:
  "dbExec e f D = (Inr u, D') \<longleftrightarrow> eIO e = None \<and> f D = Inr D'"
  by (auto simp: dbExec_def result_simps)

lemma dbExec_err: "dbExec e f D = (Inl x, D') \<Longrightarrow> D' = D"
  unfolding dbExec_def by (rule dbUpdate_err)

text \<open>A transaction keeps a predicate that its body keeps.\<close>

lemma dbUpdate_inv:
  assumes "dbUpdate e f D = (r, D')" and "P D"
    and "\<And>x D1. f D = Inr (x, D1) \<Longrightarrow> P D1"
  shows "P D'"
  using assms by (auto simp: dbUpdate_def split: sum.splits option.splits prod.splits)

lemma dbExec_inv:
  assumes "dbExec e f D = (r, D')" and "P D" and "\<And>D1. f D = Inr D1 \<Longrightarrow> P D1"
  shows "P D'"
  using assms by (auto simp: dbExec_def dbUpdate_def rbind_def split: sum.splits option.splits)

section \<open>A concrete environment\<close>

text \<open>The calls of the witnesses: call \<open>n\<close> runs \<open>n\<close> seconds after the epoch of the
  example, draws ids of its own and commits.\<close>

definition demoTime :: "nat \<Rightarrow> gotime" where
  "demoTime n = \<lparr>instant = int n * 1000000000, offset = 10800\<rparr>"

definition demoID :: "string \<Rightarrow> nat \<Rightarrow> string" where
  "demoID s n = s @ replicate n (CHR ''i'')"

definition demoEnv :: "nat \<Rightarrow> env" where
  "demoEnv n = \<lparr>eNow = demoTime n, eNow2 = demoTime n, eRowID = demoID ''row'' n,
     eEventID = demoID ''event'' n, eAuditID = demoID ''audit'' n, eAuditID2 = demoID ''log'' n,
     eIO = None\<rparr>"

lemma demoEnv_simps [simp]:
  "eNow (demoEnv n) = demoTime n" "eNow2 (demoEnv n) = demoTime n"
  "eRowID (demoEnv n) = demoID ''row'' n" "eEventID (demoEnv n) = demoID ''event'' n"
  "eAuditID (demoEnv n) = demoID ''audit'' n" "eAuditID2 (demoEnv n) = demoID ''log'' n"
  "eIO (demoEnv n) = None"
  by (simp_all add: demoEnv_def)

lemma goodKey_demoID: "s \<noteq> [] \<Longrightarrow> length s + n \<le> maxKeySize \<Longrightarrow> goodKey (demoID s n)"
  by (simp add: goodKey_def demoID_def)

end
