(* ===== verification/AuditLog.thy ===== *)
theory AuditLog
  imports Database
begin

text \<open>
  \<^verbatim>\<open>internal/store/boltstore/audit.go\<close>: the device's append-only activity log. An
  entry's key is the bucket sequence number in eight big-endian bytes, so key order is
  the order of recording (\<open>bigEndian_less\<close>); reading filters by time and sorts stably.
\<close>

section \<open>Keys\<close>

fun bigEndian :: "nat \<Rightarrow> nat \<Rightarrow> bytes" where
  "bigEndian 0 x = []"
| "bigEndian (Suc n) x = bigEndian n (x div 256) @ [char_of (x mod 256)]"

definition putUint64 :: "nat \<Rightarrow> bytes" where
  "putUint64 seq = bigEndian 8 seq"

lemma length_bigEndian [simp]: "length (bigEndian n x) = n"
  by (induction n arbitrary: x) auto

lemma snoc_less:
  fixes xs ys :: "'a::order list"
  assumes "length xs = length ys" and "xs < ys \<or> xs = ys \<and> a < b"
  shows "xs @ [a] < ys @ [b]"
  using assms
proof (induction xs ys rule: list_induct2)
  case (Cons x xs y ys)
  then show ?case by auto
qed auto

lemma char_of_less: "a < 256 \<Longrightarrow> b < 256 \<Longrightarrow> (char_of (a::nat) :: char) < char_of b \<longleftrightarrow> a < b"
  by (simp add: less_char_def)

lemma bigEndian_less:
  "x < y \<Longrightarrow> y < 256 ^ n \<Longrightarrow> bigEndian n x < bigEndian n y"
proof (induction n arbitrary: x y)
  case (Suc n)
  have "y div 256 < 256 ^ n"
    using Suc.prems(2) by (simp add: less_mult_imp_div_less mult.commute)
  consider "x div 256 < y div 256" | "x div 256 = y div 256" "x mod 256 < y mod 256"
    using Suc.prems(1) by (metis div_le_mono div_mult_mod_eq le_neq_implies_less less_imp_le_nat
        nat_add_left_cancel_less)
  then show ?case
  proof cases
    case 1
    with \<open>y div 256 < 256 ^ n\<close> have "bigEndian n (x div 256) < bigEndian n (y div 256)"
      by (intro Suc.IH)
    then show ?thesis by (simp add: snoc_less del: char_of_mod_256)
  next
    case 2
    then have "(char_of (x mod 256) :: char) < char_of (y mod 256)"
      by (subst char_of_less) simp_all
    with 2(1) show ?thesis by (simp add: snoc_less del: char_of_mod_256)
  qed
qed simp

lemma putUint64_less: "x < y \<Longrightarrow> y < 2 ^ 64 \<Longrightarrow> putUint64 x < putUint64 y"
  unfolding putUint64_def by (rule bigEndian_less) auto

lemma goodKey_putUint64 [simp]: "goodKey (putUint64 n)"
  by (simp add: goodKey_def putUint64_def maxKeySize_def flip: length_0_conv)

section \<open>Recording and reading\<close>

text \<open>\<^verbatim>\<open>NextSequence\<close> increments the bucket's 64-bit counter.\<close>

definition nextSequence :: "nat \<Rightarrow> nat" where
  "nextSequence n = (n + 1) mod 2 ^ 64"

definition appendAudit :: "gotime \<Rightarrow> string \<Rightarrow> string \<Rightarrow> string \<Rightarrow> db \<Rightarrow> err + db" where
  "appendAudit at uid action detail D =
     (let seq = nextSequence (bAuditSeq D) in
      rbind (putJSON (putUint64 seq)
              \<lparr>auID = uid, auAt = at, auAction = action, auDetail = detail\<rparr> (bAudit D))
        (\<lambda>b. Inr (D\<lparr>bAudit := b, bAuditSeq := seq\<rparr>)))"

definition auditInRange :: "gotime \<Rightarrow> gotime \<Rightarrow> AuditEntry \<Rightarrow> bool" where
  "auditInRange from to e \<longleftrightarrow>
     \<not> (\<not> tIsZero from \<and> tBefore (auAt e) from) \<and>
     \<not> (\<not> tIsZero to \<and> \<not> tBefore (auAt e) to)"

text \<open>\<^verbatim>\<open>sort.SliceStable\<close> by \<open>At\<close> is the library's stable \<open>sort_key\<close>.\<close>

definition Audit :: "gotime \<Rightarrow> gotime \<Rightarrow> db \<Rightarrow> err + AuditEntry list" where
  "Audit from to D =
     rbind (unmarshalAll (bAudit D))
       (\<lambda>es. Inr (sort_key (\<lambda>e. instant (auAt e)) (filter (auditInRange from to) es)))"

section \<open>Text of the entries\<close>

definition decimalCents :: "int \<Rightarrow> string" where
  "decimalCents cents =
     (let neg = cents < 0;
          c = (if neg then wrap64 (- cents) else cents);
          s = itoa (c sdiv 100) @ ''.'' @ pad02 (c smod 100)
      in if neg then ''-'' @ s else s)"

definition auditPrice :: "int \<Rightarrow> string" where
  "auditPrice cents = ''KSh '' @ decimalCents cents"

definition formatBps :: "int \<Rightarrow> string" where
  "formatBps bps =
     (let whole = bps sdiv 100; frac = bps smod 100 in
      if frac = 0 then itoa whole @ ''%''
      else if frac smod 10 = 0 then itoa whole @ ''.'' @ itoa (frac sdiv 10) @ ''%''
      else itoa whole @ ''.'' @ pad02 frac @ ''%'')"

definition settingLabels :: "string \<rightharpoonup> string" where
  "settingLabels = map_of [
     (KeyShopName, ''Shop name''),
     (KeyPaperWidth, ''Receipt paper size''),
     (KeyPrinterAddr, ''Printer address''),
     (KeyScanner, ''Barcode scanner''),
     (KeyReceiptTheme, ''Receipt style''),
     (KeyHeaderLine, ''Receipt header line''),
     (KeyFooter, ''Receipt ending message''),
     (KeyTaxRateBps, ''Tax rate''),
     (KeyTaxMode, ''Tax mode'')]"

definition settingAudit :: "string \<Rightarrow> string \<Rightarrow> string \<times> string" where
  "settingAudit k v =
     (let label = (case settingLabels k of Some l \<Rightarrow> l | None \<Rightarrow> k) in
      (''Setting changed'',
       if k = KeyTaxRateBps then label @ '' set to '' @ formatBps (fst (atoi v))
       else if v = '''' then label @ '' cleared''
       else label @ '' set to '' @ v))"

text \<open>\<open>decimalCents\<close> away from the one amount whose negation overflows: an optional sign, the
  whole shillings, a point and exactly two digits.\<close>

lemma digit_0: "digit 0 = CHR ''0''"
  by code_simp

lemma pad02_digits: "0 \<le> r \<Longrightarrow> r < 100 \<Longrightarrow> pad02 r = [digit (nat r div 10), digit (nat r mod 10)]"
  by (auto simp: pad02_def itoa_def ntoa.simps [of "nat r"] ntoa.simps [of "nat r div 10"] digit_0)

lemma decimalCents_eq:
  assumes "- (2 ^ 63) < c" and "c < 2 ^ 63"
  shows "decimalCents c = (if c < 0 then ''-'' else []) @ ntoa (nat \<bar>c\<bar> div 100) @ ''.'' @
    [digit (nat \<bar>c\<bar> mod 100 div 10), digit (nat \<bar>c\<bar> mod 10)]"
proof -
  define n where "n = nat \<bar>c\<bar>"
  have abs: "(if c < 0 then wrap64 (- c) else c) = int n"
    using assms by (simp add: fits64_def n_def)
  have "itoa (int n sdiv 100) = ntoa (n div 100)"
    by (simp add: itoa_def sdiv_nonneg nat_div_distrib)
  moreover have "pad02 (int n smod 100) = [digit (n mod 100 div 10), digit (n mod 10)]"
    by (simp add: smod_nonneg pad02_digits nat_mod_distrib mod_mod_cancel)
  ultimately show ?thesis
    unfolding decimalCents_def Let_def abs n_def [symmetric] by simp
qed

lemma digits_no_point: "list_all is_digit s \<Longrightarrow> filter (\<lambda>x. x \<noteq> CHR ''.'') s = s"
  by (induction s) (auto simp: is_digit_def)

lemma cents_digits: "10 * (10 * (n div 100) + n mod 100 div 10) + n mod 10 = (n::nat)"
proof -
  have "10 * (10 * q + t) + u = m" if "t * 10 + u = r" "q * 100 + r = m" for q t u r m :: nat
    using that by (auto simp: algebra_simps)
  moreover have "n mod 100 div 10 * 10 + n mod 10 = n mod 100"
    using div_mult_mod_eq [of "n mod 100" 10] by (simp add: mod_mod_cancel)
  ultimately show ?thesis using div_mult_mod_eq by blast
qed

text \<open>
  Money text reads back: dropping the decimal point of what \<open>decimalCents\<close> prints and
  parsing the rest as an integer gives the cents again, for every 64-bit amount but the
  least one (whose negation overflows).
\<close>

theorem decimalCents_roundtrip:
  assumes "- (2 ^ 63) < c" and "c < 2 ^ 63"
  shows "parseInt 64 (filter (\<lambda>x. x \<noteq> CHR ''.'') (decimalCents c)) = (c, True)"
proof -
  define n where "n = nat \<bar>c\<bar>"
  define ds where "ds = ntoa (n div 100) @ [digit (n mod 100 div 10), digit (n mod 10)]"
  have hi: "n mod 100 div 10 < 10" and lo: "n mod 10 < 10" by auto
  have printed: "filter (\<lambda>x. x \<noteq> CHR ''.'') (decimalCents c) = (if c < 0 then ''-'' else []) @ ds"
  proof -
    have "digit d \<noteq> CHR ''.''" if "d < 10" for d
      using is_digit_digit [OF that] by (auto simp: is_digit_def)
    then show ?thesis
      using hi lo by (simp add: decimalCents_eq [OF assms] ds_def n_def [symmetric]
          digits_no_point ntoa_digits)
  qed
  have digs: "list_all is_digit ds" "ds \<noteq> []" "is_digit (hd ds)"
    using hi lo ntoa_digits [of "n div 100"] ntoa_hd_digit [of "n div 100"]
    by (simp_all add: ds_def)
  have "digits_val ds = digits_val ((ntoa (n div 100) @ [digit (n mod 100 div 10)]) @ [digit (n mod 10)])"
    by (simp add: ds_def)
  also have "\<dots> = 10 * (10 * (n div 100) + n mod 100 div 10) + n mod 10"
    using hi lo by (simp only: digits_val_snoc digits_val_ntoa digit_val_digit)
  also have "\<dots> = n"
    by (rule cents_digits)
  finally have val: "digits_val ds = n" .
  have "split_sign ((if c < 0 then ''-'' else []) @ ds) = (c < 0, ds)"
    using digs by (auto simp: split_sign_digits) (simp add: split_sign_def)
  with digs val assms show ?thesis
    by (auto simp: printed parseInt_def Let_def n_def)
qed

theorem decimalCents_roundtrip_witness:
  "decimalCents (- 1205) = ''-12.05'' \<and>
   parseInt 64 (filter (\<lambda>x. x \<noteq> CHR ''.'') (decimalCents (- 1205))) = (- 1205, True)"
  using decimalCents_roundtrip [of "- 1205"] by (simp, code_simp)

section \<open>The log's invariant\<close>

text \<open>
  The keys in the bucket are those of sequence numbers already handed out, every value
  decodes, and the log is in key order. Below \<open>2\<^sup>6\<^sup>4 - 1\<close> entries (the counter has not
  wrapped) a new entry goes to the end.
\<close>

definition audit_inv :: "db \<Rightarrow> bool" where
  "audit_inv D \<longleftrightarrow> bAuditSeq D < 2 ^ 64 \<and>
     (\<forall>k \<in> fst ` set (bAudit D). \<exists>n. 0 < n \<and> n \<le> bAuditSeq D \<and> k = putUint64 n) \<and>
     readable (bAudit D) \<and> bsorted (bAudit D)"

text \<open>\<open>appendAudit\<close> never fails (the key is eight bytes); \<open>logged\<close> is its result. It touches
  the audit bucket only.\<close>

definition logged :: "gotime \<Rightarrow> string \<Rightarrow> string \<Rightarrow> string \<Rightarrow> db \<Rightarrow> db" where
  "logged at uid action detail D =
     D\<lparr>bAudit := bput (putUint64 (nextSequence (bAuditSeq D)))
         (Json \<lparr>auID = uid, auAt = at, auAction = action, auDetail = detail\<rparr>) (bAudit D),
       bAuditSeq := nextSequence (bAuditSeq D)\<rparr>"

lemma appendAudit_eq [simp]: "appendAudit at uid action detail D = Inr (logged at uid action detail D)"
  by (simp add: appendAudit_def logged_def Let_def)

lemma logged_frame [simp]:
  "bProducts (logged at uid act det D) = bProducts D"
  "bSales (logged at uid act det D) = bSales D"
  "bSettings (logged at uid act det D) = bSettings D"
  "bBlobs (logged at uid act det D) = bBlobs D"
  "bBarcodeIdx (logged at uid act det D) = bBarcodeIdx D"
  "bRefIdx (logged at uid act det D) = bRefIdx D"
  "bStockEvents (logged at uid act det D) = bStockEvents D"
  "bSyncState (logged at uid act det D) = bSyncState D"
  "bPendingProd (logged at uid act det D) = bPendingProd D"
  "bPendingSale (logged at uid act det D) = bPendingSale D"
  "bPendingStock (logged at uid act det D) = bPendingStock D"
  "bAuditSeq (logged at uid act det D) = nextSequence (bAuditSeq D)"
  by (simp_all add: logged_def)

lemma logged_at_end:
  assumes "audit_inv D" and "bAuditSeq D + 1 < 2 ^ 64"
  shows "bAudit (logged at uid action detail D) = bAudit D @ [(putUint64 (bAuditSeq D + 1),
              Json \<lparr>auID = uid, auAt = at, auAction = action, auDetail = detail\<rparr>)]"
proof -
  have "nextSequence (bAuditSeq D) = bAuditSeq D + 1"
    using assms(2) by (simp add: nextSequence_def)
  moreover have "\<forall>k \<in> fst ` set (bAudit D). k < putUint64 (bAuditSeq D + 1)"
  proof
    fix k assume "k \<in> fst ` set (bAudit D)"
    then obtain n where "n \<le> bAuditSeq D" "k = putUint64 n"
      using assms(1) unfolding audit_inv_def by blast
    then show "k < putUint64 (bAuditSeq D + 1)"
      using assms(2) by (simp add: putUint64_less)
  qed
  ultimately show ?thesis
    by (simp add: logged_def bput_append)
qed

lemma audit_inv_logged:
  assumes "audit_inv D" and "bAuditSeq D + 1 < 2 ^ 64"
  shows "audit_inv (logged at uid action detail D)"
proof -
  have s: "nextSequence (bAuditSeq D) = bAuditSeq D + 1"
    using assms(2) by (simp add: nextSequence_def)
  show ?thesis
    using assms(1,2) by (auto simp: audit_inv_def logged_def s intro: le_SucI)
qed

end
