(* ===== verification/Outbox.thy ===== *)
theory Outbox
  imports Database
begin

text \<open>
  The outbox marks of \<^verbatim>\<open>internal/store/boltstore/sync.go\<close> that the local operations
  set inside their own transaction: a product, sale or stock event awaiting push is an id
  in the pending bucket; a settings change is the stamp under \<open>settings_updated_at\<close>.
\<close>

definition kLinked :: string where "kLinked = ''linked''"
definition kBaseURL :: string where "kBaseURL = ''base_url''"
definition kShopID :: string where "kShopID = ''shop_id''"
definition kEmail :: string where "kEmail = ''email''"
definition kToken :: string where "kToken = ''token''"
definition kCursor :: string where "kCursor = ''cursor''"
definition kLastSync :: string where "kLastSync = ''last_sync''"
definition kLastError :: string where "kLastError = ''last_error''"
definition kSettingsDue :: string where "kSettingsDue = ''settings_updated_at''"

lemmas sync_keys =
  kLinked_def kBaseURL_def kShopID_def kEmail_def kToken_def kCursor_def kLastSync_def
  kLastError_def kSettingsDue_def

definition markProductPending :: "string \<Rightarrow> db \<Rightarrow> err + db" where
  "markProductPending i D =
     rbind (bPut i [] (bPendingProd D)) (\<lambda>b. Inr (D\<lparr>bPendingProd := b\<rparr>))"

definition markSalePending :: "string \<Rightarrow> db \<Rightarrow> err + db" where
  "markSalePending i D =
     rbind (bPut i [] (bPendingSale D)) (\<lambda>b. Inr (D\<lparr>bPendingSale := b\<rparr>))"

definition markStockEventPending :: "string \<Rightarrow> db \<Rightarrow> err + db" where
  "markStockEventPending i D =
     rbind (bPut i [] (bPendingStock D)) (\<lambda>b. Inr (D\<lparr>bPendingStock := b\<rparr>))"

definition markSettingsPending :: "gotime \<Rightarrow> db \<Rightarrow> err + db" where
  "markSettingsPending at D =
     rbind (bPut kSettingsDue (Stamp (tUTC at)) (bSyncState D)) (\<lambda>b. Inr (D\<lparr>bSyncState := b\<rparr>))"

lemma goodKey_sync_keys [simp]:
  "goodKey kLinked" "goodKey kBaseURL" "goodKey kShopID" "goodKey kEmail" "goodKey kToken"
  "goodKey kCursor" "goodKey kLastSync" "goodKey kLastError" "goodKey kSettingsDue"
  by (simp_all add: goodKey_def sync_keys maxKeySize_def)

lemma mark_pending_eq_Inr [result_simps]:
  "markProductPending i D = Inr D' \<longleftrightarrow> goodKey i \<and> D' = D\<lparr>bPendingProd := bput i [] (bPendingProd D)\<rparr>"
  "markSalePending i D = Inr D' \<longleftrightarrow> goodKey i \<and> D' = D\<lparr>bPendingSale := bput i [] (bPendingSale D)\<rparr>"
  "markStockEventPending i D = Inr D' \<longleftrightarrow> goodKey i \<and> D' = D\<lparr>bPendingStock := bput i [] (bPendingStock D)\<rparr>"
  by (auto simp: markProductPending_def markSalePending_def markStockEventPending_def result_simps)

lemma markSettingsPending_eq:
  "markSettingsPending at D = Inr (D\<lparr>bSyncState := bput kSettingsDue (Stamp (tUTC at)) (bSyncState D)\<rparr>)"
  by (simp add: markSettingsPending_def)

end
