(* ===== verification/Settings.thy ===== *)
theory Settings
  imports AuditLog Outbox
begin

text \<open>
  Settings and the logo (\<^verbatim>\<open>boltstore.go\<close>): a table of strings read over the defaults, the
  keys that sync, the tax settings as a sale reads them, and the logo blob with its flag.
\<close>

section \<open>The code\<close>

text \<open>\<^verbatim>\<open>out[string(k)] = string(v)\<close> over the defaults, in key order.\<close>

definition Settings :: "db \<Rightarrow> (string \<rightharpoonup> string)" where
  "Settings D = fold (\<lambda>(k, v) m. m(k \<mapsto> v)) (bSettings D) Defaults"

definition syncSettingKeys :: "string list" where
  "syncSettingKeys = [KeyShopName, KeyPaperWidth, KeyScanner, KeyReceiptTheme, KeyHeaderLine,
     KeyFooter, KeyTaxRateBps, KeyTaxMode]"

fun syncableLoop :: "string \<Rightarrow> string list \<Rightarrow> bool" where
  "syncableLoop key [] = False"
| "syncableLoop key (k # ks) = (if k = key then True else syncableLoop key ks)"

definition syncableSettingKey :: "string \<Rightarrow> bool" where
  "syncableSettingKey key = syncableLoop key syncSettingKeys"

text \<open>Reading a missing key gives the empty string (a nil slice converted).\<close>

definition settingText :: "string bucket \<Rightarrow> string \<Rightarrow> string" where
  "settingText b k = (case bGet b k of None \<Rightarrow> '''' | Some v \<Rightarrow> v)"

definition setSettingTx :: "env \<Rightarrow> string \<Rightarrow> string \<Rightarrow> db \<Rightarrow> err + db" where
  "setSettingTx e key value D =
     (let changed = settingText (bSettings D) key \<noteq> value in
      rbind (bPut key value (bSettings D)) (\<lambda>sb.
      let D1 = D\<lparr>bSettings := sb\<rparr> in
      rbind (if changed then
               (case settingAudit key value of (action, detail) \<Rightarrow>
                  appendAudit (eNow e) (eAuditID e) action detail D1)
             else Inr D1) (\<lambda>D2.
      if syncableSettingKey key then markSettingsPending (eNow2 e) D2 else Inr D2)))"

definition SetSetting :: "env \<Rightarrow> string \<Rightarrow> string \<Rightarrow> db \<Rightarrow> (err + unit) \<times> db" where
  "SetSetting e key value = dbExec e (setSettingTx e key value)"

definition logoKey :: string where
  "logoKey = ''logo''"

definition setLogoTx :: "bytes \<Rightarrow> db \<Rightarrow> err + db" where
  "setLogoTx data D =
     rbind (bPut logoKey data (bBlobs D)) (\<lambda>bl.
     rbind (bPut KeyHasLogo ''yes'' (bSettings D)) (\<lambda>sb.
       Inr (D\<lparr>bBlobs := bl, bSettings := sb\<rparr>)))"

definition SetLogo :: "env \<Rightarrow> bytes \<Rightarrow> db \<Rightarrow> (err + unit) \<times> db" where
  "SetLogo e data = dbExec e (setLogoTx data)"

definition Logo :: "db \<Rightarrow> bytes option" where
  "Logo D = bGet (bBlobs D) logoKey"

definition deleteLogoTx :: "db \<Rightarrow> err + db" where
  "deleteLogoTx D =
     rbind (bPut KeyHasLogo ''no'' (bSettings D)) (\<lambda>sb.
       Inr (D\<lparr>bBlobs := bDelete logoKey (bBlobs D), bSettings := sb\<rparr>))"

definition DeleteLogo :: "env \<Rightarrow> db \<Rightarrow> (err + unit) \<times> db" where
  "DeleteLogo e = dbExec e deleteLogoTx"

definition taxFromBucket :: "db \<Rightarrow> int \<times> string" where
  "taxFromBucket D =
     ((case bGet (bSettings D) KeyTaxRateBps of None \<Rightarrow> 0 | Some v \<Rightarrow> fst (atoi v)),
      (case bGet (bSettings D) KeyTaxMode of
         None \<Rightarrow> TaxModeNone
       | Some v \<Rightarrow> if 0 < length v then v else TaxModeNone))"

section \<open>Reading and writing\<close>

lemma fold_upd_eq:
  "distinct (map fst kvs) \<Longrightarrow> fold (\<lambda>(k, v) m. m(k \<mapsto> v)) kvs m = m ++ map_of kvs"
proof (induction kvs arbitrary: m)
  case (Cons kv kvs)
  obtain k v where kv: "kv = (k, v)" by (cases kv)
  with Cons.prems have "map_of kvs k = None" by (simp add: map_of_eq_None_iff)
  with Cons show ?case by (auto simp: kv fun_eq_iff map_add_def split: option.splits)
qed simp

lemma Settings_eq: "bsorted (bSettings D) \<Longrightarrow> Settings D = Defaults ++ map_of (bSettings D)"
  by (simp add: Settings_def fold_upd_eq bsorted_distinct)

lemma syncableLoop_iff: "syncableLoop key ks \<longleftrightarrow> key \<in> set ks"
  by (induction ks) auto

lemma syncableSettingKey_iff: "syncableSettingKey key \<longleftrightarrow> key \<in> set syncSettingKeys"
  by (simp add: syncableSettingKey_def syncableLoop_iff)

lemma goodKey_settings [simp]:
  "goodKey KeyHasLogo" "goodKey logoKey" "goodKey KeyTaxMode" "goodKey KeyTaxRateBps"
  "goodKey KeyShopName" "goodKey KeyPrinterAddr" "goodKey KeyPaperWidth" "goodKey KeyScanner"
  "goodKey KeyReceiptTheme" "goodKey KeyHeaderLine" "goodKey KeyFooter"
  by (simp_all add: goodKey_def maxKeySize_def setting_keys logoKey_def)

definition settingLogged :: "env \<Rightarrow> string \<Rightarrow> string \<Rightarrow> db \<Rightarrow> db" where
  "settingLogged e key value D = (case settingAudit key value of (action, detail) \<Rightarrow>
     logged (eNow e) (eAuditID e) action detail D)"

lemma settingLogged_frame [simp]:
  "bProducts (settingLogged e k v D) = bProducts D" "bSales (settingLogged e k v D) = bSales D"
  "bSettings (settingLogged e k v D) = bSettings D" "bBlobs (settingLogged e k v D) = bBlobs D"
  "bBarcodeIdx (settingLogged e k v D) = bBarcodeIdx D" "bRefIdx (settingLogged e k v D) = bRefIdx D"
  "bStockEvents (settingLogged e k v D) = bStockEvents D"
  "bSyncState (settingLogged e k v D) = bSyncState D"
  "bPendingProd (settingLogged e k v D) = bPendingProd D"
  "bPendingSale (settingLogged e k v D) = bPendingSale D"
  "bPendingStock (settingLogged e k v D) = bPendingStock D"
  by (simp_all add: settingLogged_def split: prod.splits)

lemma setSettingTx_eq:
  assumes "goodKey key"
  shows "setSettingTx e key value D =
    (let D1 = D\<lparr>bSettings := bput key value (bSettings D)\<rparr>;
         D2 = (if settingText (bSettings D) key \<noteq> value then settingLogged e key value D1 else D1)
     in Inr (if syncableSettingKey key
             then D2\<lparr>bSyncState := bput kSettingsDue (Stamp (tUTC (eNow2 e))) (bSyncState D2)\<rparr> else D2))"
  using assms
  by (simp add: setSettingTx_def settingLogged_def Let_def markSettingsPending_eq split: prod.splits)

text \<open>
  Writing a setting: it reads back, over the defaults and beside all other settings; the
  activity log gains one line exactly when the value changed; the sync clock is stamped
  exactly for the keys that sync, so the printer address and the logo flag never travel.
\<close>

theorem SetSetting_reads_back:
  assumes "bsorted (bSettings D)" and "audit_inv D" and "bAuditSeq D + 1 < 2 ^ 64"
    and "goodKey key" and "eIO e = None"
  shows "\<exists>D'. SetSetting e key value D = (Inr (), D') \<and>
     Settings D' = (Settings D)(key \<mapsto> value) \<and>
     bAudit D' = (if settingText (bSettings D) key = value then bAudit D
       else bAudit D @ [(putUint64 (bAuditSeq D + 1), Json \<lparr>auID = eAuditID e, auAt = eNow e,
              auAction = fst (settingAudit key value), auDetail = snd (settingAudit key value)\<rparr>)]) \<and>
     bSyncState D' = (if key \<in> {KeyShopName, KeyPaperWidth, KeyScanner, KeyReceiptTheme,
          KeyHeaderLine, KeyFooter, KeyTaxRateBps, KeyTaxMode}
        then bput kSettingsDue (Stamp (tUTC (eNow2 e))) (bSyncState D) else bSyncState D)"
proof -
  define D1 where "D1 = D\<lparr>bSettings := bput key value (bSettings D)\<rparr>"
  define D2 where "D2 = (if settingText (bSettings D) key \<noteq> value then settingLogged e key value D1 else D1)"
  define D' where "D' = (if syncableSettingKey key
      then D2\<lparr>bSyncState := bput kSettingsDue (Stamp (tUTC (eNow2 e))) (bSyncState D2)\<rparr> else D2)"
  have "setSettingTx e key value D = Inr D'"
    unfolding D'_def D2_def D1_def setSettingTx_eq [OF assms(4)] Let_def ..
  then have run: "SetSetting e key value D = (Inr (), D')"
    using assms(5) by (simp add: SetSetting_def dbExec_eq_Inr)
  have "bSettings D' = bput key value (bSettings D)"
    by (simp add: D'_def D2_def D1_def)
  then have set': "Settings D' = (Settings D)(key \<mapsto> value)"
    using assms(1) by (simp add: Settings_eq)
  have "audit_inv D1" "bAuditSeq D1 + 1 < 2 ^ 64" "bAuditSeq D1 = bAuditSeq D" "bAudit D1 = bAudit D"
    using assms(2,3) by (simp_all add: D1_def audit_inv_def)
  then have "bAudit (settingLogged e key value D1) = bAudit D @ [(putUint64 (bAuditSeq D + 1),
      Json \<lparr>auID = eAuditID e, auAt = eNow e, auAction = fst (settingAudit key value),
            auDetail = snd (settingAudit key value)\<rparr>)]"
    by (simp add: settingLogged_def logged_at_end split: prod.splits)
  moreover have "bAudit D' = bAudit D2" by (simp add: D'_def)
  ultimately have log: "bAudit D' = (if settingText (bSettings D) key = value then bAudit D
       else bAudit D @ [(putUint64 (bAuditSeq D + 1), Json \<lparr>auID = eAuditID e, auAt = eNow e,
              auAction = fst (settingAudit key value), auDetail = snd (settingAudit key value)\<rparr>)])"
    using \<open>bAudit D1 = bAudit D\<close>
    by (cases "settingText (bSettings D) key = value") (simp_all only: D2_def simp_thms if_True if_False)
  have "bSyncState D2 = bSyncState D" by (simp add: D2_def D1_def)
  then have "bSyncState D' = (if key \<in> set syncSettingKeys
        then bput kSettingsDue (Stamp (tUTC (eNow2 e))) (bSyncState D) else bSyncState D)"
    by (simp add: D'_def syncableSettingKey_iff)
  then have "bSyncState D' = (if key \<in> {KeyShopName, KeyPaperWidth, KeyScanner, KeyReceiptTheme,
          KeyHeaderLine, KeyFooter, KeyTaxRateBps, KeyTaxMode}
        then bput kSettingsDue (Stamp (tUTC (eNow2 e))) (bSyncState D) else bSyncState D)"
    by (simp only: syncSettingKeys_def list.set)
  with run set' log show ?thesis by blast
qed

theorem SetSetting_reads_back_witness:
  "\<exists>D'. SetSetting (demoEnv 1) KeyShopName ''Duka'' emptyDB = (Inr (), D') \<and>
     Settings D' KeyShopName = Some ''Duka'' \<and> length (bAudit D') = 1"
proof -
  have e: "bsorted (bSettings emptyDB)" "audit_inv emptyDB" "bAuditSeq emptyDB + 1 < 2 ^ 64"
      "settingText (bSettings emptyDB) KeyShopName \<noteq> ''Duka''" "bAudit emptyDB = []"
    by (simp_all add: emptyDB_def audit_inv_def settingText_def)
  show ?thesis
    using SetSetting_reads_back [OF e(1-3), of KeyShopName "demoEnv 1" "''Duka''"] e(4,5)
    by fastforce
qed

text \<open>
  The logo: what is stored is what is read back, the settings flag follows (yes after
  storing, no after removing), and neither call touches the sync clock or the activity log.
\<close>

theorem Logo_roundtrip:
  assumes "bsorted (bSettings D)" and "eIO e = None"
  shows "\<exists>D1 D2. SetLogo e data D = (Inr (), D1) \<and> Logo D1 = Some data \<and>
     Settings D1 = (Settings D)(KeyHasLogo \<mapsto> ''yes'') \<and>
     DeleteLogo e D1 = (Inr (), D2) \<and> Logo D2 = None \<and>
     Settings D2 = (Settings D)(KeyHasLogo \<mapsto> ''no'') \<and>
     bSyncState D2 = bSyncState D \<and> bAudit D2 = bAudit D"
proof -
  define D1 where "D1 = D\<lparr>bBlobs := bput logoKey data (bBlobs D), bSettings := bput KeyHasLogo ''yes'' (bSettings D)\<rparr>"
  define D2 where "D2 = D1\<lparr>bBlobs := bDelete logoKey (bBlobs D1), bSettings := bput KeyHasLogo ''no'' (bSettings D1)\<rparr>"
  have "SetLogo e data D = (Inr (), D1)" "DeleteLogo e D1 = (Inr (), D2)"
    using assms(2) by (simp_all add: SetLogo_def DeleteLogo_def dbExec_eq_Inr setLogoTx_def deleteLogoTx_def
        D1_def D2_def)
  moreover have "Settings D1 = (Settings D)(KeyHasLogo \<mapsto> ''yes'')" "Settings D2 = (Settings D)(KeyHasLogo \<mapsto> ''no'')"
    using assms(1) by (simp_all add: Settings_eq D1_def D2_def)
  ultimately show ?thesis
    by (intro exI [of _ D1] exI [of _ D2]) (simp add: Logo_def D1_def D2_def)
qed

theorem Logo_roundtrip_witness:
  "\<exists>D1. SetLogo (demoEnv 1) ''png'' emptyDB = (Inr (), D1) \<and> Logo D1 = Some ''png''"
  using Logo_roundtrip [of emptyDB "demoEnv 1" "''png''"] by (fastforce simp: emptyDB_def)

end
