(* ===== verification/Stock.thy ===== *)
theory Stock
  imports AuditLog Outbox
begin

text \<open>
  \<^verbatim>\<open>internal/store/boltstore/stock.go\<close>: a product's on-hand is never stored. It is the
  sum of its append-only stock events minus what its sales sold, computed for one product
  (\<open>onHandOf\<close>) or for the whole catalogue in one pass (\<open>stockTotals\<close>). The lemmas give
  both in closed form, so they agree, and say how one more event or sale moves the count.
\<close>

section \<open>The code\<close>

definition appendStockEvent :: "StockEvent \<Rightarrow> db \<Rightarrow> err + db" where
  "appendStockEvent ev D =
     rbind (putJSON (evID ev) ev (bStockEvents D)) (\<lambda>b.
       markStockEventPending (evID ev) (D\<lparr>bStockEvents := b\<rparr>))"

text \<open>A Go \<^verbatim>\<open>map[string]int\<close> read with the zero default is a total function.\<close>

definition addDelta :: "(string \<Rightarrow> int) \<Rightarrow> StockEvent \<Rightarrow> (string \<Rightarrow> int)" where
  "addDelta m ev = m(evProductID ev := wrapI (m (evProductID ev) + evDelta ev))"

definition addSold :: "(string \<Rightarrow> int) \<Rightarrow> SaleItem \<Rightarrow> (string \<Rightarrow> int)" where
  "addSold m it = m(itProductID it := wrapI (m (itProductID it) + itQty it))"

definition stockTotals :: "db \<Rightarrow> err + (string \<Rightarrow> int) \<times> (string \<Rightarrow> int)" where
  "stockTotals D =
     rbind (unmarshalAll (bStockEvents D)) (\<lambda>evs.
     rbind (unmarshalAll (bSales D)) (\<lambda>ss.
       Inr (foldl addDelta (\<lambda>_. 0) evs,
            foldl (\<lambda>m s. foldl addSold m (saItems s)) (\<lambda>_. 0) ss)))"

definition max0 :: "int \<Rightarrow> int" where
  "max0 n = (if n < 0 then 0 else n)"

definition onHandOf :: "string \<Rightarrow> db \<Rightarrow> err + int" where
  "onHandOf productID D =
     rbind (unmarshalAll (bStockEvents D)) (\<lambda>evs.
       let tot = foldl (\<lambda>t ev. if evProductID ev = productID then wrapI (t + evDelta ev) else t) 0 evs in
     rbind (unmarshalAll (bSales D)) (\<lambda>ss.
       Inr (foldl (\<lambda>t s. foldl (\<lambda>t it. if itProductID it = productID then wrapI (t - itQty it) else t)
                    t (saItems s)) tot ss)))"

definition restockView :: "string \<Rightarrow> db \<Rightarrow> err + Product" where
  "restockView productID D =
     (case bGet (bProducts D) productID of
        None \<Rightarrow> Inl ErrNotFound
      | Some raw \<Rightarrow> rbind (unmarshal raw) (\<lambda>p.
          rbind (onHandOf productID D) (\<lambda>oh. Inr (p\<lparr>pStock := max0 oh\<rparr>))))"

definition actStockChanged :: string where "actStockChanged = ''Stock changed''"

definition restockDetail :: "Product \<Rightarrow> int \<Rightarrow> int \<Rightarrow> string" where
  "restockDetail p qty oh =
     (let verb = (if qty < 0 then ''removed '' @ itoa (wrapI (- qty)) else ''added '' @ itoa qty)
      in pName p @ '', '' @ verb @ '' (now '' @ itoa (max0 oh) @ '')'')"

definition restockTx :: "env \<Rightarrow> string \<Rightarrow> int \<Rightarrow> db \<Rightarrow> err + Product \<times> db" where
  "restockTx e productID qty D =
     (case bGet (bProducts D) productID of
        None \<Rightarrow> Inl ErrNotFound
      | Some raw \<Rightarrow> rbind (unmarshal raw) (\<lambda>p.
          let ev = \<lparr>evID = eEventID e, evProductID = productID, evDelta = qty,
                    evReason = StockRestock, evCreatedAt = eNow e\<rparr> in
          rbind (appendStockEvent ev D) (\<lambda>D1.
          rbind (onHandOf productID D1) (\<lambda>oh.
          rbind (appendAudit (eNow e) (eAuditID e) actStockChanged (restockDetail p qty oh) D1) (\<lambda>D2.
            Inr (p\<lparr>pStock := max0 oh\<rparr>, D2))))))"

definition Restock :: "env \<Rightarrow> string \<Rightarrow> int \<Rightarrow> db \<Rightarrow> (err + Product) \<times> db" where
  "Restock e productID qty D =
     (if qty = 0 then (restockView productID D, D)
      else dbUpdate e (restockTx e productID qty) D)"

section \<open>Closed forms\<close>

definition sumDelta :: "string \<Rightarrow> StockEvent list \<Rightarrow> int" where
  "sumDelta pid evs = (\<Sum>ev\<leftarrow>evs. if evProductID ev = pid then evDelta ev else 0)"

definition soldIn :: "string \<Rightarrow> Sale \<Rightarrow> int" where
  "soldIn pid s = (\<Sum>it\<leftarrow>saItems s. if itProductID it = pid then itQty it else 0)"

definition sumSold :: "string \<Rightarrow> Sale list \<Rightarrow> int" where
  "sumSold pid ss = (\<Sum>s\<leftarrow>ss. soldIn pid s)"

text \<open>The mathematical on-hand: what the wrapped sums stand for.\<close>

definition onHand :: "string \<Rightarrow> db \<Rightarrow> int" where
  "onHand pid D = sumDelta pid (cellVals (bStockEvents D)) - sumSold pid (cellVals (bSales D))"

lemma foldl_addDelta:
  "wrapI (m pid) = m pid \<Longrightarrow> foldl addDelta m evs pid = wrapI (m pid + sumDelta pid evs)"
proof (induction evs arbitrary: m)
  case (Cons ev evs)
  then show ?case
    by (simp add: Cons.IH addDelta_def sumDelta_def goint add.assoc)
qed (simp add: sumDelta_def)

lemma foldl_addSold_items:
  "wrapI (m pid) = m pid \<Longrightarrow> foldl addSold m its pid =
     wrapI (m pid + (\<Sum>it\<leftarrow>its. if itProductID it = pid then itQty it else 0))"
proof (induction its arbitrary: m)
  case (Cons it its)
  then show ?case
    by (simp add: Cons.IH addSold_def goint add.assoc)
qed simp

lemma foldl_addSold:
  "wrapI (m pid) = m pid \<Longrightarrow>
     foldl (\<lambda>m s. foldl addSold m (saItems s)) m ss pid = wrapI (m pid + sumSold pid ss)"
proof (induction ss arbitrary: m)
  case (Cons s ss)
  then show ?case
    by (simp add: Cons.IH foldl_addSold_items sumSold_def soldIn_def goint add.assoc)
qed (simp add: sumSold_def)

lemma foldl_onHand_events:
  "wrapI t = t \<Longrightarrow>
     foldl (\<lambda>t ev. if evProductID ev = pid then wrapI (t + evDelta ev) else t) t evs =
     wrapI (t + sumDelta pid evs)"
proof (induction evs arbitrary: t)
  case (Cons ev evs)
  then show ?case
    by (simp add: Cons.IH sumDelta_def goint add.assoc)
qed (simp add: sumDelta_def)

lemma foldl_onHand_items:
  "wrapI t = t \<Longrightarrow>
     foldl (\<lambda>t it. if itProductID it = pid then wrapI (t - itQty it) else t) t its =
     wrapI (t - (\<Sum>it\<leftarrow>its. if itProductID it = pid then itQty it else 0))"
proof (induction its arbitrary: t)
  case (Cons it its)
  then show ?case
    by (simp add: Cons.IH goint diff_diff_eq)
qed simp

lemma foldl_onHand_sales:
  "wrapI t = t \<Longrightarrow>
     foldl (\<lambda>t s. foldl (\<lambda>t it. if itProductID it = pid then wrapI (t - itQty it) else t) t (saItems s)) t ss =
     wrapI (t - sumSold pid ss)"
proof (induction ss arbitrary: t)
  case (Cons s ss)
  then show ?case
    by (simp add: Cons.IH foldl_onHand_items sumSold_def soldIn_def goint diff_diff_eq)
qed (simp add: sumSold_def)

lemma wrapI_0 [simp]: "wrapI 0 = 0"
  by (simp add: fitsI_def)

lemma onHandOf_eq_Inr [result_simps]:
  "onHandOf pid D = Inr n \<longleftrightarrow>
     readable (bStockEvents D) \<and> readable (bSales D) \<and> n = wrapI (onHand pid D)"
  by (auto simp: onHandOf_def result_simps Let_def foldl_onHand_events foldl_onHand_sales
      onHand_def goint)

lemma stockTotals_eq_Inr [result_simps]:
  "stockTotals D = Inr (delta, sold) \<longleftrightarrow>
     readable (bStockEvents D) \<and> readable (bSales D) \<and>
     delta = (\<lambda>pid. wrapI (sumDelta pid (cellVals (bStockEvents D)))) \<and>
     sold = (\<lambda>pid. wrapI (sumSold pid (cellVals (bSales D))))"
  by (auto simp: stockTotals_def result_simps fun_eq_iff foldl_addDelta foldl_addSold)

lemma appendStockEvent_eq_Inr [result_simps]:
  "appendStockEvent ev D = Inr D' \<longleftrightarrow> goodKey (evID ev) \<and>
     D' = D\<lparr>bStockEvents := bput (evID ev) (Json ev) (bStockEvents D),
            bPendingStock := bput (evID ev) [] (bPendingStock D)\<rparr>"
  by (auto simp: appendStockEvent_def result_simps)

lemma max0_nonneg [simp]: "0 \<le> max0 n"
  by (simp add: max0_def)

section \<open>Invariant\<close>

text \<open>
  The event log is in key order and decodes, every event lies under its own id, and every
  id awaiting push is the id of an event.
\<close>

definition table_inv :: "('a \<Rightarrow> bytes) \<Rightarrow> 'a cell bucket \<Rightarrow> bytes bucket \<Rightarrow> bool" where
  "table_inv f b pend \<longleftrightarrow> bsorted b \<and> readable b \<and> keyed f b \<and>
     bsorted pend \<and> fst ` set pend \<subseteq> fst ` set b"

definition stock_inv :: "db \<Rightarrow> bool" where
  "stock_inv D \<longleftrightarrow> table_inv evID (bStockEvents D) (bPendingStock D)"

lemma table_inv_put:
  assumes "table_inv f b pend"
  shows "table_inv f (bput (f x) (Json x) b) pend"
    and "table_inv f (bput (f x) (Json x) b) (bput (f x) v pend)"
  using assms by (auto simp: table_inv_def)

lemma table_inv_mark:
  "table_inv f b pend \<Longrightarrow> k \<in> fst ` set b \<Longrightarrow> table_inv f b (bput k v pend)"
  by (auto simp: table_inv_def)

lemma table_inv_clear: "table_inv f b pend \<Longrightarrow> table_inv f b (bDelete k pend)"
  by (auto simp: table_inv_def)

lemma table_inv_key: "table_inv f b pend \<Longrightarrow> bGet b k = Some (Json x) \<Longrightarrow> f x = k"
  by (simp add: table_inv_def keyed_def)

lemma stock_inv_append:
  "stock_inv D \<Longrightarrow> appendStockEvent ev D = Inr D' \<Longrightarrow> stock_inv D'"
  by (auto simp: stock_inv_def result_simps intro: table_inv_put)

section \<open>How the on-hand moves\<close>

lemma onHand_cong:
  "bStockEvents D' = bStockEvents D \<Longrightarrow> bSales D' = bSales D \<Longrightarrow> onHand pid D' = onHand pid D"
  by (simp add: onHand_def)

lemma sum_list_mset_eq:
  fixes f :: "'a \<Rightarrow> int"
  assumes "mset xs = mset ys"
  shows "sum_list (map f xs) = sum_list (map f ys)"
proof -
  have "mset (map f xs) = mset (map f ys)" using assms by simp
  then have "sum_mset (mset (map f xs)) = sum_mset (mset (map f ys))" by simp
  then show ?thesis by (simp only: sum_mset_sum_list)
qed

lemma sumDelta_mset: "mset xs = mset ys \<Longrightarrow> sumDelta pid xs = sumDelta pid ys"
  unfolding sumDelta_def by (rule sum_list_mset_eq)

lemma sumSold_mset: "mset xs = mset ys \<Longrightarrow> sumSold pid xs = sumSold pid ys"
  unfolding sumSold_def by (rule sum_list_mset_eq)

lemma onHand_new_event:
  assumes "evID ev \<notin> fst ` set (bStockEvents D)"
    and "bStockEvents D' = bput (evID ev) (Json ev) (bStockEvents D)" and "bSales D' = bSales D"
  shows "onHand pid D' = onHand pid D + (if evProductID ev = pid then evDelta ev else 0)"
proof -
  have "sumDelta pid (cellVals (bStockEvents D')) = sumDelta pid (ev # cellVals (bStockEvents D))"
    using assms by (intro sumDelta_mset) (simp add: mset_cellVals_bput_new)
  then show ?thesis
    using assms(3) by (simp add: onHand_def sumDelta_def)
qed

lemma onHand_new_sale:
  assumes "saID s \<notin> fst ` set (bSales D)"
    and "bSales D' = bput (saID s) (Json s) (bSales D)" and "bStockEvents D' = bStockEvents D"
  shows "onHand pid D' = onHand pid D - soldIn pid s"
proof -
  have "sumSold pid (cellVals (bSales D')) = sumSold pid (s # cellVals (bSales D))"
    using assms by (intro sumSold_mset) (simp add: mset_cellVals_bput_new)
  then show ?thesis
    using assms(3) by (simp add: onHand_def sumSold_def)
qed

section \<open>Restock\<close>

lemma restockTx_eq_Inr:
  "restockTx e productID qty D = Inr (p, D') \<longleftrightarrow>
    (let ev = \<lparr>evID = eEventID e, evProductID = productID, evDelta = qty,
               evReason = StockRestock, evCreatedAt = eNow e\<rparr> in
     \<exists>q D1. bGet (bProducts D) productID = Some (Json q) \<and>
       appendStockEvent ev D = Inr D1 \<and>
       readable (bStockEvents D1) \<and> readable (bSales D1) \<and>
       p = q\<lparr>pStock := max0 (wrapI (onHand productID D1))\<rparr> \<and>
       D' = logged (eNow e) (eAuditID e) actStockChanged
              (restockDetail q qty (wrapI (onHand productID D1))) D1)"
  by (auto simp: restockTx_def Let_def rbind_eq_Inr unmarshal_eq_Inr onHandOf_eq_Inr
      split: option.splits)

text \<open>
  C19. One-product and whole-catalogue stock agree: \<open>stockTotals\<close> fails exactly when
  \<open>onHandOf\<close> does, and when both return, the product's on-hand is its events' total minus
  its sold total, in Go's wrapping arithmetic.
\<close>

theorem onHandOf_stockTotals:
  "(case stockTotals D of
      Inl _ \<Rightarrow> \<not> is_ok (onHandOf pid D)
    | Inr (delta, sold) \<Rightarrow> onHandOf pid D = Inr (wrapI (delta pid - sold pid)))"
proof (cases "stockTotals D")
  case (Inl x)
  then have "\<not> (readable (bStockEvents D) \<and> readable (bSales D))"
    by (auto simp: stockTotals_def)
  then show ?thesis using Inl by (auto simp: is_ok_iff result_simps)
next
  case (Inr ds)
  obtain delta sold where ds: "ds = (delta, sold)" by (cases ds)
  with Inr have "stockTotals D = Inr (delta, sold)" by simp
  then have "onHandOf pid D = Inr (wrapI (delta pid - sold pid))"
    by (auto simp: result_simps onHand_def goint)
  then show ?thesis by (simp add: Inr ds)
qed

lemma restockTx_moves:
  assumes "restockTx e productID qty D = Inr (p, D')"
    and "eEventID e \<notin> fst ` set (bStockEvents D)"
  shows "onHand pid D' = onHand pid D + (if pid = productID then qty else 0)"
    and "pStock p = max0 (wrapI (onHand productID D + qty))"
    and "bGet (bStockEvents D') (eEventID e) = Some (Json \<lparr>evID = eEventID e, evProductID = productID,
       evDelta = qty, evReason = StockRestock, evCreatedAt = eNow e\<rparr>)"
    and "bGet (bPendingStock D') (eEventID e) = Some []"
proof -
  let ?ev = "\<lparr>evID = eEventID e, evProductID = productID, evDelta = qty,
       evReason = StockRestock, evCreatedAt = eNow e\<rparr>"
  obtain q D1 where tx: "bGet (bProducts D) productID = Some (Json q)"
      "appendStockEvent ?ev D = Inr D1"
      "p = q\<lparr>pStock := max0 (wrapI (onHand productID D1))\<rparr>"
      "D' = logged (eNow e) (eAuditID e) actStockChanged
              (restockDetail q qty (wrapI (onHand productID D1))) D1"
    using assms(1) unfolding restockTx_eq_Inr Let_def by blast
  have D1: "D1 = D\<lparr>bStockEvents := bput (eEventID e) (Json ?ev) (bStockEvents D),
      bPendingStock := bput (eEventID e) [] (bPendingStock D)\<rparr>"
    using tx(2) by (simp add: result_simps)
  have oh: "onHand pid D1 = onHand pid D + (if evProductID ?ev = pid then evDelta ?ev else 0)" for pid
    using assms(2) by (intro onHand_new_event) (simp_all add: D1)
  have "onHand pid D' = onHand pid D1" for pid
    by (rule onHand_cong) (simp_all add: tx(4))
  then show "onHand pid D' = onHand pid D + (if pid = productID then qty else 0)"
    and "pStock p = max0 (wrapI (onHand productID D + qty))"
    and "bGet (bStockEvents D') (eEventID e) = Some (Json ?ev)"
    and "bGet (bPendingStock D') (eEventID e) = Some []"
    using oh by (auto simp: tx(3,4) D1)
qed

lemma restockTx_succeeds:
  assumes "bGet (bProducts D) productID = Some (Json q)"
    and "readable (bStockEvents D)" and "readable (bSales D)" and "goodKey (eEventID e)"
  shows "\<exists>p D'. restockTx e productID qty D = Inr (p, D')"
  using assms
  by (simp add: restockTx_def Let_def appendStockEvent_def markStockEventPending_def onHandOf_def)

text \<open>
  On a stored product and a log that decodes, a restock by a non-zero quantity succeeds
  when the commit does: it moves that product's on-hand by exactly the quantity and no
  other product's, returns the product with the new on-hand floored at zero, and leaves
  the new event in the log and in the outbox.
\<close>

theorem Restock_moves:
  assumes "bGet (bProducts D) productID = Some (Json q)"
    and "readable (bStockEvents D)" and "readable (bSales D)"
    and "goodKey (eEventID e)" and "eEventID e \<notin> fst ` set (bStockEvents D)"
    and "eIO e = None" and "qty \<noteq> 0"
  shows "\<exists>p D'. Restock e productID qty D = (Inr p, D') \<and>
    (\<forall>pid. onHand pid D' = onHand pid D + (if pid = productID then qty else 0)) \<and>
    pStock p = max0 (wrapI (onHand productID D + qty)) \<and>
    bGet (bStockEvents D') (eEventID e) = Some (Json \<lparr>evID = eEventID e, evProductID = productID,
       evDelta = qty, evReason = StockRestock, evCreatedAt = eNow e\<rparr>) \<and>
    bGet (bPendingStock D') (eEventID e) = Some []"
proof -
  obtain p D' where tx: "restockTx e productID qty D = Inr (p, D')"
    using restockTx_succeeds [OF assms(1-4)] by blast
  then have "Restock e productID qty D = (Inr p, D')"
    using assms(6,7) by (simp add: Restock_def dbUpdate_ok)
  then show ?thesis
    using restockTx_moves [OF tx assms(5)] by blast
qed

definition demoProduct :: Product where
  "demoProduct = \<lparr>pID = ''p'', pName = ''Bread'', pPriceCents = 6500, pBarcode = ''111'',
     pTrackStock = True, pStock = 0, pTaxable = True, pActive = True, pUpdatedAt = demoTime 1,
     pDeletedAt = None\<rparr>"

definition demoShop :: db where
  "demoShop = emptyDB\<lparr>bProducts := [(''p'', Json demoProduct)], bBarcodeIdx := [(''111'', ''p'')]\<rparr>"

lemma demoShop_simps [simp]:
  "bProducts demoShop = [(''p'', Json demoProduct)]" "bBarcodeIdx demoShop = [(''111'', ''p'')]"
  "bStockEvents demoShop = []" "bSales demoShop = []" "bAudit demoShop = []" "bAuditSeq demoShop = 0"
  "bPendingProd demoShop = []" "bPendingSale demoShop = []" "bPendingStock demoShop = []"
  "bRefIdx demoShop = []" "bSettings demoShop = []" "bSyncState demoShop = []" "bBlobs demoShop = []"
  by (simp_all add: demoShop_def emptyDB_def)

theorem Restock_moves_witness:
  "\<exists>p D'. Restock (demoEnv 2) ''p'' 5 demoShop = (Inr p, D') \<and> onHand ''p'' D' = 5 \<and> pStock p = 5"
proof -
  have "onHand ''p'' demoShop = 0" by (simp add: onHand_def sumDelta_def sumSold_def)
  moreover have "max0 (wrapI 5) = 5" by (simp add: max0_def fitsI_def intBits_def)
  ultimately show ?thesis
    using Restock_moves [of demoShop "''p''" demoProduct "demoEnv 2" 5]
    by (fastforce simp: goodKey_demoID maxKeySize_def)
qed

end
