(* ===== verification/Catalogue.thy ===== *)
theory Catalogue
  imports Stock
begin

text \<open>
  The catalogue of \<^verbatim>\<open>internal/store/boltstore/boltstore.go\<close>: listing, adding, editing
  and deleting products, the barcode index, and the starter catalogue. Every write is one
  transaction that also records the activity line, the stock event and the outbox mark.
\<close>

section \<open>The code\<close>

definition derivedStock :: "Product \<Rightarrow> (string \<Rightarrow> int) \<Rightarrow> (string \<Rightarrow> int) \<Rightarrow> int" where
  "derivedStock p delta sold =
     (if \<not> pTrackStock p then 0 else max0 (wrapI (delta (pID p) - sold (pID p))))"

definition Products :: "db \<Rightarrow> err + Product list" where
  "Products D =
     rbind (stockTotals D) (\<lambda>(delta, sold).
     rbind (unmarshalAll (bProducts D)) (\<lambda>ps.
       Inr (sort_key pName
              (map (\<lambda>p. p\<lparr>pStock := derivedStock p delta sold\<rparr>) (filter pActive ps)))))"

definition draftProduct :: "env \<Rightarrow> ProductDraft \<Rightarrow> Product" where
  "draftProduct e d =
     \<lparr>pID = eRowID e, pName = dName d, pPriceCents = dPriceCents d, pBarcode = dBarcode d,
      pTrackStock = dTrackStock d, pStock = dStock d, pTaxable = dTaxable d, pActive = True,
      pUpdatedAt = eNow e, pDeletedAt = None\<rparr>"

text \<open>The barcode put shared by adding and editing: skipped for an empty barcode.\<close>

definition indexBarcode :: "string \<Rightarrow> string \<Rightarrow> string bucket \<Rightarrow> err + string bucket" where
  "indexBarcode code i idx = (if code \<noteq> '''' then bPut code i idx else Inr idx)"

definition actItemAdded :: string where "actItemAdded = ''Item added''"
definition actItemUpdated :: string where "actItemUpdated = ''Item updated''"
definition actItemRemoved :: string where "actItemRemoved = ''Item removed''"

definition addedDetail :: "Product \<Rightarrow> string" where
  "addedDetail p = pName p @ '', '' @ auditPrice (pPriceCents p)"

definition initialEvent :: "env \<Rightarrow> ProductDraft \<Rightarrow> StockEvent" where
  "initialEvent e d = \<lparr>evID = eEventID e, evProductID = eRowID e, evDelta = dStock d,
     evReason = StockInitial, evCreatedAt = eNow e\<rparr>"

definition addProductTx :: "env \<Rightarrow> ProductDraft \<Rightarrow> bool \<Rightarrow> db \<Rightarrow> err + Product \<times> db" where
  "addProductTx e d pending D =
     (let p = draftProduct e d in
      if dBarcode d \<noteq> '''' \<and> bGet (bBarcodeIdx D) (dBarcode d) \<noteq> None then Inl ErrBarcodeTaken
      else
        rbind (putJSON (pID p) p (bProducts D)) (\<lambda>pb.
        rbind (indexBarcode (dBarcode d) (pID p) (bBarcodeIdx D)) (\<lambda>idx.
        let D1 = D\<lparr>bProducts := pb, bBarcodeIdx := idx\<rparr> in
        if pending then
          rbind (appendAudit (eNow e) (eAuditID e) actItemAdded (addedDetail p) D1) (\<lambda>D2.
          rbind (if dTrackStock d \<and> dStock d \<noteq> 0 then appendStockEvent (initialEvent e d) D2
                 else Inr D2) (\<lambda>D3.
          rbind (markProductPending (pID p) D3) (\<lambda>D4. Inr (p, D4))))
        else Inr (p, D1))))"

definition addProduct :: "env \<Rightarrow> ProductDraft \<Rightarrow> bool \<Rightarrow> db \<Rightarrow> (err + Product) \<times> db" where
  "addProduct e d pending = dbUpdate e (addProductTx e d pending)"

definition AddProduct :: "env \<Rightarrow> ProductDraft \<Rightarrow> db \<Rightarrow> (err + Product) \<times> db" where
  "AddProduct e d = addProduct e d True"

definition editedProduct :: "env \<Rightarrow> ProductDraft \<Rightarrow> Product \<Rightarrow> Product" where
  "editedProduct e d p =
     p\<lparr>pName := dName d, pPriceCents := dPriceCents d, pBarcode := dBarcode d,
       pTrackStock := dTrackStock d, pStock := dStock d, pTaxable := dTaxable d,
       pUpdatedAt := eNow e\<rparr>"

definition editDetail :: "Product \<Rightarrow> ProductDraft \<Rightarrow> string" where
  "editDetail p d =
     (if pPriceCents p \<noteq> dPriceCents d then
        dName d @ '', price '' @ auditPrice (pPriceCents p) @ '' to '' @ auditPrice (dPriceCents d)
      else if pName p \<noteq> dName d then pName p @ '' renamed to '' @ dName d
      else dName d)"

definition edited :: "Product \<Rightarrow> ProductDraft \<Rightarrow> bool" where
  "edited p d \<longleftrightarrow> pName p \<noteq> dName d \<or> pPriceCents p \<noteq> dPriceCents d \<or>
     pBarcode p \<noteq> dBarcode d \<or> pTaxable p \<noteq> dTaxable d"

definition setToDetail :: "ProductDraft \<Rightarrow> string" where
  "setToDetail d = dName d @ '', set to '' @ itoa (dStock d)"

definition correctionEvent :: "env \<Rightarrow> string \<Rightarrow> int \<Rightarrow> StockEvent" where
  "correctionEvent e i delta = \<lparr>evID = eEventID e, evProductID = i, evDelta = delta,
     evReason = StockAdjustment, evCreatedAt = eNow e\<rparr>"

text \<open>The last part of the edit: bring the on-hand to the entered count.\<close>

definition correctStock :: "env \<Rightarrow> string \<Rightarrow> ProductDraft \<Rightarrow> int \<Rightarrow> db \<Rightarrow> err + db" where
  "correctStock e i d beforeOnHand D =
     (let delta = wrapI (dStock d - beforeOnHand) in
      if delta \<noteq> 0 then
        rbind (appendStockEvent (correctionEvent e i delta) D) (\<lambda>D1.
          appendAudit (eNow e) (eAuditID2 e) actStockChanged (setToDetail d) D1)
      else Inr D)"

definition barcodeOfOther :: "string \<Rightarrow> string \<Rightarrow> string bucket \<Rightarrow> bool" where
  "barcodeOfOther code i idx \<longleftrightarrow>
     code \<noteq> '''' \<and> (case bGet idx code of None \<Rightarrow> False | Some cur \<Rightarrow> cur \<noteq> i)"

definition dropOldBarcode :: "Product \<Rightarrow> ProductDraft \<Rightarrow> string bucket \<Rightarrow> string bucket" where
  "dropOldBarcode p d idx =
     (if pBarcode p \<noteq> dBarcode d \<and> pBarcode p \<noteq> '''' then bDelete (pBarcode p) idx else idx)"

definition updateProductTx :: "env \<Rightarrow> string \<Rightarrow> ProductDraft \<Rightarrow> db \<Rightarrow> err + Product \<times> db" where
  "updateProductTx e i d D =
     (case bGet (bProducts D) i of
        None \<Rightarrow> Inl ErrNotFound
      | Some raw \<Rightarrow> rbind (unmarshal raw) (\<lambda>p.
        rbind (onHandOf i D) (\<lambda>beforeOnHand.
        if barcodeOfOther (dBarcode d) i (bBarcodeIdx D) then Inl ErrBarcodeTaken
        else
          let p' = editedProduct e d p in
          rbind (putJSON i p' (bProducts D)) (\<lambda>pb.
          rbind (indexBarcode (dBarcode d) i (dropOldBarcode p d (bBarcodeIdx D))) (\<lambda>idx.
          let D1 = D\<lparr>bProducts := pb, bBarcodeIdx := idx\<rparr> in
          rbind (if edited p d
                 then appendAudit (eNow e) (eAuditID e) actItemUpdated (editDetail p d) D1
                 else Inr D1) (\<lambda>D2.
          rbind (markProductPending i D2) (\<lambda>D3.
          if dTrackStock d then
            rbind (correctStock e i d beforeOnHand D3) (\<lambda>D4. Inr (p'\<lparr>pStock := dStock d\<rparr>, D4))
          else Inr (p'\<lparr>pStock := 0\<rparr>, D3))))))))"

definition UpdateProduct :: "env \<Rightarrow> string \<Rightarrow> ProductDraft \<Rightarrow> db \<Rightarrow> (err + Product) \<times> db" where
  "UpdateProduct e i d = dbUpdate e (updateProductTx e i d)"

definition deleteProductTx :: "env \<Rightarrow> string \<Rightarrow> db \<Rightarrow> err + db" where
  "deleteProductTx e i D =
     (case bGet (bProducts D) i of
        None \<Rightarrow> Inl ErrNotFound
      | Some raw \<Rightarrow> rbind (unmarshal raw) (\<lambda>p.
          let idx = (if pBarcode p \<noteq> '''' then bDelete (pBarcode p) (bBarcodeIdx D) else bBarcodeIdx D);
              p' = p\<lparr>pActive := False, pDeletedAt := Some (eNow e), pUpdatedAt := eNow e\<rparr> in
          rbind (putJSON i p' (bProducts D)) (\<lambda>pb.
          rbind (appendAudit (eNow e) (eAuditID e) actItemRemoved (pName p)
                   (D\<lparr>bProducts := pb, bBarcodeIdx := idx\<rparr>)) (\<lambda>D1.
            markProductPending i D1))))"

definition DeleteProduct :: "env \<Rightarrow> string \<Rightarrow> db \<Rightarrow> (err + unit) \<times> db" where
  "DeleteProduct e i = dbExec e (deleteProductTx e i)"

text \<open>\<^verbatim>\<open>(Product, bool, error)\<close>: the option is the \<open>ok\<close> flag.\<close>

definition ProductByBarcode :: "string \<Rightarrow> db \<Rightarrow> err + Product option" where
  "ProductByBarcode code D =
     (case bGet (bBarcodeIdx D) code of
        None \<Rightarrow> Inr None
      | Some i \<Rightarrow> (case bGet (bProducts D) i of
          None \<Rightarrow> Inr None
        | Some raw \<Rightarrow> rbind (unmarshal raw) (\<lambda>p.
            if \<not> pActive p then Inr None
            else if pTrackStock p then
              rbind (onHandOf (pID p) D) (\<lambda>oh. Inr (Some (p\<lparr>pStock := max0 oh\<rparr>)))
            else Inr (Some p))))"

section \<open>Seeding\<close>

definition starter :: "(string \<times> int) list" where
  "starter = [(''Bread'', 6500), (''Milk 500ml'', 6000), (''Sugar 1kg'', 20000),
     (''Soda 500ml'', 8000), (''Cooking Oil 1L'', 35000), (''Rice 1kg'', 18000),
     (''Soap bar'', 5000), (''Eggs (tray)'', 38000)]"

definition starterDraft :: "string \<times> int \<Rightarrow> ProductDraft" where
  "starterDraft sp = \<lparr>dName = fst sp, dPriceCents = snd sp, dBarcode = '''', dTrackStock = False,
     dStock = 0, dTaxable = True\<rparr>"

text \<open>The loop runs one transaction per item; \<open>es n\<close> is what the \<open>n\<close>-th call draws.\<close>

fun seedLoop :: "(nat \<Rightarrow> env) \<Rightarrow> nat \<Rightarrow> (string \<times> int) list \<Rightarrow> db \<Rightarrow> (err + unit) \<times> db" where
  "seedLoop es n [] D = (Inr (), D)"
| "seedLoop es n (sp # sps) D =
     (case addProduct (es n) (starterDraft sp) False D of
        (Inl x, D') \<Rightarrow> (Inl x, D')
      | (Inr _, D') \<Rightarrow> seedLoop es (Suc n) sps D')"

definition SeedIfEmpty :: "(nat \<Rightarrow> env) \<Rightarrow> db \<Rightarrow> (err + unit) \<times> db" where
  "SeedIfEmpty es D =
     (case Products D of
        Inl x \<Rightarrow> (Inl x, D)
      | Inr ps \<Rightarrow> if 0 < length ps then (Inr (), D) else seedLoop es 0 starter D)"

section \<open>What a successful transaction did\<close>

lemma indexBarcode_eq_Inr [result_simps]:
  "indexBarcode code i idx = Inr idx' \<longleftrightarrow>
     (if code = [] then idx' = idx else goodKey code \<and> idx' = bput code i idx)"
  by (auto simp: indexBarcode_def bPut_eq_Inr)

lemma if_rbind_Inr [result_simps]:
  "(if c then m else Inr x) = Inr y \<longleftrightarrow> (if c then m = Inr y else x = y)"
  by auto

lemma addProductTx_eq_Inr:
  "addProductTx e d pending D = Inr (p, D') \<longleftrightarrow>
     p = draftProduct e d \<and> goodKey (eRowID e) \<and>
     (dBarcode d = [] \<or> bGet (bBarcodeIdx D) (dBarcode d) = None) \<and>
     (\<exists>idx. indexBarcode (dBarcode d) (eRowID e) (bBarcodeIdx D) = Inr idx \<and>
       (let D1 = D\<lparr>bProducts := bput (eRowID e) (Json p) (bProducts D), bBarcodeIdx := idx\<rparr>;
            D2 = logged (eNow e) (eAuditID e) actItemAdded (addedDetail p) D1 in
        if pending then
          \<exists>D3. (if dTrackStock d \<and> dStock d \<noteq> 0 then appendStockEvent (initialEvent e d) D2 = Inr D3
                 else D2 = D3) \<and>
               markProductPending (eRowID e) D3 = Inr D'
        else D' = D1))"
proof -
  have "pID (draftProduct e d) = eRowID e" by (simp add: draftProduct_def)
  then show ?thesis
    by (auto simp: addProductTx_def Let_def rbind_eq_Inr putJSON_eq_Inr if_rbind_Inr
        if_Inl_eq_Inr)
qed

lemma addProductTx_fields:
  assumes "addProductTx e d pending D = Inr (p, D')"
  shows "p = draftProduct e d" and "goodKey (eRowID e)"
    and "dBarcode d \<noteq> [] \<Longrightarrow> bGet (bBarcodeIdx D) (dBarcode d) = None"
    and "dBarcode d \<noteq> [] \<Longrightarrow> goodKey (dBarcode d)"
    and "bProducts D' = bput (eRowID e) (Json p) (bProducts D)"
    and "bBarcodeIdx D' = (if dBarcode d = [] then bBarcodeIdx D
           else bput (dBarcode d) (eRowID e) (bBarcodeIdx D))"
    and "bPendingProd D' = (if pending then bput (eRowID e) [] (bPendingProd D) else bPendingProd D)"
    and "bStockEvents D' = (if pending \<and> dTrackStock d \<and> dStock d \<noteq> 0
           then bput (eEventID e) (Json (initialEvent e d)) (bStockEvents D) else bStockEvents D)"
    and "bPendingStock D' = (if pending \<and> dTrackStock d \<and> dStock d \<noteq> 0
           then bput (eEventID e) [] (bPendingStock D) else bPendingStock D)"
    and "bSales D' = bSales D" and "bSettings D' = bSettings D" and "bBlobs D' = bBlobs D"
    and "bRefIdx D' = bRefIdx D" and "bSyncState D' = bSyncState D"
    and "bPendingSale D' = bPendingSale D"
proof -
  obtain idx where p: "p = draftProduct e d" "goodKey (eRowID e)"
      "dBarcode d = [] \<or> bGet (bBarcodeIdx D) (dBarcode d) = None"
    and idx: "indexBarcode (dBarcode d) (eRowID e) (bBarcodeIdx D) = Inr idx"
    and rest: "let D1 = D\<lparr>bProducts := bput (eRowID e) (Json p) (bProducts D), bBarcodeIdx := idx\<rparr>;
            D2 = logged (eNow e) (eAuditID e) actItemAdded (addedDetail p) D1 in
        if pending then
          \<exists>D3. (if dTrackStock d \<and> dStock d \<noteq> 0 then appendStockEvent (initialEvent e d) D2 = Inr D3
                 else D2 = D3) \<and>
               markProductPending (eRowID e) D3 = Inr D'
        else D' = D1"
    using assms unfolding addProductTx_eq_Inr by blast
  show "p = draftProduct e d" and "goodKey (eRowID e)"
    and "dBarcode d \<noteq> [] \<Longrightarrow> bGet (bBarcodeIdx D) (dBarcode d) = None"
    using p by simp_all
  show "dBarcode d \<noteq> [] \<Longrightarrow> goodKey (dBarcode d)"
    using idx by (simp add: indexBarcode_eq_Inr)
  have i: "idx = (if dBarcode d = [] then bBarcodeIdx D
           else bput (dBarcode d) (eRowID e) (bBarcodeIdx D))"
    using idx by (simp add: indexBarcode_eq_Inr split: if_splits)
  have ev: "evID (initialEvent e d) = eEventID e" by (simp add: initialEvent_def)
  let ?D1 = "D\<lparr>bProducts := bput (eRowID e) (Json p) (bProducts D), bBarcodeIdx := idx\<rparr>"
  let ?D2 = "logged (eNow e) (eAuditID e) actItemAdded (addedDetail p) ?D1"
  let ?put = "pending \<and> dTrackStock d \<and> dStock d \<noteq> 0"
  define D2 where "D2 = (if pending then ?D2 else ?D1)"
  have d2: "bProducts D2 = bput (eRowID e) (Json p) (bProducts D)" "bBarcodeIdx D2 = idx"
    "bPendingProd D2 = bPendingProd D" "bStockEvents D2 = bStockEvents D"
    "bPendingStock D2 = bPendingStock D" "bSales D2 = bSales D" "bSettings D2 = bSettings D"
    "bBlobs D2 = bBlobs D" "bRefIdx D2 = bRefIdx D" "bSyncState D2 = bSyncState D"
    "bPendingSale D2 = bPendingSale D"
    by (simp_all add: D2_def)
  define D3 where "D3 = (if ?put then D2\<lparr>bStockEvents := bput (eEventID e) (Json (initialEvent e d)) (bStockEvents D2),
       bPendingStock := bput (eEventID e) [] (bPendingStock D2)\<rparr> else D2)"
  have D': "D' = (if pending then D3\<lparr>bPendingProd := bput (eRowID e) [] (bPendingProd D3)\<rparr> else D3)"
    using rest unfolding Let_def D3_def D2_def
    by (cases pending; cases "dTrackStock d \<and> dStock d \<noteq> 0")
      (simp_all only: if_True if_False appendStockEvent_eq_Inr mark_pending_eq_Inr ev simp_thms
        ex_simps, auto)
  have d3: "bProducts D3 = bput (eRowID e) (Json p) (bProducts D)" "bBarcodeIdx D3 = idx"
    "bPendingProd D3 = bPendingProd D"
    "bStockEvents D3 = (if ?put then bput (eEventID e) (Json (initialEvent e d)) (bStockEvents D) else bStockEvents D)"
    "bPendingStock D3 = (if ?put then bput (eEventID e) [] (bPendingStock D) else bPendingStock D)"
    "bSales D3 = bSales D" "bSettings D3 = bSettings D"
    "bBlobs D3 = bBlobs D" "bRefIdx D3 = bRefIdx D" "bSyncState D3 = bSyncState D"
    "bPendingSale D3 = bPendingSale D"
    by (simp_all add: D3_def d2)
  show "bProducts D' = bput (eRowID e) (Json p) (bProducts D)"
    and "bBarcodeIdx D' = (if dBarcode d = [] then bBarcodeIdx D
           else bput (dBarcode d) (eRowID e) (bBarcodeIdx D))"
    and "bPendingProd D' = (if pending then bput (eRowID e) [] (bPendingProd D) else bPendingProd D)"
    and "bStockEvents D' = (if ?put
           then bput (eEventID e) (Json (initialEvent e d)) (bStockEvents D) else bStockEvents D)"
    and "bPendingStock D' = (if ?put
           then bput (eEventID e) [] (bPendingStock D) else bPendingStock D)"
    and "bSales D' = bSales D" and "bSettings D' = bSettings D" and "bBlobs D' = bBlobs D"
    and "bRefIdx D' = bRefIdx D" and "bSyncState D' = bSyncState D"
    and "bPendingSale D' = bPendingSale D"
    by (simp_all add: D' d3 i)
qed

lemma addProductTx_succeeds:
  assumes "goodKey (eRowID e)" and "goodKey (eEventID e)"
    and "dBarcode d = [] \<or> goodKey (dBarcode d) \<and> bGet (bBarcodeIdx D) (dBarcode d) = None"
  shows "\<exists>D'. addProductTx e d pending D = Inr (draftProduct e d, D')"
  using assms
  by (auto simp: addProductTx_def Let_def draftProduct_def appendStockEvent_def
      markStockEventPending_def markProductPending_def indexBarcode_def initialEvent_def)

lemma correctStock_eq_Inr [result_simps]:
  "correctStock e i d b D = Inr D' \<longleftrightarrow>
    (let delta = wrapI (dStock d - b) in
     if delta \<noteq> 0 then \<exists>D1. appendStockEvent (correctionEvent e i delta) D = Inr D1 \<and>
          D' = logged (eNow e) (eAuditID2 e) actStockChanged (setToDetail d) D1
     else D' = D)"
  by (auto simp: correctStock_def Let_def rbind_eq_Inr)

lemma updateProductTx_elim:
  assumes tx: "updateProductTx e i d D = Inr (p', D')"
  obtains p idx D3 where "bGet (bProducts D) i = Some (Json p)"
    and "readable (bStockEvents D)" and "readable (bSales D)"
    and "\<not> barcodeOfOther (dBarcode d) i (bBarcodeIdx D)" and "goodKey i"
    and "indexBarcode (dBarcode d) i (dropOldBarcode p d (bBarcodeIdx D)) = Inr idx"
    and "D3 = (let D1 = D\<lparr>bProducts := bput i (Json (editedProduct e d p)) (bProducts D), bBarcodeIdx := idx\<rparr>;
           D2 = (if edited p d then logged (eNow e) (eAuditID e) actItemUpdated (editDetail p d) D1 else D1)
         in D2\<lparr>bPendingProd := bput i [] (bPendingProd D2)\<rparr>)"
    and "if dTrackStock d then correctStock e i d (wrapI (onHand i D)) D3 = Inr D' else D' = D3"
    and "p' = (editedProduct e d p)\<lparr>pStock := (if dTrackStock d then dStock d else 0)\<rparr>"
proof -
  obtain raw where raw: "bGet (bProducts D) i = Some raw"
    using tx by (cases "bGet (bProducts D) i") (simp_all add: updateProductTx_def)
  obtain p where "unmarshal raw = Inr p"
    using tx raw by (cases "unmarshal raw") (simp_all add: updateProductTx_def)
  then have p: "bGet (bProducts D) i = Some (Json p)"
    using raw by (simp add: unmarshal_eq_Inr)
  obtain b where b: "onHandOf i D = Inr b"
    using tx p by (cases "onHandOf i D") (simp_all add: updateProductTx_def)
  have other: "\<not> barcodeOfOther (dBarcode d) i (bBarcodeIdx D)"
    using tx p b by (cases "barcodeOfOther (dBarcode d) i (bBarcodeIdx D)") (simp_all add: updateProductTx_def)
  let ?pb = "putJSON i (editedProduct e d p) (bProducts D)"
  have key: "goodKey i"
    using tx p b other by (cases ?pb) (simp_all add: updateProductTx_def Let_def putJSON_eq_Inr)
  obtain idx where idx: "indexBarcode (dBarcode d) i (dropOldBarcode p d (bBarcodeIdx D)) = Inr idx"
    using tx p b other key
    by (cases "indexBarcode (dBarcode d) i (dropOldBarcode p d (bBarcodeIdx D))")
      (simp_all add: updateProductTx_def Let_def)
  define D1 where "D1 = D\<lparr>bProducts := bput i (Json (editedProduct e d p)) (bProducts D), bBarcodeIdx := idx\<rparr>"
  define D2 where "D2 = (if edited p d then logged (eNow e) (eAuditID e) actItemUpdated (editDetail p d) D1 else D1)"
  define D3 where "D3 = D2\<lparr>bPendingProd := bput i [] (bPendingProd D2)\<rparr>"
  have audit: "(if edited p d then appendAudit (eNow e) (eAuditID e) actItemUpdated (editDetail p d) D1
      else Inr D1) = Inr D2"
    by (simp add: D2_def)
  have mark: "markProductPending i D2 = Inr D3"
    using key by (simp add: mark_pending_eq_Inr D3_def)
  have last: "(if dTrackStock d then
          rbind (correctStock e i d b D3) (\<lambda>D4. Inr ((editedProduct e d p)\<lparr>pStock := dStock d\<rparr>, D4))
          else Inr ((editedProduct e d p)\<lparr>pStock := 0\<rparr>, D3)) = Inr (p', D')"
    using tx other key
    by (simp only: updateProductTx_def p option.case unmarshal_simps rbind_simps b if_False
        Let_def putJSON_good idx D1_def [symmetric] audit mark)
  have fin: "if dTrackStock d then correctStock e i d (wrapI (onHand i D)) D3 = Inr D' else D' = D3"
    and p': "p' = (editedProduct e d p)\<lparr>pStock := (if dTrackStock d then dStock d else 0)\<rparr>"
    using last b by (auto simp: rbind_eq_Inr onHandOf_eq_Inr split: if_splits)
  show ?thesis
    using b by (intro that [OF p _ _ other key idx _ fin p'])
      (auto simp: onHandOf_eq_Inr D3_def D2_def D1_def Let_def)
qed

lemma updateProductTx_fields:
  assumes "updateProductTx e i d D = Inr (p', D')"
  obtains p where "bGet (bProducts D) i = Some (Json p)" and "goodKey i"
    and "readable (bStockEvents D)" and "readable (bSales D)"
    and "\<not> barcodeOfOther (dBarcode d) i (bBarcodeIdx D)"
    and "bProducts D' = bput i (Json (editedProduct e d p)) (bProducts D)"
    and "bBarcodeIdx D' = (let idx = dropOldBarcode p d (bBarcodeIdx D) in
           if dBarcode d = [] then idx else bput (dBarcode d) i idx)"
    and "dBarcode d \<noteq> [] \<Longrightarrow> goodKey (dBarcode d)"
    and "bPendingProd D' = bput i [] (bPendingProd D)"
    and "bStockEvents D' = (let delta = wrapI (dStock d - wrapI (onHand i D)) in
           if dTrackStock d \<and> delta \<noteq> 0
           then bput (eEventID e) (Json (correctionEvent e i delta)) (bStockEvents D) else bStockEvents D)"
    and "bPendingStock D' = (if dTrackStock d \<and> wrapI (dStock d - wrapI (onHand i D)) \<noteq> 0
           then bput (eEventID e) [] (bPendingStock D) else bPendingStock D)"
    and "bSales D' = bSales D" "bSettings D' = bSettings D" "bBlobs D' = bBlobs D"
      "bRefIdx D' = bRefIdx D" "bSyncState D' = bSyncState D" "bPendingSale D' = bPendingSale D"
    and "p' = (editedProduct e d p)\<lparr>pStock := (if dTrackStock d then dStock d else 0)\<rparr>"
proof -
  obtain p idx D3 where u: "bGet (bProducts D) i = Some (Json p)"
    "readable (bStockEvents D)" "readable (bSales D)"
    "\<not> barcodeOfOther (dBarcode d) i (bBarcodeIdx D)" "goodKey i"
    "indexBarcode (dBarcode d) i (dropOldBarcode p d (bBarcodeIdx D)) = Inr idx"
    and D3: "D3 = (let D1 = D\<lparr>bProducts := bput i (Json (editedProduct e d p)) (bProducts D), bBarcodeIdx := idx\<rparr>;
           D2 = (if edited p d then logged (eNow e) (eAuditID e) actItemUpdated (editDetail p d) D1 else D1)
         in D2\<lparr>bPendingProd := bput i [] (bPendingProd D2)\<rparr>)"
    and fin: "if dTrackStock d then correctStock e i d (wrapI (onHand i D)) D3 = Inr D' else D' = D3"
    and p': "p' = (editedProduct e d p)\<lparr>pStock := (if dTrackStock d then dStock d else 0)\<rparr>"
    using assms by (rule updateProductTx_elim)
  have idx: "idx = (let idx = dropOldBarcode p d (bBarcodeIdx D) in
           if dBarcode d = [] then idx else bput (dBarcode d) i idx)"
    and code: "dBarcode d \<noteq> [] \<Longrightarrow> goodKey (dBarcode d)"
    using u(6) by (simp_all add: indexBarcode_eq_Inr Let_def split: if_splits)
  have d3: "bProducts D3 = bput i (Json (editedProduct e d p)) (bProducts D)" "bBarcodeIdx D3 = idx"
    "bPendingProd D3 = bput i [] (bPendingProd D)" "bStockEvents D3 = bStockEvents D"
    "bPendingStock D3 = bPendingStock D" "bSales D3 = bSales D" "bSettings D3 = bSettings D"
    "bBlobs D3 = bBlobs D" "bRefIdx D3 = bRefIdx D" "bSyncState D3 = bSyncState D"
    "bPendingSale D3 = bPendingSale D"
    by (simp_all add: D3 Let_def)
  have ev: "evID (correctionEvent e i delta) = eEventID e" for delta
    by (simp add: correctionEvent_def)
  show ?thesis
  proof (cases "dTrackStock d \<and> wrapI (dStock d - wrapI (onHand i D)) \<noteq> 0")
    case True
    then obtain D4 where "appendStockEvent (correctionEvent e i (wrapI (dStock d - wrapI (onHand i D)))) D3 = Inr D4"
      "D' = logged (eNow e) (eAuditID2 e) actStockChanged (setToDetail d) D4"
      using fin by (auto simp: correctStock_eq_Inr Let_def)
    then show ?thesis
      using True d3 idx p' code
      by (intro that [OF u(1,5,2,3,4)]) (simp_all add: Let_def appendStockEvent_eq_Inr ev)
  next
    case False
    then have "D' = D3" using fin by (auto simp: correctStock_eq_Inr Let_def split: if_splits)
    then show ?thesis
      using False d3 idx p' code by (intro that [OF u(1,5,2,3,4)]) (auto simp: Let_def)
  qed
qed

lemma deleteProductTx_eq_Inr:
  "deleteProductTx e i D = Inr D' \<longleftrightarrow>
    (\<exists>p. bGet (bProducts D) i = Some (Json p) \<and> goodKey i \<and>
       D' = (logged (eNow e) (eAuditID e) actItemRemoved (pName p)
         (D\<lparr>bProducts := bput i (Json (p\<lparr>pActive := False, pDeletedAt := Some (eNow e),
               pUpdatedAt := eNow e\<rparr>)) (bProducts D),
            bBarcodeIdx := (if pBarcode p \<noteq> [] then bDelete (pBarcode p) (bBarcodeIdx D)
                            else bBarcodeIdx D)\<rparr>))
         \<lparr>bPendingProd := bput i [] (bPendingProd D)\<rparr>)"
  by (cases "bGet (bProducts D) i")
    (auto simp: deleteProductTx_def Let_def rbind_eq_Inr putJSON_eq_Inr unmarshal_eq_Inr
      mark_pending_eq_Inr)

end
