(* ===== verification/Catalogue_Correct.thy ===== *)
theory Catalogue_Correct
  imports Catalogue
begin

text \<open>
  The catalogue's invariant and what its operations promise. \<open>catalogue_inv\<close>: products lie
  under their own id, decode and are marked pending only when they exist; every entry of
  the barcode index names a stored product carrying that barcode. \<open>index_complete\<close> is the
  converse for active products and gives the contract of \<^verbatim>\<open>AddProduct\<close>, that a scan maps
  to exactly one product.
\<close>

section \<open>Invariant\<close>

definition index_sound :: "db \<Rightarrow> bool" where
  "index_sound D \<longleftrightarrow> (\<forall>k i. bGet (bBarcodeIdx D) k = Some i \<longrightarrow> k \<noteq> [] \<and>
     (\<exists>p. bGet (bProducts D) i = Some (Json p) \<and> pBarcode p = k))"

definition catalogue_inv :: "db \<Rightarrow> bool" where
  "catalogue_inv D \<longleftrightarrow> table_inv pID (bProducts D) (bPendingProd D) \<and> bsorted (bBarcodeIdx D) \<and>
     index_sound D"

definition index_complete :: "db \<Rightarrow> bool" where
  "index_complete D \<longleftrightarrow> (\<forall>i p. bGet (bProducts D) i = Some (Json p) \<and> pActive p \<and> pBarcode p \<noteq> [] \<longrightarrow>
     bGet (bBarcodeIdx D) (pBarcode p) = Some i)"

lemma index_soundD:
  assumes "index_sound D" and "bGet (bBarcodeIdx D) k = Some i"
  obtains p where "k \<noteq> []" and "bGet (bProducts D) i = Some (Json p)" and "pBarcode p = k"
  using assms unfolding index_sound_def by blast

lemma catalogue_inv_cong:
  "bProducts D' = bProducts D \<Longrightarrow> bPendingProd D' = bPendingProd D \<Longrightarrow>
   bBarcodeIdx D' = bBarcodeIdx D \<Longrightarrow> catalogue_inv D' = catalogue_inv D"
  by (simp add: catalogue_inv_def index_sound_def)

lemma pID_fields [simp]:
  "pID (draftProduct e d) = eRowID e" "pBarcode (draftProduct e d) = dBarcode d"
  "pActive (draftProduct e d)"
  "pID (editedProduct e d p) = pID p" "pBarcode (editedProduct e d p) = dBarcode d"
  "pActive (editedProduct e d p) = pActive p"
  by (simp_all add: draftProduct_def editedProduct_def)

lemma addProductTx_inv:
  assumes tx: "addProductTx e d pending D = Inr (p, D')" and inv: "catalogue_inv D"
    and fresh: "bGet (bProducts D) (eRowID e) = None"
  shows "catalogue_inv D'"
proof -
  note f = addProductTx_fields [OF tx]
  have tab: "table_inv pID (bProducts D) (bPendingProd D)" and sound: "index_sound D"
    using inv by (simp_all add: catalogue_inv_def)
  have pid: "pID p = eRowID e" by (simp add: f(1))
  have "table_inv pID (bput (eRowID e) (Json p) (bProducts D)) (bPendingProd D')"
    using table_inv_put [OF tab, of p] by (simp add: f(7) pid)
  moreover have "index_sound D'"
    unfolding index_sound_def
  proof (intro allI impI)
    fix k i assume k: "bGet (bBarcodeIdx D') k = Some i"
    show "k \<noteq> [] \<and> (\<exists>p. bGet (bProducts D') i = Some (Json p) \<and> pBarcode p = k)"
    proof (cases "dBarcode d \<noteq> [] \<and> k = dBarcode d")
      case True
      with k show ?thesis by (simp add: f(5,6)) (simp add: f(1))
    next
      case False
      with k have "bGet (bBarcodeIdx D) k = Some i" by (auto simp: f(6) split: if_splits)
      with sound obtain q where "k \<noteq> []" "bGet (bProducts D) i = Some (Json q)" "pBarcode q = k"
        by (rule index_soundD)
      with fresh show ?thesis by (auto simp: f(5))
    qed
  qed
  ultimately show ?thesis
    using inv by (simp add: catalogue_inv_def f(5,6))
qed

lemma updateProductTx_inv:
  assumes tx: "updateProductTx e i d D = Inr (p', D')" and inv: "catalogue_inv D"
  shows "catalogue_inv D'"
proof -
  obtain p where p: "bGet (bProducts D) i = Some (Json p)"
    and P: "bProducts D' = bput i (Json (editedProduct e d p)) (bProducts D)"
    and I: "bBarcodeIdx D' = (let idx = dropOldBarcode p d (bBarcodeIdx D) in
           if dBarcode d = [] then idx else bput (dBarcode d) i idx)"
    and M: "bPendingProd D' = bput i [] (bPendingProd D)"
    using tx by (rule updateProductTx_fields)
  have tab: "table_inv pID (bProducts D) (bPendingProd D)" and sound: "index_sound D"
    using inv by (simp_all add: catalogue_inv_def)
  have pid: "pID (editedProduct e d p) = i"
    using table_inv_key [OF tab p] by simp
  have "table_inv pID (bProducts D') (bPendingProd D')"
    unfolding P M using table_inv_put(2) [OF tab, of "editedProduct e d p" "[]"] by (simp only: pid)
  moreover have "bsorted (bBarcodeIdx D')"
    using inv by (simp add: I Let_def dropOldBarcode_def catalogue_inv_def)
  moreover have "index_sound D'"
    unfolding index_sound_def
  proof (intro allI impI)
    fix k j assume k: "bGet (bBarcodeIdx D') k = Some j"
    show "k \<noteq> [] \<and> (\<exists>p. bGet (bProducts D') j = Some (Json p) \<and> pBarcode p = k)"
    proof (cases "dBarcode d \<noteq> [] \<and> k = dBarcode d")
      case True
      with k show ?thesis by (simp add: I P Let_def)
    next
      case False
      with k have k': "bGet (dropOldBarcode p d (bBarcodeIdx D)) k = Some j"
        by (auto simp: I Let_def split: if_splits)
      then have "bGet (bBarcodeIdx D) k = Some j" and old: "pBarcode p \<noteq> k \<or> pBarcode p = dBarcode d \<or> k = []"
        by (auto simp: dropOldBarcode_def split: if_splits)
      from sound this(1) obtain q where q: "k \<noteq> []" "bGet (bProducts D) j = Some (Json q)" "pBarcode q = k"
        by (rule index_soundD)
      then have "j \<noteq> i" using old False p by auto
      with q show ?thesis by (simp add: P)
    qed
  qed
  ultimately show ?thesis by (simp add: catalogue_inv_def)
qed

lemma deleteProductTx_inv:
  assumes tx: "deleteProductTx e i D = Inr D'" and inv: "catalogue_inv D"
  shows "catalogue_inv D'"
proof -
  obtain p where p: "bGet (bProducts D) i = Some (Json p)"
    and P: "bProducts D' = bput i (Json (p\<lparr>pActive := False, pDeletedAt := Some (eNow e), pUpdatedAt := eNow e\<rparr>)) (bProducts D)"
    and I: "bBarcodeIdx D' = (if pBarcode p \<noteq> [] then bDelete (pBarcode p) (bBarcodeIdx D) else bBarcodeIdx D)"
    and M: "bPendingProd D' = bput i [] (bPendingProd D)"
    using tx unfolding deleteProductTx_eq_Inr by auto
  let ?p = "p\<lparr>pActive := False, pDeletedAt := Some (eNow e), pUpdatedAt := eNow e\<rparr>"
  have tab: "table_inv pID (bProducts D) (bPendingProd D)" and sound: "index_sound D"
    using inv by (simp_all add: catalogue_inv_def)
  have pid: "pID ?p = i"
    using table_inv_key [OF tab p] by simp
  have "table_inv pID (bProducts D') (bPendingProd D')"
    unfolding P M using table_inv_put(2) [OF tab, of ?p "[]"] by (simp only: pid)
  moreover have "bsorted (bBarcodeIdx D')"
    using inv by (simp add: I catalogue_inv_def)
  moreover have "index_sound D'"
    unfolding index_sound_def
  proof (intro allI impI)
    fix k j assume k: "bGet (bBarcodeIdx D') k = Some j"
    then have "bGet (bBarcodeIdx D) k = Some j"
      by (auto simp: I split: if_splits)
    with sound obtain q where "k \<noteq> []" "bGet (bProducts D) j = Some (Json q)" "pBarcode q = k"
      by (rule index_soundD)
    with p show "k \<noteq> [] \<and> (\<exists>p. bGet (bProducts D') j = Some (Json p) \<and> pBarcode p = k)"
      by (cases "j = i") (auto simp: P)
  qed
  ultimately show ?thesis by (simp add: catalogue_inv_def)
qed

section \<open>The index finds every active barcode\<close>

lemma addProductTx_complete:
  assumes tx: "addProductTx e d pending D = Inr (p, D')" and comp: "index_complete D"
    and fresh: "bGet (bProducts D) (eRowID e) = None"
  shows "index_complete D'"
  unfolding index_complete_def
proof (intro allI impI, elim conjE)
  note f = addProductTx_fields [OF tx]
  fix i q assume q: "bGet (bProducts D') i = Some (Json q)" "pActive q" "pBarcode q \<noteq> []"
  show "bGet (bBarcodeIdx D') (pBarcode q) = Some i"
  proof (cases "i = eRowID e")
    case True
    with q have "q = draftProduct e d" by (simp add: f(5) f(1))
    with q True show ?thesis by (simp add: f(6))
  next
    case False
    with q comp have "bGet (bBarcodeIdx D) (pBarcode q) = Some i"
      by (simp add: f(5) index_complete_def)
    with f(3) show ?thesis by (auto simp: f(6))
  qed
qed

lemma updateProductTx_complete:
  assumes tx: "updateProductTx e i d D = Inr (p', D')" and comp: "index_complete D"
    and act: "bGet (bProducts D) i = Some (Json p)" "pActive p"
  shows "index_complete D'"
  unfolding index_complete_def
proof (intro allI impI, elim conjE)
  obtain p0 where p0: "bGet (bProducts D) i = Some (Json p0)"
    and oth: "\<not> barcodeOfOther (dBarcode d) i (bBarcodeIdx D)"
    and P: "bProducts D' = bput i (Json (editedProduct e d p0)) (bProducts D)"
    and I: "bBarcodeIdx D' = (let idx = dropOldBarcode p0 d (bBarcodeIdx D) in
           if dBarcode d = [] then idx else bput (dBarcode d) i idx)"
    using tx by (rule updateProductTx_fields)
  have [simp]: "p0 = p" using p0 act by simp
  fix j q assume q: "bGet (bProducts D') j = Some (Json q)" "pActive q" "pBarcode q \<noteq> []"
  show "bGet (bBarcodeIdx D') (pBarcode q) = Some j"
  proof (cases "j = i")
    case True
    with q have "q = editedProduct e d p" by (simp add: P)
    with q True show ?thesis by (simp add: I)
  next
    case False
    with q comp have j: "bGet (bBarcodeIdx D) (pBarcode q) = Some j"
      by (simp add: P index_complete_def)
    have "pBarcode q \<noteq> pBarcode p"
    proof
      assume eq: "pBarcode q = pBarcode p"
      then have "bGet (bBarcodeIdx D) (pBarcode q) = Some i"
        using comp act q(3) unfolding index_complete_def by metis
      with j False show False by simp
    qed
    moreover have "pBarcode q \<noteq> dBarcode d"
      using oth j False q(3) by (auto simp: barcodeOfOther_def)
    ultimately show ?thesis
      using j by (simp add: I Let_def dropOldBarcode_def)
  qed
qed

lemma deleteProductTx_complete:
  assumes tx: "deleteProductTx e i D = Inr D'" and comp: "index_complete D"
    and act: "bGet (bProducts D) i = Some (Json p)" "pActive p"
  shows "index_complete D'"
  unfolding index_complete_def
proof (intro allI impI, elim conjE)
  have P: "bProducts D' = bput i (Json (p\<lparr>pActive := False, pDeletedAt := Some (eNow e), pUpdatedAt := eNow e\<rparr>)) (bProducts D)"
    and I: "bBarcodeIdx D' = (if pBarcode p \<noteq> [] then bDelete (pBarcode p) (bBarcodeIdx D) else bBarcodeIdx D)"
    using tx act unfolding deleteProductTx_eq_Inr by auto
  fix j q assume q: "bGet (bProducts D') j = Some (Json q)" "pActive q" "pBarcode q \<noteq> []"
  then have "j \<noteq> i" by (auto simp: P)
  with q comp have j: "bGet (bBarcodeIdx D) (pBarcode q) = Some j"
    by (simp add: P index_complete_def)
  have "pBarcode q \<noteq> pBarcode p"
  proof
    assume eq: "pBarcode q = pBarcode p"
    then have "bGet (bBarcodeIdx D) (pBarcode q) = Some i"
      using comp act q(3) unfolding index_complete_def by metis
    with j \<open>j \<noteq> i\<close> show False by simp
  qed
  with j show "bGet (bBarcodeIdx D') (pBarcode q) = Some j" by (simp add: I)
qed

lemma index_complete_unique:
  assumes "index_complete D" and "bGet (bProducts D) i = Some (Json p)" and "pActive p"
    and "bGet (bProducts D) j = Some (Json q)" and "pActive q"
    and "pBarcode p = pBarcode q" and "pBarcode p \<noteq> []"
  shows "i = j"
proof -
  have "bGet (bBarcodeIdx D) (pBarcode p) = Some i" "bGet (bBarcodeIdx D) (pBarcode p) = Some j"
    using assms unfolding index_complete_def by metis+
  then show ?thesis by simp
qed

section \<open>A concrete shop\<close>

definition demoTomb :: Product where
  "demoTomb = \<lparr>pID = ''t'', pName = ''Old bread'', pPriceCents = 6000, pBarcode = ''111'',
     pTrackStock = False, pStock = 0, pTaxable = True, pActive = False, pUpdatedAt = demoTime 1,
     pDeletedAt = Some (demoTime 1)\<rparr>"

text \<open>The example shop with a deleted product whose barcode was reused.\<close>

definition demoShop2 :: db where
  "demoShop2 = demoShop\<lparr>bProducts := [(''p'', Json demoProduct), (''t'', Json demoTomb)]\<rparr>"

lemma demo_fields [simp]:
  "pID demoProduct = ''p''" "pBarcode demoProduct = ''111''" "pActive demoProduct"
  "pTrackStock demoProduct" "pName demoProduct = ''Bread''" "pPriceCents demoProduct = 6500"
  "pTaxable demoProduct"
  "pID demoTomb = ''t''" "pBarcode demoTomb = ''111''" "\<not> pActive demoTomb"
  by (simp_all add: demoProduct_def demoTomb_def)

lemma demoShop2_simps [simp]:
  "bProducts demoShop2 = [(''p'', Json demoProduct), (''t'', Json demoTomb)]"
  "bBarcodeIdx demoShop2 = [(''111'', ''p'')]" "bPendingProd demoShop2 = []"
  "bStockEvents demoShop2 = []" "bSales demoShop2 = []"
  by (simp_all add: demoShop2_def)

lemma demoShop_inv [simp]:
  "catalogue_inv demoShop" "index_complete demoShop" "catalogue_inv demoShop2" "index_complete demoShop2"
  by (auto simp: catalogue_inv_def table_inv_def index_sound_def index_complete_def keyed_def
      bsorted_def readable_def split: if_splits)

lemma demoShop2_active:
  "bGet (bProducts demoShop2) i = Some (Json p) \<and> pActive p \<longleftrightarrow> i = ''p'' \<and> p = demoProduct"
  by (cases "i = ''p''"; cases "i = ''t''") auto

lemma goodKey_demo [simp]: "n \<le> 1000 \<Longrightarrow> goodKey (demoID ''row'' n)"
  "n \<le> 1000 \<Longrightarrow> goodKey (demoID ''event'' n)"
  by (simp_all add: goodKey_demoID maxKeySize_def)

section \<open>Adding\<close>

lemma addProductTx_onHand:
  assumes tx: "addProductTx e d True D = Inr (p, D')"
    and "bGet (bStockEvents D) (eEventID e) = None"
  shows "onHand i D' = onHand i D + (if i = eRowID e \<and> dTrackStock d then dStock d else 0)"
proof (cases "dTrackStock d \<and> dStock d \<noteq> 0")
  case True
  have "onHand i D' = onHand i D + (if evProductID (initialEvent e d) = i then evDelta (initialEvent e d) else 0)"
    using True assms(2) addProductTx_fields(8,10) [OF tx]
    by (intro onHand_new_event) (simp_all add: bGet_None_iff initialEvent_def)
  with True show ?thesis by (auto simp: initialEvent_def)
next
  case False
  then have "bStockEvents D' = bStockEvents D"
    using addProductTx_fields(8) [OF tx] by (simp only: simp_thms if_False)
  then have "onHand i D' = onHand i D"
    using addProductTx_fields(10) [OF tx] by (intro onHand_cong)
  with False show ?thesis by auto
qed

text \<open>
  Adding a product with a free barcode and fresh ids succeeds: the product is stored
  as drafted, queued for the next push, found by its barcode, its opening stock is its
  on-hand and no other product's count moves; the catalogue's invariant is kept.
\<close>

theorem AddProduct_adds:
  assumes "catalogue_inv D" and "eIO e = None" and "goodKey (eRowID e)" and "goodKey (eEventID e)"
    and "bGet (bProducts D) (eRowID e) = None" and "bGet (bStockEvents D) (eEventID e) = None"
    and "dBarcode d = [] \<or> goodKey (dBarcode d) \<and> bGet (bBarcodeIdx D) (dBarcode d) = None"
  shows "\<exists>D'. AddProduct e d D = (Inr (draftProduct e d), D') \<and> catalogue_inv D' \<and>
     bGet (bProducts D') = (bGet (bProducts D))(eRowID e \<mapsto> Json (draftProduct e d)) \<and>
     bGet (bPendingProd D') (eRowID e) = Some [] \<and>
     (dBarcode d = [] \<or> bGet (bBarcodeIdx D') (dBarcode d) = Some (eRowID e)) \<and>
     (\<forall>i. onHand i D' = onHand i D + (if i = eRowID e \<and> dTrackStock d then dStock d else 0))"
proof -
  obtain D' where tx: "addProductTx e d True D = Inr (draftProduct e d, D')"
    using addProductTx_succeeds [OF assms(3,4,7)] by blast
  have "AddProduct e d D = (Inr (draftProduct e d), D')"
    using tx assms(2) by (simp add: AddProduct_def addProduct_def dbUpdate_ok)
  moreover have "bGet (bProducts D') = (bGet (bProducts D))(eRowID e \<mapsto> Json (draftProduct e d))"
    by (simp add: addProductTx_fields(5) [OF tx])
  moreover have "bGet (bPendingProd D') (eRowID e) = Some []"
    by (simp add: addProductTx_fields(7) [OF tx])
  moreover have "dBarcode d = [] \<or> bGet (bBarcodeIdx D') (dBarcode d) = Some (eRowID e)"
    by (simp add: addProductTx_fields(6) [OF tx])
  ultimately show ?thesis
    using addProductTx_inv [OF tx assms(1,5)] addProductTx_onHand [OF tx assms(6)] by blast
qed

definition demoDraft :: ProductDraft where
  "demoDraft = \<lparr>dName = ''Milk'', dPriceCents = 7000, dBarcode = ''222'', dTrackStock = True,
     dStock = 12, dTaxable = True\<rparr>"

lemma demoDraft_simps [simp]:
  "dName demoDraft = ''Milk''" "dPriceCents demoDraft = 7000" "dBarcode demoDraft = ''222''"
  "dTrackStock demoDraft" "dStock demoDraft = 12" "dTaxable demoDraft"
  by (simp_all add: demoDraft_def)

lemma goodKey_demoBarcode [simp]: "goodKey ''222''" "goodKey ''111''" "goodKey ''p''"
  by (simp_all add: goodKey_def maxKeySize_def)

lemma demoID_ne [simp]:
  "demoID ''row'' n \<noteq> ''p''" "''p'' \<noteq> demoID ''row'' n" "demoID ''row'' n \<noteq> ''t''"
  by (simp_all add: demoID_def)

theorem AddProduct_adds_witness:
  "\<exists>D'. AddProduct (demoEnv 2) demoDraft demoShop = (Inr (draftProduct (demoEnv 2) demoDraft), D') \<and>
     catalogue_inv D' \<and> onHand (demoID ''row'' 2) D' = 12 + onHand (demoID ''row'' 2) demoShop"
  using AddProduct_adds [of demoShop "demoEnv 2" demoDraft] by fastforce

lemma addProductTx_not_taken:
  assumes "\<not> (dBarcode d \<noteq> [] \<and> bGet (bBarcodeIdx D) (dBarcode d) \<noteq> None)"
  shows "addProductTx e d pending D \<noteq> Inl ErrBarcodeTaken"
proof
  assume "addProductTx e d pending D = Inl ErrBarcodeTaken"
  with assms show False
    by (auto simp: addProductTx_def Let_def rbind_eq_Inl putJSON_def bPut_def indexBarcode_def
        appendStockEvent_def markStockEventPending_def markProductPending_def split: if_splits)
qed

text \<open>
  Adding reports the barcode error exactly when the draft has a barcode and the index
  holds it, whatever else is wrong.
\<close>

theorem AddProduct_barcode_taken:
  "fst (AddProduct e d D) = Inl ErrBarcodeTaken \<longleftrightarrow>
     dBarcode d \<noteq> [] \<and> bGet (bBarcodeIdx D) (dBarcode d) \<noteq> None"
proof (cases "dBarcode d \<noteq> [] \<and> bGet (bBarcodeIdx D) (dBarcode d) \<noteq> None")
  case True
  then show ?thesis
    by (simp add: AddProduct_def addProduct_def dbUpdate_def addProductTx_def Let_def)
next
  case False
  then have "addProductTx e d True D \<noteq> Inl ErrBarcodeTaken"
    by (intro addProductTx_not_taken)
  with False show ?thesis
    by (auto simp: AddProduct_def addProduct_def dbUpdate_def split: sum.splits option.splits)
qed



section \<open>Editing\<close>

lemma updateProductTx_succeeds:
  assumes "bGet (bProducts D) i = Some (Json p)" and "goodKey i" and "goodKey (eEventID e)"
    and "readable (bStockEvents D)" and "readable (bSales D)"
    and "dBarcode d = [] \<or> goodKey (dBarcode d)"
    and "\<not> barcodeOfOther (dBarcode d) i (bBarcodeIdx D)"
  shows "\<exists>D'. updateProductTx e i d D =
     Inr ((editedProduct e d p)\<lparr>pStock := (if dTrackStock d then dStock d else 0)\<rparr>, D')"
proof -
  have oh: "onHandOf i D = Inr (wrapI (onHand i D))"
    using assms(4,5) by (simp add: onHandOf_eq_Inr)
  obtain idx where idx: "indexBarcode (dBarcode d) i (dropOldBarcode p d (bBarcodeIdx D)) = Inr idx"
    using assms(6) by (metis indexBarcode_eq_Inr)
  have cs: "\<exists>D'. correctStock e i d b D = Inr D'" for b D
    using assms(3) by (cases "wrapI (dStock d - b) = 0")
      (simp_all add: correctStock_eq_Inr Let_def appendStockEvent_eq_Inr correctionEvent_def)
  have au: "(if c then appendAudit t u a s D else Inr D) = Inr (if c then logged t u a s D else D)" for c t u a s D
    by simp
  obtain C where C: "\<And>b D. correctStock e i d b D = Inr (C b D)"
    using cs by metis
  have mk: "markProductPending i D = Inr (D\<lparr>bPendingProd := bput i [] (bPendingProd D)\<rparr>)" for D
    using assms(2) by (simp add: mark_pending_eq_Inr)
  show ?thesis
    using assms(1,2,7)
    by (cases "dTrackStock d")
      (simp_all only: updateProductTx_def option.case unmarshal_simps rbind_simps oh if_False if_True
        Let_def putJSON_good idx au mk C, simp_all)
qed

text \<open>The correction event makes up the difference between the count entered and the on-hand.\<close>

lemma correction_sets_onHand:
  assumes "bStockEvents D' = (if c \<and> dStock d - onHand i D \<noteq> 0
      then bput (eEventID e) (Json (correctionEvent e i (dStock d - onHand i D))) (bStockEvents D) else bStockEvents D)"
    and "bSales D' = bSales D" and new: "eEventID e \<notin> fst ` set (bStockEvents D)"
  shows "onHand j D' = (if j = i \<and> c then dStock d else onHand j D)"
proof (cases "c \<and> dStock d - onHand i D \<noteq> 0")
  case True
  let ?ev = "correctionEvent e i (dStock d - onHand i D)"
  have ev: "evID ?ev = eEventID e" by (simp add: correctionEvent_def)
  have "bStockEvents D' = bput (evID ?ev) (Json ?ev) (bStockEvents D)"
    using True by (simp only: assms(1) ev if_True simp_thms)
  then have "onHand j D' = onHand j D + (if evProductID ?ev = j then evDelta ?ev else 0)"
    using new assms(2) by (intro onHand_new_event) (simp_all only: ev simp_thms)
  with True show ?thesis by (auto simp: correctionEvent_def)
next
  case False
  then have "bStockEvents D' = bStockEvents D" using assms(1) by (simp only: if_False)
  then have "onHand j D' = onHand j D" using assms(2) by (rule onHand_cong)
  with False show ?thesis by auto
qed



section \<open>Listing and scanning\<close>

text \<open>The product as the screens show it: its on-hand, clamped at zero, for tracked items.\<close>

definition shown :: "db \<Rightarrow> Product \<Rightarrow> Product" where
  "shown D p = p\<lparr>pStock := (if pTrackStock p then max0 (wrapI (onHand (pID p) D)) else 0)\<rparr>"

lemma Products_eq:
  assumes "readable (bProducts D)" and "readable (bStockEvents D)" and "readable (bSales D)"
  shows "Products D = Inr (sort_key pName (map (shown D) (filter pActive (cellVals (bProducts D)))))"
proof -
  obtain delta sold where t: "stockTotals D = Inr (delta, sold)"
    and d: "delta = (\<lambda>pid. wrapI (sumDelta pid (cellVals (bStockEvents D))))"
    and s: "sold = (\<lambda>pid. wrapI (sumSold pid (cellVals (bSales D))))"
    using assms(2,3) stockTotals_eq_Inr by blast
  have "p\<lparr>pStock := derivedStock p delta sold\<rparr> = shown D p" for p
    by (simp add: shown_def derivedStock_def d s onHand_def goint)
  then show ?thesis
    using assms(1) by (simp add: Products_def t)
qed

text \<open>
  The product list: in name order, exactly the active products, each once, with the
  on-hand derived from events and sales (never below zero, zero when not tracked).
\<close>

theorem Products_lists_active:
  assumes "catalogue_inv D" and "readable (bStockEvents D)" and "readable (bSales D)"
  shows "\<exists>ps. Products D = Inr ps \<and> sorted (map pName ps) \<and> distinct (map pID ps) \<and>
     set ps = {shown D p | i p. bGet (bProducts D) i = Some (Json p) \<and> pActive p}"
proof -
  have tab: "table_inv pID (bProducts D) (bPendingProd D)"
    using assms(1) by (simp add: catalogue_inv_def)
  then have b: "readable (bProducts D)" "bsorted (bProducts D)" "keyed pID (bProducts D)"
    by (simp_all add: table_inv_def)
  let ?as = "filter pActive (cellVals (bProducts D))"
  let ?ps = "sort_key pName (map (shown D) ?as)"
  have vals: "p \<in> set (cellVals (bProducts D)) \<longleftrightarrow> (\<exists>i. bGet (bProducts D) i = Some (Json p))" for p
    by (simp add: set_cellVals bGet_iff [OF b(2)])
  have "distinct (map pID ?as)"
    by (intro distinct_map_filter distinct_keys_cellVals b)
  moreover have ids: "map pID (map (shown D) ?as) = map pID ?as"
    by (simp add: shown_def comp_def)
  moreover have "mset (map pID ?ps) = mset (map pID (map (shown D) ?as))"
    by (simp only: mset_map mset_sort)
  ultimately have "distinct (map pID ?ps)"
    by (metis mset_eq_imp_distinct_iff)
  moreover have "set ?ps = {shown D p | i p. bGet (bProducts D) i = Some (Json p) \<and> pActive p}"
    by (auto simp: vals)
  ultimately show ?thesis
    using Products_eq [OF b(1) assms(2,3)] by (intro exI [of _ ?ps]) simp
qed

theorem Products_lists_active_witness:
  "\<exists>ps. Products demoShop2 = Inr ps \<and> set ps = {shown demoShop2 demoProduct}"
proof -
  obtain ps where r: "Products demoShop2 = Inr ps"
    and ps: "set ps = {shown demoShop2 p | i p. bGet (bProducts demoShop2) i = Some (Json p) \<and> pActive p}"
    using Products_lists_active [of demoShop2] by (simp only: demoShop_inv demoShop2_simps readable_Nil simp_thms) blast
  have "set ps = {shown demoShop2 demoProduct}"
    unfolding ps demoShop2_active by simp
  with r show ?thesis by blast
qed

definition scanned :: "db \<Rightarrow> Product \<Rightarrow> Product" where
  "scanned D p = (if pTrackStock p then shown D p else p)"

text \<open>
  A scan is sound and, with a complete index, complete: it never fails on a readable
  store, what it returns is an active product carrying that barcode with its shown stock,
  and every active product with that barcode is the one returned.
\<close>

theorem ProductByBarcode_exact:
  assumes "catalogue_inv D" and "index_complete D" and "readable (bStockEvents D)"
    and "readable (bSales D)" and "code \<noteq> []"
  shows "\<exists>r. ProductByBarcode code D = Inr r \<and>
     (\<forall>q. r = Some q \<longleftrightarrow> (\<exists>i p. bGet (bProducts D) i = Some (Json p) \<and> pActive p \<and> pBarcode p = code \<and>
        q = scanned D p))"
proof -
  have tab: "table_inv pID (bProducts D) (bPendingProd D)" and sound: "index_sound D"
    using assms(1) by (simp_all add: catalogue_inv_def)
  let ?is = "\<lambda>i p. bGet (bProducts D) i = Some (Json p) \<and> pActive p \<and> pBarcode p = code"
  have comp: "bGet (bBarcodeIdx D) code = Some i" if "?is i p" for i p
    using that assms(2,5) unfolding index_complete_def by blast
  show ?thesis
  proof (cases "bGet (bBarcodeIdx D) code")
    case None
    then have "\<not> ?is i p" for i p using comp by fastforce
    with None show ?thesis by (auto simp: ProductByBarcode_def)
  next
    case (Some i)
    from sound this obtain p where p: "bGet (bProducts D) i = Some (Json p)" "pBarcode p = code"
      by (rule index_soundD)
    have oh: "onHandOf (pID p) D = Inr (wrapI (onHand (pID p) D))"
      using assms(3,4) by (simp add: onHandOf_eq_Inr)
    have only: "(\<exists>j q'. ?is j q' \<and> q = scanned D q') \<longleftrightarrow> pActive p \<and> q = scanned D p" for q
    proof
      assume "\<exists>j q'. ?is j q' \<and> q = scanned D q'"
      then obtain j q' where jq: "?is j q'" "q = scanned D q'" by blast
      then have "j = i" using comp [of j q'] Some by simp
      with jq p show "pActive p \<and> q = scanned D p" by simp
    qed (use p in blast)
    have "ProductByBarcode code D = Inr (if pActive p then Some (scanned D p) else None)"
      using Some p oh by (simp add: ProductByBarcode_def shown_def scanned_def)
    then show ?thesis
      using only by (intro exI [of _ "if pActive p then Some (scanned D p) else None"]) auto
  qed
qed

theorem ProductByBarcode_exact_witness:
  "ProductByBarcode ''111'' demoShop2 = Inr (Some (scanned demoShop2 demoProduct))"
proof -
  obtain r where r: "ProductByBarcode ''111'' demoShop2 = Inr r"
    and q: "\<forall>q. r = Some q \<longleftrightarrow> (\<exists>i p. bGet (bProducts demoShop2) i = Some (Json p) \<and> pActive p \<and>
      pBarcode p = ''111'' \<and> q = scanned demoShop2 p)"
    using ProductByBarcode_exact [of demoShop2 "''111''"] by auto
  have "bGet (bProducts demoShop2) ''p'' = Some (Json demoProduct)" by simp
  moreover have "pActive demoProduct" "pBarcode demoProduct = ''111''" by simp_all
  ultimately have "r = Some (scanned demoShop2 demoProduct)" using q by blast
  with r show ?thesis by simp
qed

section \<open>Deleting\<close>

lemma AddProduct_not_taken:
  assumes "bGet (bBarcodeIdx D) k = None" and "dBarcode d = k"
  shows "fst (AddProduct e d D) \<noteq> Inl ErrBarcodeTaken"
proof
  assume "fst (AddProduct e d D) = Inl ErrBarcodeTaken"
  then have "addProductTx e d True D = Inl ErrBarcodeTaken"
    by (auto simp: AddProduct_def addProduct_def dbUpdate_def split: sum.splits option.splits)
  with assms show False
    by (auto simp: addProductTx_not_taken)
qed

text \<open>
  Deleting keeps the product as a tombstone under its id (its name and price stay for
  past sales and for the push), takes it out of the list, frees its barcode so that the
  next product may take it, and leaves stock, sales and settings as they are.
\<close>

theorem DeleteProduct_tombstone:
  assumes "catalogue_inv D" and "bGet (bProducts D) i = Some (Json p)" and "goodKey i"
    and "eIO e = None"
  shows "\<exists>D' q. DeleteProduct e i D = (Inr (), D') \<and> catalogue_inv D' \<and>
     bGet (bProducts D') = (bGet (bProducts D))(i \<mapsto> Json q) \<and>
     q = p\<lparr>pActive := False, pDeletedAt := Some (eNow e), pUpdatedAt := eNow e\<rparr> \<and>
     bGet (bPendingProd D') i = Some [] \<and>
     ProductByBarcode (pBarcode p) D' = Inr None \<and>
     (\<forall>e' d. dBarcode d = pBarcode p \<longrightarrow> fst (AddProduct e' d D') \<noteq> Inl ErrBarcodeTaken) \<and>
     (\<forall>j. onHand j D' = onHand j D) \<and> bSales D' = bSales D \<and> bSettings D' = bSettings D"
proof -
  let ?q = "p\<lparr>pActive := False, pDeletedAt := Some (eNow e), pUpdatedAt := eNow e\<rparr>"
  define D' where "D' = (logged (eNow e) (eAuditID e) actItemRemoved (pName p)
         (D\<lparr>bProducts := bput i (Json ?q) (bProducts D),
            bBarcodeIdx := (if pBarcode p \<noteq> [] then bDelete (pBarcode p) (bBarcodeIdx D)
                            else bBarcodeIdx D)\<rparr>))
         \<lparr>bPendingProd := bput i [] (bPendingProd D)\<rparr>"
  have tx: "deleteProductTx e i D = Inr D'"
    unfolding deleteProductTx_eq_Inr D'_def using assms(2,3) by blast
  have idx: "bBarcodeIdx D' = (if pBarcode p \<noteq> [] then bDelete (pBarcode p) (bBarcodeIdx D)
        else bBarcodeIdx D)"
    and others: "bProducts D' = bput i (Json ?q) (bProducts D)"
      "bPendingProd D' = bput i [] (bPendingProd D)" "bSales D' = bSales D"
      "bStockEvents D' = bStockEvents D" "bSettings D' = bSettings D"
    by (simp_all add: D'_def)
  have inv': "catalogue_inv D'" using deleteProductTx_inv [OF tx assms(1)] .
  have free: "bGet (bBarcodeIdx D') (pBarcode p) = None"
  proof (cases "pBarcode p = []")
    case True
    have "index_sound D'" using inv' by (simp add: catalogue_inv_def)
    with True show ?thesis unfolding index_sound_def by (cases "bGet (bBarcodeIdx D') []") auto
  qed (simp add: idx)
  note add = AddProduct_not_taken [OF free]
  have "DeleteProduct e i D = (Inr (), D')"
    using tx assms(4) by (simp add: DeleteProduct_def dbExec_eq_Inr)
  moreover have "ProductByBarcode (pBarcode p) D' = Inr None"
    using free by (simp add: ProductByBarcode_def)
  moreover have "onHand j D' = onHand j D" for j
    using others by (intro onHand_cong)
  moreover have "bGet (bPendingProd D') i = Some []" "bGet (bProducts D') = (bGet (bProducts D))(i \<mapsto> Json ?q)"
    using others by simp_all
  ultimately show ?thesis
    using inv' add others(3,5) by blast
qed

theorem DeleteProduct_tombstone_witness:
  "\<exists>D'. DeleteProduct (demoEnv 2) ''p'' demoShop = (Inr (), D') \<and> ProductByBarcode ''111'' D' = Inr None"
  using DeleteProduct_tombstone [of demoShop "''p''" demoProduct "demoEnv 2"] by fastforce

text \<open>
  C24. The index is not protected against a second deletion: when a deleted product's
  barcode has been taken over by an active product, deleting the old one again succeeds and
  removes the active product's index entry, so its scan finds nothing and another product
  with the same barcode can be added. This is why \<open>barcodes_stay_unique\<close> asks for an
  active product.
\<close>

theorem DeleteProduct_twice_frees_live_barcode:
  assumes "bGet (bProducts D) i = Some (Json t)" and "\<not> pActive t"
    and "bGet (bProducts D) j = Some (Json p)" and "pActive p" and "j \<noteq> i"
    and "pBarcode p = pBarcode t" and "pBarcode t \<noteq> []"
    and "goodKey i" and "eIO e = None"
  shows "\<exists>D'. DeleteProduct e i D = (Inr (), D') \<and>
     bGet (bProducts D') j = Some (Json p) \<and>
     ProductByBarcode (pBarcode p) D' = Inr None \<and>
     (\<forall>e' d. dBarcode d = pBarcode p \<longrightarrow> fst (AddProduct e' d D') \<noteq> Inl ErrBarcodeTaken)"
proof -
  define D' where "D' = (logged (eNow e) (eAuditID e) actItemRemoved (pName t)
         (D\<lparr>bProducts := bput i (Json (t\<lparr>pActive := False, pDeletedAt := Some (eNow e),
               pUpdatedAt := eNow e\<rparr>)) (bProducts D),
            bBarcodeIdx := (if pBarcode t \<noteq> [] then bDelete (pBarcode t) (bBarcodeIdx D)
                            else bBarcodeIdx D)\<rparr>))
         \<lparr>bPendingProd := bput i [] (bPendingProd D)\<rparr>"
  have tx: "deleteProductTx e i D = Inr D'"
    unfolding deleteProductTx_eq_Inr D'_def using assms(1,8) by blast
  have free: "bGet (bBarcodeIdx D') (pBarcode p) = None"
    using assms(6,7) by (simp add: D'_def)
  have "DeleteProduct e i D = (Inr (), D')"
    using tx assms(9) by (simp add: DeleteProduct_def dbExec_eq_Inr)
  moreover have "bGet (bProducts D') j = Some (Json p)"
    using assms(3,5) by (simp add: D'_def)
  moreover have "ProductByBarcode (pBarcode p) D' = Inr None"
    using free by (simp add: ProductByBarcode_def)
  ultimately show ?thesis
    using AddProduct_not_taken [OF free] by blast
qed

theorem DeleteProduct_twice_frees_live_barcode_witness:
  "\<exists>D'. DeleteProduct (demoEnv 2) ''t'' demoShop2 = (Inr (), D') \<and>
     bGet (bProducts D') ''p'' = Some (Json demoProduct) \<and> ProductByBarcode ''111'' D' = Inr None"
proof -
  have "goodKey ''t''" by (simp add: goodKey_def maxKeySize_def)
  then show ?thesis
    using DeleteProduct_twice_frees_live_barcode [of demoShop2 "''t''" demoTomb "''p''" demoProduct "demoEnv 2"]
    by fastforce
qed

section \<open>Seeding\<close>

lemma seed_item:
  assumes "eIO e = None" and "goodKey (eRowID e)"
  shows "addProduct e (starterDraft sp) False D =
    (Inr (draftProduct e (starterDraft sp)),
     D\<lparr>bProducts := bput (eRowID e) (Json (draftProduct e (starterDraft sp))) (bProducts D)\<rparr>)"
proof -
  have "dBarcode (starterDraft sp) = []" by (simp add: starterDraft_def)
  then show ?thesis
    using assms by (simp add: addProduct_def dbUpdate_def addProductTx_def indexBarcode_def Let_def)
qed

lemma map_of_fold_bput:
  "map_of (fold (\<lambda>(k, v). bput k v) kvs b) = map_of b ++ map_of (rev kvs)"
  by (induction kvs arbitrary: b) (auto simp: map_add_def fun_eq_iff split: option.splits)

lemma map_of_rev: "distinct (map fst kvs) \<Longrightarrow> map_of (rev kvs) = map_of kvs"
  by (rule ext, rule option_eqI) (simp add: map_of_eq_Some_iff rev_map [symmetric] del: map_of_eq_None_iff)

definition seedRow :: "env \<Rightarrow> string \<times> int \<Rightarrow> bytes \<times> Product cell" where
  "seedRow e sp = (eRowID e, Json (draftProduct e (starterDraft sp)))"

lemma seedLoop_eq:
  assumes "\<And>m. n \<le> m \<Longrightarrow> m < n + length sps \<Longrightarrow> eIO (es m) = None \<and> goodKey (eRowID (es m))"
  shows "seedLoop es n sps D = (Inr (), D\<lparr>bProducts :=
      fold (\<lambda>(k, v). bput k v) (map2 seedRow (map es [n..<n + length sps]) sps) (bProducts D)\<rparr>)"
  using assms
proof (induction sps arbitrary: n D)
  case (Cons sp sps)
  have "eIO (es n) = None" "goodKey (eRowID (es n))" using Cons.prems [of n] by simp_all
  moreover have "[n..<n + length (sp # sps)] = n # [Suc n..<Suc n + length sps]"
    by (simp add: upt_rec)
  moreover have "eIO (es m) = None \<and> goodKey (eRowID (es m))" if "Suc n \<le> m" "m < Suc n + length sps" for m
    using Cons.prems that by simp
  ultimately show ?case
    by (simp add: seed_item Cons.IH seedRow_def)
qed simp

text \<open>
  Seeding a shop that has no active product stores the eight starter items, one under
  each drawn id, active, priced as listed, without barcode or stock tracking, and changes
  the product table only: nothing is queued for the push or written to the activity log. A
  shop with an active product is left alone.
\<close>

theorem SeedIfEmpty_seeds:
  assumes "catalogue_inv D" and "readable (bStockEvents D)" and "readable (bSales D)"
    and "\<And>n. n < length starter \<Longrightarrow> eIO (es n) = None \<and> goodKey (eRowID (es n))"
    and "distinct (map (\<lambda>n. eRowID (es n)) [0..<length starter])"
  shows "\<exists>D'. SeedIfEmpty es D = (Inr (), D') \<and>
     (if \<exists>i p. bGet (bProducts D) i = Some (Json p) \<and> pActive p then D' = D
      else D' = D\<lparr>bProducts := bProducts D'\<rparr> \<and>
        bGet (bProducts D') = bGet (bProducts D) ++
          map_of (map (\<lambda>n. (eRowID (es n), Json (draftProduct (es n) (starterDraft (starter ! n)))))
                    [0..<length starter]))"
proof -
  have tab: "table_inv pID (bProducts D) (bPendingProd D)"
    using assms(1) by (simp add: catalogue_inv_def)
  then have b: "readable (bProducts D)" "bsorted (bProducts D)"
    by (simp_all add: table_inv_def)
  have empty: "filter pActive (cellVals (bProducts D)) = [] \<longleftrightarrow>
      \<not> (\<exists>i p. bGet (bProducts D) i = Some (Json p) \<and> pActive p)"
    by (auto simp: filter_empty_conv set_cellVals bGet_iff [OF b(2)])
  let ?rows = "map (\<lambda>n. (eRowID (es n), Json (draftProduct (es n) (starterDraft (starter ! n)))))
      [0..<length starter]"
  have rows: "map2 seedRow (map es [0..<length starter]) starter = ?rows"
    by (rule nth_equalityI) (simp_all add: seedRow_def)
  have rev: "map_of (rev ?rows) = map_of ?rows"
    using assms(5) by (intro map_of_rev) (simp add: comp_def)
  define D' where "D' = D\<lparr>bProducts := fold (\<lambda>(k, v). bput k v) ?rows (bProducts D)\<rparr>"
  have seed: "seedLoop es 0 starter D = (Inr (), D')"
    using assms(4) seedLoop_eq [of 0 starter es D] by (simp add: rows D'_def)
  have D': "D' = D\<lparr>bProducts := bProducts D'\<rparr>"
    "bGet (bProducts D') = bGet (bProducts D) ++ map_of ?rows"
    by (simp_all add: D'_def map_of_fold_bput flip: rev)
  show ?thesis
  proof (cases "\<exists>i p. bGet (bProducts D) i = Some (Json p) \<and> pActive p")
    case True
    with empty show ?thesis
      by (simp only: SeedIfEmpty_def Products_eq [OF b(1) assms(2,3)] if_True) simp
  next
    case False
    then have "filter pActive (cellVals (bProducts D)) = []" using empty by blast
    then have "SeedIfEmpty es D = (Inr (), D')"
      by (simp add: SeedIfEmpty_def Products_eq [OF b(1) assms(2,3)] seed)
    with D' False show ?thesis by (intro exI [of _ D']) (simp only: if_False simp_thms)
  qed
qed

theorem SeedIfEmpty_seeds_witness:
  "\<exists>D'. SeedIfEmpty demoEnv emptyDB = (Inr (), D') \<and> bPendingProd D' = [] \<and>
     bGet (bProducts D') (demoID ''row'' 0) = Some (Json (draftProduct (demoEnv 0) (starterDraft (starter ! 0))))"
proof -
  have e: "catalogue_inv emptyDB" "bStockEvents emptyDB = []" "bSales emptyDB = []"
      "bProducts emptyDB = []" "bPendingProd emptyDB = []"
    by (simp_all add: emptyDB_def catalogue_inv_def table_inv_def index_sound_def keyed_def)
  have len: "length starter = 8" by (simp add: starter_def)
  have dist: "distinct (map (\<lambda>n. eRowID (demoEnv n)) [0..<length starter])"
    by (simp add: distinct_map inj_on_def demoID_def)
  obtain D' where D': "SeedIfEmpty demoEnv emptyDB = (Inr (), D')"
      "D' = emptyDB\<lparr>bProducts := bProducts D'\<rparr>"
      "bGet (bProducts D') = bGet [] ++ map_of (map (\<lambda>n. (eRowID (demoEnv n),
         Json (draftProduct (demoEnv n) (starterDraft (starter ! n))))) [0..<length starter])"
    using SeedIfEmpty_seeds [of emptyDB demoEnv] e dist len by auto
  have "bPendingProd D' = []" by (subst D'(2)) (simp add: e)
  moreover have "[0..<length starter] = 0 # [1..<8]" by (simp add: len upt_rec)
  ultimately show ?thesis using D'(1,3) by simp
qed

end
