(* ===== verification/Sales_Correct.thy ===== *)
theory Sales_Correct
  imports Sales Catalogue_Correct
begin

text \<open>
  What recording and reading sales promise: when a sale is accepted and what it leaves in
  the store, its money, and that the three ways of reading sales back return exactly the
  sales asked for, newest first.
\<close>

section \<open>Recording\<close>

text \<open>
  C13. A sale is accepted exactly when it has lines, every line has a positive quantity of a
  stored product, the amount paid covers the total under the current tax settings, the keys
  are ones the database takes, and the commit succeeds. Whether a product is still active
  is not asked.
\<close>

theorem CreateSale_accepts:
  "is_ok (fst (CreateSale e inp D)) \<longleftrightarrow> eIO e = None \<and> saleOK e inp D"
proof
  assume "is_ok (fst (CreateSale e inp D))"
  then obtain s where "fst (CreateSale e inp D) = Inr s" by (auto simp: is_ok_iff)
  then have "CreateSale e inp D = (Inr s, snd (CreateSale e inp D))" by (metis prod.collapse)
  then show "eIO e = None \<and> saleOK e inp D"
    unfolding CreateSale_def dbUpdate_eq_Inr createSaleTx_eq_Inr by blast
next
  assume ok: "eIO e = None \<and> saleOK e inp D"
  then obtain D' where "createSaleTx e inp D = Inr (saleOf e inp D, D')"
    using createSaleTx_eq_Inr by blast
  then have "CreateSale e inp D = (Inr (saleOf e inp D), D')"
    using ok by (simp add: CreateSale_def dbUpdate_ok)
  then show "is_ok (fst (CreateSale e inp D))" by simp
qed

definition soldLines :: "string \<Rightarrow> SaleLine list \<Rightarrow> int" where
  "soldLines pid ls = (\<Sum>l\<leftarrow>ls. if lnProductID l = pid then lnQty l else 0)"

lemma soldIn_saleOf:
  assumes "keyed pID (bProducts D)" and "\<forall>l \<in> set (inLines inp). lineOK (bProducts D) l"
  shows "soldIn pid (saleOf e inp D) = soldLines pid (inLines inp)"
proof -
  have "itProductID (snapshot (bProducts D) l) = lnProductID l" if "lineOK (bProducts D) l" for l
    using that assms(1) by (auto simp: lineOK_def snapshot_def lineProduct_def snapItem_def keyed_def)
  moreover have "itQty (snapshot (bProducts D) l) = lnQty l" for l
    by (simp add: snapshot_def snapItem_def)
  moreover have "itProductID (taxedItem r m it) = itProductID it" "itQty (taxedItem r m it) = itQty it" for r m it
    by (simp_all add: taxedItem_def)
  ultimately show ?thesis
    using assms(2) by (auto simp: soldIn_def saleOf_def soldLines_def comp_def intro!: arg_cong [where f = sum_list])
qed

text \<open>
  C12. An accepted sale with a fresh id is stored as computed, found by its id, queued for the
  push and listed under its reference; every product's on-hand falls by exactly the
  quantity its lines sold, though no stock event is written and no product changes; earlier
  sales and the activity log stay as they are.
\<close>

theorem CreateSale_records:
  assumes "sales_inv D" and "keyed pID (bProducts D)" and "saleOK e inp D" and "eIO e = None"
    and "bGet (bSales D) (eRowID e) = None" and "CHR 0x00 \<notin> set (eRowID e)"
  shows "\<exists>D'. CreateSale e inp D = (Inr (saleOf e inp D), D') \<and> sales_inv D' \<and>
     SaleByID (eRowID e) D' = Inr (Some (saleOf e inp D)) \<and>
     (\<forall>i. i = eRowID e \<or> SaleByID i D' = SaleByID i D) \<and>
     bGet (bPendingSale D') (eRowID e) = Some [] \<and>
     (inReference inp = [] \<or> refKey (inReference inp) (eRowID e) \<in> fst ` set (bRefIdx D')) \<and>
     (\<forall>pid. onHand pid D' = onHand pid D - soldLines pid (inLines inp)) \<and>
     bProducts D' = bProducts D \<and> bStockEvents D' = bStockEvents D \<and> bAudit D' = bAudit D"
proof -
  let ?s = "saleOf e inp D"
  have s: "saID ?s = eRowID e" "saReference ?s = inReference inp"
    by (simp_all add: saleOf_def)
  define D' where "D' = D\<lparr>bSales := bput (eRowID e) (Json ?s) (bSales D),
            bRefIdx := (if inReference inp = [] then bRefIdx D
                        else bput (refKey (inReference inp) (eRowID e)) [] (bRefIdx D)),
            bPendingSale := bput (eRowID e) [] (bPendingSale D)\<rparr>"
  have tx: "createSaleTx e inp D = Inr (?s, D')"
    unfolding createSaleTx_eq_Inr D'_def using assms(3) by blast
  then have run: "CreateSale e inp D = (Inr ?s, D')"
    using assms(4) by (simp add: CreateSale_def dbUpdate_ok)
  have inv': "sales_inv D'"
    using assms(1,5,6) by (intro sales_inv_new [of D ?s D' "[]"]) (simp_all add: D'_def s)
  have lines: "\<forall>l \<in> set (inLines inp). lineOK (bProducts D) l"
    using assms(3) by (simp add: saleOK_def)
  have "onHand pid D' = onHand pid D - soldIn pid ?s" for pid
    using assms(5) by (intro onHand_new_sale) (simp_all add: D'_def s bGet_None_iff)
  then have "onHand pid D' = onHand pid D - soldLines pid (inLines inp)" for pid
    by (simp add: soldIn_saleOf [OF assms(2) lines])
  moreover have "SaleByID (eRowID e) D' = Inr (Some ?s)"
    by (simp add: SaleByID_def D'_def)
  moreover have "i = eRowID e \<or> SaleByID i D' = SaleByID i D" for i
    by (simp add: SaleByID_def D'_def)
  ultimately show ?thesis
    using run inv' by (intro exI [of _ D']) (simp add: D'_def)
qed

definition demoSale :: SaleInput where
  "demoSale = \<lparr>inLines = [\<lparr>lnProductID = ''p'', lnQty = 3\<rparr>], inPaidCents = 20000,
     inPaymentMethod = ''mpesa'', inReference = ''QX1''\<rparr>"

lemma demoSale_simps [simp]:
  "inLines demoSale = [\<lparr>lnProductID = ''p'', lnQty = 3\<rparr>]" "inPaidCents demoSale = 20000"
  "inPaymentMethod demoSale = ''mpesa''" "inReference demoSale = ''QX1''"
  by (simp_all add: demoSale_def)

lemma demo_tax [simp]: "taxFromBucket demoShop = (0, TaxModeNone)"
  by (simp add: taxFromBucket_def)

lemma goodKey_demoRef [simp]: "n \<le> 1000 \<Longrightarrow> goodKey (refKey ''QX1'' (demoID ''row'' n))"
  by (simp add: goodKey_def refKey_def demoID_def maxKeySize_def)

lemma demoSale_total: "saTotalCents (saleOf e demoSale demoShop) = 19500"
proof -
  have "fits64 19500" by (simp add: fits64_def)
  then show ?thesis
    by (simp add: saleOf_def newSale_total sumGross_def snapshot_def lineProduct_def snapItem_def tax_modes)
qed

lemma demoSale_OK [simp]: "n \<le> 1000 \<Longrightarrow> saleOK (demoEnv n) demoSale demoShop"
  by (simp add: saleOK_def demoSale_total lineOK_def)

lemma demoShop_sales_inv [simp]: "sales_inv demoShop"
  by (simp add: sales_inv_def table_inv_def keyed_def)

lemma demoShop_keyed [simp]: "keyed pID (bProducts demoShop)"
  by (simp add: keyed_def)

lemma demoID_no_nul [simp]: "CHR 0x00 \<notin> set (demoID ''row'' n)"
  by (simp add: demoID_def)

definition demoRow :: Sale where
  "demoRow = \<lparr>saID = ''s'', saCreatedAt = demoTime 5, saItems = [\<lparr>itProductID = ''p'',
     itName = ''Bread'', itPriceCents = 6500, itQty = 3, itTaxable = True, itTaxCents = 0\<rparr>],
     saSubtotalCents = 19500, saTaxCents = 0, saTotalCents = 19500, saPaidCents = 20000,
     saChangeCents = 500, saPaymentMethod = ''mpesa'', saReference = ''QX1'', saTaxRateBps = 0,
     saTaxMode = ''none''\<rparr>"

lemma demoRow_simps [simp]:
  "saID demoRow = ''s''" "saReference demoRow = ''QX1''" "saCreatedAt demoRow = demoTime 5"
  "saTotalCents demoRow = 19500" "saPaymentMethod demoRow = ''mpesa''"
  by (simp_all add: demoRow_def)

text \<open>The example shop after one sale.\<close>

definition demoSold :: db where
  "demoSold = demoShop\<lparr>bSales := [(''s'', Json demoRow)], bRefIdx := [(refKey ''QX1'' ''s'', [])]\<rparr>"

lemma demoSold_simps [simp]:
  "bSales demoSold = [(''s'', Json demoRow)]" "bRefIdx demoSold = [(refKey ''QX1'' ''s'', [])]"
  "bPendingSale demoSold = []" "bProducts demoSold = bProducts demoShop" "bStockEvents demoSold = []"
  by (simp_all add: demoSold_def)

lemma demoSold_inv [simp]: "sales_inv demoSold"
  by (simp add: sales_inv_def table_inv_def keyed_def bsorted_def readable_def)

theorem CreateSale_records_witness:
  "\<exists>D'. CreateSale (demoEnv 3) demoSale demoShop = (Inr (saleOf (demoEnv 3) demoSale demoShop), D') \<and>
     onHand ''p'' D' = onHand ''p'' demoShop - 3"
proof -
  have "bGet (bSales demoShop) (eRowID (demoEnv 3)) = None" "CHR 0x00 \<notin> set (eRowID (demoEnv 3))"
    "eIO (demoEnv 3) = None" "soldLines ''p'' (inLines demoSale) = 3"
    by (simp_all add: soldLines_def)
  moreover have "saleOK (demoEnv 3) demoSale demoShop" by simp
  ultimately show ?thesis
    using CreateSale_records [OF demoShop_sales_inv demoShop_keyed] by metis
qed

text \<open>
  The money of an accepted sale when no sum leaves 64 bits: the subtotal is the exact
  sum of price times quantity over the lines, the total adds the lines' tax only in
  exclusive mode, what was paid covers it and the change is the exact, non-negative
  difference; rate and mode are the settings' of this moment.
\<close>

theorem CreateSale_money:
  assumes "CreateSale e inp D = (Inr s, D')"
    and "fits64 (sumGross (saItems s))" and "fits64 (sumTax (saItems s))"
    and "fits64 (sumGross (saItems s) + sumTax (saItems s))"
    and "fits64 (saPaidCents s - saTotalCents s)"
  shows "saSubtotalCents s = (\<Sum>l\<leftarrow>inLines inp. pPriceCents (lineProduct (bProducts D) l) * lnQty l) \<and>
     saTaxCents s = sumTax (saItems s) \<and>
     saTotalCents s = saSubtotalCents s +
       (if saTaxMode s = TaxModeExclusive \<and> 0 < saTaxRateBps s then saTaxCents s else 0) \<and>
     saChangeCents s = inPaidCents inp - saTotalCents s \<and> 0 \<le> saChangeCents s \<and>
     (saTaxRateBps s, saTaxMode s) = taxFromBucket D"
proof -
  obtain r m where rm: "taxFromBucket D = (r, m)" by (cases "taxFromBucket D")
  let ?its = "map (snapshot (bProducts D)) (inLines inp)"
  have "createSaleTx e inp D = Inr (s, D')"
    using assms(1) by (simp add: CreateSale_def dbUpdate_eq_Inr)
  then have ok: "saleOK e inp D" and "s = saleOf e inp D"
    unfolding createSaleTx_eq_Inr by blast+
  then have s: "s = newSale e inp r m ?its" and paid: "saTotalCents s \<le> inPaidCents inp"
    by (simp_all add: saleOf_def rm saleOK_def)
  have g: "sumGross (saItems s) = sumGross ?its"
    by (simp add: s sumGross_def taxedItem_def comp_def)
  have "sumGross ?its = (\<Sum>l\<leftarrow>inLines inp. pPriceCents (lineProduct (bProducts D) l) * lnQty l)"
    by (simp add: sumGross_def snapshot_def snapItem_def comp_def)
  then have sub: "saSubtotalCents s = (\<Sum>l\<leftarrow>inLines inp. pPriceCents (lineProduct (bProducts D) l) * lnQty l)"
    using assms(2) g by (simp add: s)
  have tax: "saTaxCents s = sumTax (saItems s)"
    using assms(3) by (simp add: s)
  have "saSubtotalCents s = sumGross ?its" using assms(2) g by (simp add: s)
  then have tot: "saTotalCents s = saSubtotalCents s +
       (if saTaxMode s = TaxModeExclusive \<and> 0 < saTaxRateBps s then saTaxCents s else 0)"
    using assms(2,3,4) g tax by (cases "m = TaxModeExclusive \<and> 0 < r") (auto simp: s newSale_total)
  have chg: "saChangeCents s = inPaidCents inp - saTotalCents s"
    using assms(5) by (simp add: s)
  show ?thesis using sub tax tot chg paid by (simp add: s rm)
qed

theorem CreateSale_money_witness:
  "\<exists>s D'. CreateSale (demoEnv 3) demoSale demoShop = (Inr s, D') \<and> saSubtotalCents s = 19500 \<and>
     saChangeCents s = 500"
proof -
  let ?s = "saleOf (demoEnv 3) demoSale demoShop"
  obtain D' where run: "CreateSale (demoEnv 3) demoSale demoShop = (Inr ?s, D')"
    using createSaleTx_eq_Inr [of "demoEnv 3" demoSale demoShop]
    by (auto simp: CreateSale_def dbUpdate_eq_Inr)
  have g: "sumGross (saItems ?s) = 19500" "sumTax (saItems ?s) = 0"
    by (simp_all add: saleOf_def sumGross_def sumTax_def taxedItem_def snapshot_def lineProduct_def
        snapItem_def taxLine_def untaxed_def)
  have t: "saTotalCents ?s = 19500" "saPaidCents ?s = 20000"
    by (simp_all add: demoSale_total) (simp add: saleOf_def)
  have "lineProduct (bProducts demoShop) \<lparr>lnProductID = ''p'', lnQty = 3\<rparr> = demoProduct"
    by (simp add: lineProduct_def)
  then show ?thesis
    using CreateSale_money [OF run] run by (simp add: g t fits64_def)
qed

section \<open>Prefix scans\<close>

lemma hasPrefix_iff: "hasPrefix k p \<longleftrightarrow> (\<exists>r. k = p @ r)"
  unfolding hasPrefix_def by (metis append_eq_conv_conj append_take_drop_id)

lemma append_less_same: "p @ r < p @ r' \<longleftrightarrow> r < (r' :: bytes)"
  by (induction p) auto

lemma prefix_not_less: "\<not> (p @ r) < (p :: bytes)"
  by (induction p) auto

lemma between_prefix:
  "\<not> k < p \<Longrightarrow> k < p @ r \<Longrightarrow> \<exists>r'. k = (p :: bytes) @ r'"
proof (induction p arbitrary: k)
  case (Cons a p)
  then show ?case by (cases k) auto
qed simp

lemma scan_eq_filter:
  assumes "sorted_wrt (<) ks"
  shows "takeWhile (\<lambda>k. hasPrefix k p) (dropWhile (\<lambda>k. k < p) ks) = filter (\<lambda>k. hasPrefix k p) ks"
  using assms
proof (induction ks)
  case (Cons k ks)
  consider "k < p" | "\<not> k < p" "hasPrefix k p" | "\<not> k < p" "\<not> hasPrefix k p" by blast
  then show ?case
  proof cases
    case 1
    then have "\<not> hasPrefix k p" using prefix_not_less by (auto simp: hasPrefix_iff)
    with 1 Cons show ?thesis by simp
  next
    case 2
    have "dropWhile (\<lambda>k. k < p) ks = ks"
    proof (cases ks)
      case (Cons k' ks')
      with Cons.prems 2 have "\<not> k' < p" using less_trans by auto
      then show ?thesis using Cons by simp
    qed simp
    with 2 Cons show ?thesis by simp
  next
    case 3
    have "\<not> hasPrefix k' p" if "k' \<in> set ks" for k'
    proof
      assume "hasPrefix k' p"
      then obtain r where "k' = p @ r" by (auto simp: hasPrefix_iff)
      with that Cons.prems have "k < p @ r" by auto
      with 3 show False using between_prefix by (auto simp: hasPrefix_iff)
    qed
    then have "filter (\<lambda>k. hasPrefix k p) ks = []" by (simp add: filter_empty_conv)
    with 3 show ?thesis by simp
  qed
qed simp

lemma scanPrefix_eq: "bsorted b \<Longrightarrow> scanPrefix p b = filter (\<lambda>k. hasPrefix k p) (map fst b)"
  unfolding scanPrefix_def bsorted_def by (rule scan_eq_filter)

definition saleAt :: "Sale cell bucket \<Rightarrow> bytes \<Rightarrow> Sale option" where
  "saleAt sb i = (case bGet sb i of Some (Json s) \<Rightarrow> Some s | _ \<Rightarrow> None)"

lemma saleAt_iff: "saleAt sb i = Some s \<longleftrightarrow> bGet sb i = Some (Json s)"
  by (auto simp: saleAt_def split: option.splits cell.splits)

lemma collectSales_eq:
  assumes "readable sb"
  shows "collectSales sb n ks = Inr (List.map_filter (\<lambda>k. saleAt sb (drop n k)) ks)"
proof (induction ks)
  case (Cons k ks)
  show ?case
  proof (cases "bGet sb (drop n k)")
    case None
    with Cons show ?thesis by (simp add: List.map_filter_simps saleAt_def)
  next
    case (Some c)
    with readable_get [OF assms] obtain s where "c = Json s" by blast
    with Some Cons show ?thesis by (simp add: List.map_filter_simps saleAt_def)
  qed
qed (simp add: List.map_filter_simps)

lemma last_nul_unique:
  assumes "r @ x # i = r' @ x # i'" and "x \<notin> set i" and "x \<notin> set i'"
  shows "r = r' \<and> i = i'"
proof -
  have "takeWhile (\<lambda>c. c \<noteq> x) (rev (r @ x # i)) = rev i" "takeWhile (\<lambda>c. c \<noteq> x) (rev (r' @ x # i')) = rev i'"
    using assms(2,3) by (simp_all add: takeWhile_append)
  with assms(1) have "rev i = rev i'" by (metis)
  then have "i = i'" by simp
  with assms(1) show ?thesis by simp
qed

section \<open>Reading\<close>

lemma newestFirst_props [simp]:
  "set (newestFirst ss) = set ss" "mset (newestFirst ss) = mset ss"
  by (simp_all add: newestFirst_def)

lemma newestFirst_sorted: "sorted_wrt (\<lambda>s t. instant (saCreatedAt t) \<le> instant (saCreatedAt s)) (newestFirst ss)"
proof -
  have "sorted (map (\<lambda>s. - instant (saCreatedAt s)) (newestFirst ss))"
    by (simp add: newestFirst_def)
  then show ?thesis by (simp add: sorted_map sorted_wrt_map)
qed

text \<open>The rows of a reference scan come in the order of their ids.\<close>

lemma reference_rows:
  assumes "sales_inv D" and "ref \<noteq> []"
  shows "\<exists>ss. SalesByReference ref D = Inr (newestFirst ss) \<and>
     set ss = {s. \<exists>i. bGet (bSales D) i = Some (Json s) \<and> saReference s = ref} \<and>
     sorted_wrt (<) (map saID ss)"
proof -
  let ?p = "ref @ [CHR 0x00]"
  let ?sb = "bSales D"
  have b: "readable ?sb" "keyed saID ?sb" and srt: "bsorted (bRefIdx D)"
    and idx: "\<And>k. k \<in> fst ` set (bRefIdx D) \<longleftrightarrow>
        (\<exists>i s. bGet ?sb i = Some (Json s) \<and> saReference s \<noteq> [] \<and> k = refKey (saReference s) i)"
    and nul: "\<And>i. i \<in> fst ` set ?sb \<Longrightarrow> CHR 0x00 \<notin> set i"
    using assms(1) unfolding sales_inv_def table_inv_def by blast+
  have nul': "CHR 0x00 \<notin> set i" if "bGet ?sb i = Some c" for i c
    using nul that by (metis bGet_None_iff option.distinct(1))
  define ks where "ks = filter (\<lambda>k. hasPrefix k ?p) (map fst (bRefIdx D))"
  define ss where "ss = List.map_filter (\<lambda>k. saleAt ?sb (drop (length ?p) k)) ks"
  have run: "SalesByReference ref D = Inr (newestFirst ss)"
    using assms(2) by (simp add: SalesByReference_def Let_def collectSales_eq [OF b(1)]
        scanPrefix_eq [OF srt] ss_def ks_def)
  have ks: "k \<in> set ks \<longleftrightarrow> (\<exists>r. k = ?p @ r) \<and> k \<in> fst ` set (bRefIdx D)" for k
    by (auto simp: ks_def hasPrefix_iff)
  have hit: "saReference s = ref" if key: "?p @ i \<in> fst ` set (bRefIdx D)" and row: "bGet ?sb i = Some (Json s)" for i s
  proof -
    obtain j t where t: "bGet ?sb j = Some (Json t)" "?p @ i = refKey (saReference t) j"
      using iffD1 [OF idx key] by blast
    then have e: "ref @ CHR 0x00 # i = saReference t @ CHR 0x00 # j"
      by (simp add: refKey_def)
    have "ref = saReference t \<and> i = j"
      using last_nul_unique [OF e nul' [OF row] nul' [OF t(1)]] .
    with t row show ?thesis by simp
  qed
  have "s \<in> set ss \<longleftrightarrow> (\<exists>i. bGet ?sb i = Some (Json s) \<and> saReference s = ref)" for s
  proof
    assume "s \<in> set ss"
    then obtain k where k: "k \<in> set ks" "saleAt ?sb (drop (length ?p) k) = Some s"
      by (auto simp: ss_def List.map_filter_def)
    have kk: "\<exists>r. k = ?p @ r" "k \<in> fst ` set (bRefIdx D)"
      using k(1) unfolding ks by (blast, rule conjunct2)
    from kk(1) obtain i where i: "k = ?p @ i" ..
    have i2: "?p @ i \<in> fst ` set (bRefIdx D)" using kk(2) unfolding i .
    have "bGet ?sb i = Some (Json s)" using k(2) by (simp add: i saleAt_iff)
    with hit [OF i2] show "\<exists>i. bGet ?sb i = Some (Json s) \<and> saReference s = ref" by blast
  next
    assume "\<exists>i. bGet ?sb i = Some (Json s) \<and> saReference s = ref"
    then obtain i where i: "bGet ?sb i = Some (Json s)" "saReference s = ref" by blast
    then have "\<exists>j t. bGet ?sb j = Some (Json t) \<and> saReference t \<noteq> [] \<and> refKey ref i = refKey (saReference t) j"
      using assms(2) by (intro exI [of _ i] exI [of _ s]) simp
    then have "refKey ref i \<in> fst ` set (bRefIdx D)" by (simp only: idx)
    then have "?p @ i \<in> set ks" by (simp add: ks refKey_def)
    moreover have "saleAt ?sb (drop (length ?p) (?p @ i)) = Some s"
      using i by (simp add: saleAt_iff)
    ultimately show "s \<in> set ss" by (force simp: ss_def List.map_filter_def)
  qed
  moreover have "sorted_wrt (<) (map saID ss)"
  proof -
    have "sorted_wrt (<) ks" using srt by (simp add: ks_def bsorted_def sorted_wrt_filter)
    moreover have "drop (length ?p) k < drop (length ?p) k'" if kk: "k \<in> set ks" "k' \<in> set ks" "k < k'" for k k'
    proof -
      obtain r r' where "k = ?p @ r" "k' = ?p @ r'" using kk(1,2) unfolding ks by blast
      then show ?thesis using kk(3) append_less_same [of ?p r r'] by simp
    qed
    ultimately have sorted: "sorted_wrt (\<lambda>k k'. drop (length ?p) k < drop (length ?p) k') ks"
      by (auto intro: sorted_wrt_mono_rel)
    have sid: "saID (the (saleAt ?sb j)) = j" if "\<exists>y. saleAt ?sb j = Some y" for j
    proof -
      from that obtain y where y: "saleAt ?sb j = Some y" ..
      then have "bGet ?sb j = Some (Json y)" by (simp add: saleAt_iff)
      with y b(2) show ?thesis by (simp add: keyed_def)
    qed
    have "map saID ss = map (\<lambda>k. drop (length ?p) k) (filter (\<lambda>k. saleAt ?sb (drop (length ?p) k) \<noteq> None) ks)"
      using sid by (simp add: ss_def List.map_filter_def)
    then show ?thesis using sorted by (simp add: sorted_wrt_map sorted_wrt_filter)
  qed
  ultimately show ?thesis using run by blast
qed

lemma reference_scan:
  assumes "sales_inv D" and "ref \<noteq> []"
  shows "\<exists>ss. SalesByReference ref D = Inr ss \<and>
     set ss = {s. \<exists>i. bGet (bSales D) i = Some (Json s) \<and> saReference s = ref} \<and>
     distinct (map saID ss) \<and>
     sorted_wrt (\<lambda>s t. instant (saCreatedAt t) \<le> instant (saCreatedAt s)) ss"
proof -
  obtain ss where ss: "SalesByReference ref D = Inr (newestFirst ss)"
    "set ss = {s. \<exists>i. bGet (bSales D) i = Some (Json s) \<and> saReference s = ref}"
    and "sorted_wrt (<) (map saID ss)" using reference_rows [OF assms] by blast
  then have "distinct (map saID ss)" by (simp add: strict_sorted_iff)
  then have "distinct (map saID (newestFirst ss))"
    by (metis newestFirst_props(2) mset_map mset_eq_imp_distinct_iff)
  with ss newestFirst_sorted show ?thesis by auto
qed

text \<open>
  The reference scan is exact. On a store with the sales invariant it succeeds and
  returns, newest first and each once, the sales whose reference is the one asked for: a
  reference that is a prefix of another, or that itself contains the separator, brings in
  nothing else.
\<close>

theorem SalesByReference_exact:
  assumes "sales_inv D" and "ref \<noteq> []"
  shows "\<exists>ss. SalesByReference ref D = Inr ss \<and>
     set ss = {s. \<exists>i. bGet (bSales D) i = Some (Json s) \<and> saReference s = ref} \<and>
     distinct (map saID ss) \<and>
     sorted_wrt (\<lambda>s t. instant (saCreatedAt t) \<le> instant (saCreatedAt s)) ss"
  by (rule reference_scan [OF assms])

theorem SalesByReference_exact_witness:
  "SalesByReference ''QX1'' demoSold = Inr [demoRow]"
proof -
  obtain ss where ss: "SalesByReference ''QX1'' demoSold = Inr ss"
    and set: "set ss = {s. \<exists>i. bGet (bSales demoSold) i = Some (Json s) \<and> saReference s = ''QX1''}"
    and dist: "distinct (map saID ss)"
    using SalesByReference_exact [of demoSold "''QX1''"] by auto
  have "{s. \<exists>i. bGet (bSales demoSold) i = Some (Json s) \<and> saReference s = ''QX1''} = {demoRow}"
    by auto
  then have "set ss = {demoRow}" using set by simp
  moreover have "distinct ss" using dist by (simp add: distinct_map)
  ultimately have "ss = [demoRow]" by (cases ss; cases "tl ss") auto
  with ss show ?thesis by simp
qed

text \<open>
  The history since a time: exactly the stored sales made at or after it, each once,
  newest first; the zero time lists them all.
\<close>

theorem SalesSince_exact:
  assumes "sales_inv D"
  shows "\<exists>ss. SalesSince t D = Inr ss \<and>
     set ss = {s. \<exists>i. bGet (bSales D) i = Some (Json s) \<and> instant t \<le> instant (saCreatedAt s)} \<and>
     distinct (map saID ss) \<and>
     sorted_wrt (\<lambda>s t. instant (saCreatedAt t) \<le> instant (saCreatedAt s)) ss"
proof -
  have b: "readable (bSales D)" "bsorted (bSales D)" "keyed saID (bSales D)"
    using assms by (simp_all add: sales_inv_def table_inv_def)
  let ?ss = "filter (\<lambda>s. \<not> tBefore (saCreatedAt s) t) (cellVals (bSales D))"
  have "SalesSince t D = Inr (newestFirst ?ss)"
    using b(1) by (simp add: SalesSince_def)
  moreover have "distinct (map saID (newestFirst ?ss))"
    using distinct_map_filter [OF distinct_keys_cellVals [OF b]]
    by (metis newestFirst_props(2) mset_map mset_eq_imp_distinct_iff)
  ultimately show ?thesis
    using newestFirst_sorted by (intro exI [of _ "newestFirst ?ss"])
      (auto simp: set_cellVals bGet_iff [OF b(2)] tBefore_def not_less)
qed

theorem SalesSince_exact_witness: "\<exists>ss. SalesSince (demoTime 4) demoSold = Inr ss \<and> set ss = {demoRow}"
proof -
  obtain ss where "SalesSince (demoTime 4) demoSold = Inr ss"
    and "set ss = {s. \<exists>i. bGet (bSales demoSold) i = Some (Json s) \<and>
      instant (demoTime 4) \<le> instant (saCreatedAt s)}"
    using SalesSince_exact [of demoSold "demoTime 4"] by auto
  moreover have "{s. \<exists>i. bGet (bSales demoSold) i = Some (Json s) \<and>
      instant (demoTime 4) \<le> instant (saCreatedAt s)} = {demoRow}"
    by (auto simp: demoTime_def)
  ultimately show ?thesis by auto
qed

end
