(* ===== verification/Search.thy ===== *)
theory Search
  imports Sales_Correct
begin

text \<open>
  \<^verbatim>\<open>internal/store/boltstore/search.go\<close>: the sales search. With a reference it starts from
  the reference index, otherwise it scans the table; the remaining criteria filter, the
  result is newest first and capped. Lower-casing follows Unicode case tables, so
  \<^verbatim>\<open>strings.ToLower\<close> is the parameter \<open>lower\<close>, of which nothing is assumed.
\<close>

section \<open>The code\<close>

definition defaultSearchCap :: nat where
  "defaultSearchCap = 500"

fun contains :: "string \<Rightarrow> string \<Rightarrow> bool" where
  "contains s q = (take (length q) s = q \<or> (case s of [] \<Rightarrow> False | _ # s' \<Rightarrow> contains s' q))"

declare contains.simps [simp del]

definition matchesCriteria :: "(string \<Rightarrow> string) \<Rightarrow> Sale \<Rightarrow> SearchCriteria \<Rightarrow> bool" where
  "matchesCriteria lower s c =
     (if scItemName c \<noteq> '''' \<and>
         \<not> list_ex (\<lambda>it. contains (lower (itName it)) (lower (scItemName c))) (saItems s) then False
      else if scPaymentMethod c \<noteq> '''' \<and> saPaymentMethod s \<noteq> scPaymentMethod c then False
      else if \<not> tIsZero (scStart c) \<and> tBefore (saCreatedAt s) (scStart c) then False
      else if \<not> tIsZero (scEnd c) \<and> \<not> tBefore (saCreatedAt s) (scEnd c) then False
      else if scMinCents c > 0 \<and> saTotalCents s < scMinCents c then False
      else if scMaxCents c > 0 \<and> saTotalCents s > scMaxCents c then False
      else True)"

definition searchLimit :: "SearchCriteria \<Rightarrow> nat" where
  "searchLimit c = (if scLimit c \<le> 0 then defaultSearchCap else nat (scLimit c))"

definition SearchSales :: "(string \<Rightarrow> string) \<Rightarrow> SearchCriteria \<Rightarrow> db \<Rightarrow> err + Sale list" where
  "SearchSales lower c D =
     rbind (if scReference c \<noteq> '''' then SalesByReference (scReference c) D
            else unmarshalAll (bSales D)) (\<lambda>candidates.
       let out = newestFirst (filter (\<lambda>s. matchesCriteria lower s c) candidates) in
       Inr (if searchLimit c < length out then take (searchLimit c) out else out))"

section \<open>What a search returns\<close>

lemma contains_iff: "contains s q \<longleftrightarrow> (\<exists>a b. s = a @ q @ b)"
proof (induction s)
  case Nil
  show ?case by (subst contains.simps) auto
next
  case (Cons x s)
  show ?case
  proof
    assume "contains (x # s) q"
    then consider "take (length q) (x # s) = q" | "contains s q"
      by (subst (asm) contains.simps) auto
    then show "\<exists>a b. x # s = a @ q @ b"
    proof cases
      case 1
      then have "x # s = [] @ q @ drop (length q) (x # s)" by (metis append_Nil append_take_drop_id)
      then show ?thesis by blast
    next
      case 2
      with Cons.IH obtain a b where "s = a @ q @ b" by blast
      then have "x # s = (x # a) @ q @ b" by simp
      then show ?thesis by blast
    qed
  next
    assume "\<exists>a b. x # s = a @ q @ b"
    then obtain a b where e: "x # s = a @ q @ b" by blast
    show "contains (x # s) q"
    proof (cases a)
      case Nil
      with e show ?thesis by (subst contains.simps) simp
    next
      case (Cons y a')
      with e have "s = a' @ q @ b" by simp
      with Cons.IH have "contains s q" by blast
      then show ?thesis by (subst contains.simps) simp
    qed
  qed
qed

text \<open>The criteria, declaratively: each is a bound only when set.\<close>

definition hit :: "(string \<Rightarrow> string) \<Rightarrow> SearchCriteria \<Rightarrow> Sale \<Rightarrow> bool" where
  "hit lower c s \<longleftrightarrow>
     (scReference c = [] \<or> saReference s = scReference c) \<and>
     (scItemName c = [] \<or> (\<exists>it \<in> set (saItems s). \<exists>a b. lower (itName it) = a @ lower (scItemName c) @ b)) \<and>
     (scPaymentMethod c = [] \<or> saPaymentMethod s = scPaymentMethod c) \<and>
     (instant (scStart c) = 0 \<or> instant (scStart c) \<le> instant (saCreatedAt s)) \<and>
     (instant (scEnd c) = 0 \<or> instant (saCreatedAt s) < instant (scEnd c)) \<and>
     (scMinCents c \<le> 0 \<or> scMinCents c \<le> saTotalCents s) \<and>
     (scMaxCents c \<le> 0 \<or> saTotalCents s \<le> scMaxCents c)"

lemma matchesCriteria_hit:
  "scReference c = [] \<or> saReference s = scReference c \<Longrightarrow> matchesCriteria lower s c \<longleftrightarrow> hit lower c s"
  by (auto simp: matchesCriteria_def hit_def list_ex_iff contains_iff tIsZero_def tBefore_def not_le not_less)

text \<open>
  C21. A search returns the newest matching sales: all sales that meet every set criterion,
  each once, newest first, cut to the limit (500 when none is set). The index-backed and
  the scanning path answer alike.
\<close>

theorem SearchSales_exact:
  assumes "sales_inv D"
  shows "\<exists>found. SearchSales lower c D = Inr (take (searchLimit c) found) \<and>
     set found = {s. \<exists>i. bGet (bSales D) i = Some (Json s) \<and> hit lower c s} \<and>
     distinct (map saID found) \<and>
     sorted_wrt (\<lambda>s t. instant (saCreatedAt t) \<le> instant (saCreatedAt s)) found"
proof -
  have b: "readable (bSales D)" "bsorted (bSales D)" "keyed saID (bSales D)"
    using assms by (simp_all add: sales_inv_def table_inv_def)
  have "\<exists>cs. (if scReference c \<noteq> [] then SalesByReference (scReference c) D
            else unmarshalAll (bSales D)) = Inr cs \<and> distinct (map saID cs) \<and>
      set cs = {s. \<exists>i. bGet (bSales D) i = Some (Json s) \<and> (scReference c = [] \<or> saReference s = scReference c)}"
  proof (cases "scReference c = []")
    case True
    then show ?thesis
      using b distinct_keys_cellVals [OF b] by (auto simp: set_cellVals bGet_iff [OF b(2)])
  next
    case False
    then show ?thesis
      using reference_scan [OF assms False] by auto
  qed
  then obtain cs where cs: "(if scReference c \<noteq> [] then SalesByReference (scReference c) D
            else unmarshalAll (bSales D)) = Inr cs" and d: "distinct (map saID cs)"
    and set: "set cs = {s. \<exists>i. bGet (bSales D) i = Some (Json s) \<and> (scReference c = [] \<or> saReference s = scReference c)}"
    by blast
  let ?found = "newestFirst (filter (\<lambda>s. matchesCriteria lower s c) cs)"
  have "SearchSales lower c D = Inr (take (searchLimit c) ?found)"
    using cs by (simp add: SearchSales_def Let_def)
  moreover have "set ?found = {s. \<exists>i. bGet (bSales D) i = Some (Json s) \<and> hit lower c s}"
    using matchesCriteria_hit by (auto simp: set) (auto simp: hit_def)
  moreover have "distinct (map saID ?found)"
    using distinct_map_filter [OF d] by (metis newestFirst_props(2) mset_map mset_eq_imp_distinct_iff)
  ultimately show ?thesis
    using newestFirst_sorted by blast
qed

definition demoCriteria :: SearchCriteria where
  "demoCriteria = \<lparr>scReference = ''QX1'', scItemName = '''', scPaymentMethod = ''mpesa'',
     scStart = demoTime 1, scEnd = zeroTime, scMinCents = 100, scMaxCents = 0, scLimit = 0\<rparr>"

theorem SearchSales_exact_witness:
  "\<exists>ss. SearchSales id demoCriteria demoSold = Inr ss \<and> set ss = {demoRow}"
proof -
  obtain found where f: "SearchSales id demoCriteria demoSold = Inr (take (searchLimit demoCriteria) found)"
    and set: "set found = {s. \<exists>i. bGet (bSales demoSold) i = Some (Json s) \<and> hit id demoCriteria s}"
    and d: "distinct (map saID found)"
    using SearchSales_exact [of demoSold id demoCriteria] by auto
  have "hit id demoCriteria demoRow"
    by (simp add: hit_def demoCriteria_def demoTime_def zeroTime_def)
  then have one: "set found = {demoRow}" unfolding set by auto
  with d have "length found = 1"
    by (metis distinct_card distinct_map card_1_singleton_iff One_nat_def)
  then have "take (searchLimit demoCriteria) found = found"
    by (simp add: searchLimit_def demoCriteria_def defaultSearchCap_def)
  with f one show ?thesis by auto
qed

end
