(* ===== verification/Sync_Store.thy ===== *)
theory Sync_Store
  imports Sales_Correct
begin

text \<open>
  \<^verbatim>\<open>internal/store/boltstore/sync.go\<close>: the device's link to a cloud shop, the outbox and
  the merge of pulled changes. Sales and stock events are append-only logs merged by id (the
  locale \<open>merge_log\<close>, interpreted below on both); products are last-write-wins on their
  update time (the locale \<open>lww_table\<close>).

  A value of the sync-state bucket is a text or a time: the code writes times under
  \<open>last_sync\<close> and \<open>settings_updated_at\<close> only, in a format that parses back to the same
  UTC time, and texts elsewhere; the empty text does not parse as a time.
\<close>

section \<open>The code: link state\<close>

definition syncText :: "stext bucket \<Rightarrow> bytes \<Rightarrow> string" where
  "syncText b k = (case bGet b k of Some (Text s) \<Rightarrow> s | _ \<Rightarrow> '''')"

definition syncStamp :: "stext bucket \<Rightarrow> bytes \<Rightarrow> gotime option" where
  "syncStamp b k = (case bGet b k of Some (Stamp t) \<Rightarrow> Some t | _ \<Rightarrow> None)"

definition SyncStateOf :: "db \<Rightarrow> SyncState" where
  "SyncStateOf D = (let b = bSyncState D in
     \<lparr>syLinked = (syncText b kLinked = ''yes''),
      syBaseURL = syncText b kBaseURL,
      syShopID = syncText b kShopID,
      syEmail = syncText b kEmail,
      syToken = syncText b kToken,
      syCursor = fst (parseInt 64 (syncText b kCursor)),
      syLastSync = (case syncStamp b kLastSync of Some t \<Rightarrow> t | None \<Rightarrow> zeroTime),
      syLastError = syncText b kLastError\<rparr>)"

definition putAll :: "(bytes \<times> stext) list \<Rightarrow> stext bucket \<Rightarrow> err + stext bucket" where
  "putAll = forEachR (\<lambda>(k, v) b. bPut k v b)"

definition linkTx :: "string \<Rightarrow> string \<Rightarrow> string \<Rightarrow> string \<Rightarrow> db \<Rightarrow> err + db" where
  "linkTx baseURL shopID email token D =
     rbind (putAll [(kLinked, Text ''yes''), (kBaseURL, Text baseURL), (kShopID, Text shopID),
              (kEmail, Text email), (kToken, Text token), (kLastError, Text '''')] (bSyncState D))
       (\<lambda>b. Inr (D\<lparr>bSyncState := b\<rparr>))"

definition Link :: "env \<Rightarrow> string \<Rightarrow> string \<Rightarrow> string \<Rightarrow> string \<Rightarrow> db \<Rightarrow> (err + unit) \<times> db" where
  "Link e baseURL shopID email token = dbExec e (linkTx baseURL shopID email token)"

definition unlinkTx :: "db \<Rightarrow> err + db" where
  "unlinkTx D =
     rbind (putAll (map (\<lambda>k. (k, Text ''''))
              [kLinked, kBaseURL, kShopID, kEmail, kToken, kCursor, kLastError]) (bSyncState D))
       (\<lambda>b. Inr (D\<lparr>bSyncState := b\<rparr>))"

definition Unlink :: "env \<Rightarrow> db \<Rightarrow> (err + unit) \<times> db" where
  "Unlink e = dbExec e unlinkTx"

definition putSync :: "(bytes \<times> stext) list \<Rightarrow> db \<Rightarrow> err + db" where
  "putSync kvs D = rbind (putAll kvs (bSyncState D)) (\<lambda>b. Inr (D\<lparr>bSyncState := b\<rparr>))"

definition SetToken :: "env \<Rightarrow> string \<Rightarrow> db \<Rightarrow> (err + unit) \<times> db" where
  "SetToken e token = dbExec e (putSync [(kToken, Text token)])"

definition SetCursor :: "env \<Rightarrow> int \<Rightarrow> db \<Rightarrow> (err + unit) \<times> db" where
  "SetCursor e cursor = dbExec e (putSync [(kCursor, Text (itoa cursor))])"

definition SetSyncResult :: "env \<Rightarrow> gotime \<Rightarrow> string \<Rightarrow> db \<Rightarrow> (err + unit) \<times> db" where
  "SetSyncResult e at errMsg =
     dbExec e (putSync [(kLastSync, Stamp (tUTC at)), (kLastError, Text errMsg)])"

section \<open>The code: outbox\<close>

text \<open>The loop of the three \<open>Pending\<close> reads: a mark whose row is gone is skipped.\<close>

fun collectPending :: "'a cell bucket \<Rightarrow> bytes list \<Rightarrow> err + 'a list" where
  "collectPending b [] = Inr []"
| "collectPending b (i # is) =
     (case bGet b i of
        None \<Rightarrow> collectPending b is
      | Some raw \<Rightarrow> rbind (unmarshal raw) (\<lambda>x.
          rbind (collectPending b is) (\<lambda>xs. Inr (x # xs))))"

definition PendingProducts :: "db \<Rightarrow> err + Product list" where
  "PendingProducts D = collectPending (bProducts D) (map fst (bPendingProd D))"

definition PendingSales :: "db \<Rightarrow> err + Sale list" where
  "PendingSales D = collectPending (bSales D) (map fst (bPendingSale D))"

definition PendingStockEvents :: "db \<Rightarrow> err + StockEvent list" where
  "PendingStockEvents D = collectPending (bStockEvents D) (map fst (bPendingStock D))"

text \<open>\<^verbatim>\<open>(m, at, ok)\<close>: \<open>None\<close> is \<open>ok = false\<close>.\<close>

definition PendingSettings :: "db \<Rightarrow> ((string \<rightharpoonup> string) \<times> gotime) option" where
  "PendingSettings D =
     (case syncStamp (bSyncState D) kSettingsDue of
        None \<Rightarrow> None
      | Some t \<Rightarrow> let alls = Settings D in
          Some (fold (\<lambda>k m. m(k \<mapsto> (case alls k of Some v \<Rightarrow> v | None \<Rightarrow> ''''))) syncSettingKeys Map.empty, t))"

definition clearSettings :: "gotime \<Rightarrow> db \<Rightarrow> err + db" where
  "clearSettings settingsAt D =
     (case syncStamp (bSyncState D) kSettingsDue of
        Some t \<Rightarrow> if \<not> tAfter t settingsAt then putSync [(kSettingsDue, Text '''')] D else Inr D
      | None \<Rightarrow> Inr D)"

definition clearPushedTx :: "string list \<Rightarrow> string list \<Rightarrow> string list \<Rightarrow> gotime \<Rightarrow> bool \<Rightarrow> db \<Rightarrow> err + db" where
  "clearPushedTx productIDs saleIDs stockEventIDs settingsAt settingsPushed D =
     (let D1 = D\<lparr>bPendingProd := fold bDelete productIDs (bPendingProd D),
                 bPendingSale := fold bDelete saleIDs (bPendingSale D),
                 bPendingStock := fold bDelete stockEventIDs (bPendingStock D)\<rparr>
      in if settingsPushed then clearSettings settingsAt D1 else Inr D1)"

definition ClearPushed ::
  "env \<Rightarrow> string list \<Rightarrow> string list \<Rightarrow> string list \<Rightarrow> gotime \<Rightarrow> bool \<Rightarrow> db \<Rightarrow> (err + unit) \<times> db" where
  "ClearPushed e productIDs saleIDs stockEventIDs settingsAt settingsPushed =
     dbExec e (clearPushedTx productIDs saleIDs stockEventIDs settingsAt settingsPushed)"

section \<open>The code: applying pulled changes\<close>

definition unindexOld :: "Product option \<Rightarrow> string bucket \<Rightarrow> string bucket" where
  "unindexOld existing idx =
     (case existing of
        Some old \<Rightarrow> if pBarcode old \<noteq> '''' then bDelete (pBarcode old) idx else idx
      | None \<Rightarrow> idx)"

definition storePulled :: "Product \<Rightarrow> Product option \<Rightarrow> db \<Rightarrow> err + db" where
  "storePulled p existing D =
     (let idx = unindexOld existing (bBarcodeIdx D) in
      rbind (putJSON (pID p) p (bProducts D)) (\<lambda>pb.
      rbind (if pActive p \<and> pBarcode p \<noteq> '''' then bPut (pBarcode p) (pID p) idx else Inr idx) (\<lambda>idx'.
        Inr (D\<lparr>bProducts := pb, bBarcodeIdx := idx'\<rparr>))))"

definition applyPulledProduct :: "Product \<Rightarrow> db \<Rightarrow> err + db" where
  "applyPulledProduct p D =
     (case bGet (bProducts D) (pID p) of
        None \<Rightarrow> storePulled p None D
      | Some raw \<Rightarrow> rbind (unmarshal raw) (\<lambda>existing.
          if \<not> tAfter (pUpdatedAt p) (pUpdatedAt existing) then Inr D
          else storePulled p (Some existing) D))"

definition applyPulledSale :: "Sale \<Rightarrow> db \<Rightarrow> err + db" where
  "applyPulledSale s D =
     (if bGet (bSales D) (saID s) \<noteq> None then Inr D
      else rbind (putJSON (saID s) s (bSales D)) (\<lambda>sb.
           rbind (indexReference s (bRefIdx D)) (\<lambda>idx.
             Inr (D\<lparr>bSales := sb, bRefIdx := idx\<rparr>))))"

definition applyPulledStockEvent :: "StockEvent \<Rightarrow> db \<Rightarrow> err + db" where
  "applyPulledStockEvent ev D =
     (if bGet (bStockEvents D) (evID ev) \<noteq> None then Inr D
      else rbind (putJSON (evID ev) ev (bStockEvents D)) (\<lambda>b. Inr (D\<lparr>bStockEvents := b\<rparr>)))"

definition putPulledSetting :: "(string \<rightharpoonup> string) \<Rightarrow> string \<Rightarrow> string bucket \<Rightarrow> err + string bucket" where
  "putPulledSetting settings k sb =
     (case settings k of Some v \<Rightarrow> bPut k v sb | None \<Rightarrow> Inr sb)"

definition applyPulledSettings :: "(string \<rightharpoonup> string) \<Rightarrow> gotime \<Rightarrow> db \<Rightarrow> err + db" where
  "applyPulledSettings settings at D =
     (if (case syncStamp (bSyncState D) kSettingsDue of Some t \<Rightarrow> tAfter t at | None \<Rightarrow> False) then Inr D
      else rbind (forEachR (putPulledSetting settings) syncSettingKeys (bSettings D)) (\<lambda>sb.
        Inr (D\<lparr>bSettings := sb\<rparr>)))"

record Pulled =
  plProducts :: "Product list"
  plSales :: "Sale list"
  plStockEvents :: "StockEvent list"
  plSettings :: "(string \<rightharpoonup> string) option"
  plSettingsAt :: "gotime option"

definition applyPulledTx :: "Pulled \<Rightarrow> db \<Rightarrow> err + db" where
  "applyPulledTx pl D =
     rbind (forEachR applyPulledProduct (plProducts pl) D) (\<lambda>D1.
     rbind (forEachR applyPulledSale (plSales pl) D1) (\<lambda>D2.
     rbind (forEachR applyPulledStockEvent (plStockEvents pl) D2) (\<lambda>D3.
       case (plSettings pl, plSettingsAt pl) of
         (Some m, Some at) \<Rightarrow> applyPulledSettings m at D3
       | _ \<Rightarrow> Inr D3)))"

definition ApplyPulled :: "env \<Rightarrow> Pulled \<Rightarrow> db \<Rightarrow> (err + unit) \<times> db" where
  "ApplyPulled e pl = dbExec e (applyPulledTx pl)"

end
