(* ===== verification/Cloud_Client.thy ===== *)
theory Cloud_Client
  imports Sync_Store
begin

text \<open>
  \<^verbatim>\<open>internal/cloudsync/client.go\<close>: the HTTP client of the cloud. The network is outside the
  repository: what sending a request gives is a parameter, a function of the world that
  returns an error of the transport or a response. A response is what the client reads of
  it: the status, the cookies, the \<^verbatim>\<open>error\<close> field of its body (empty when the body has none)
  and the body decoded as the expected result.
\<close>

datatype syncErr =
    StoreErr err
  | BadURL string
  | Unreachable string
  | Unauthorized
  | BadLogin
  | NoSession
  | ServerErr string
  | BadReply string bool

text \<open>\<^verbatim>\<open>err.Error()\<close>.\<close>

fun syncErrText :: "syncErr \<Rightarrow> string" where
  "syncErrText (StoreErr e) = errText e"
| "syncErrText (BadURL m) = m"
| "syncErrText (Unreachable m) = ''cannot reach the cloud: '' @ m"
| "syncErrText Unauthorized = ''cloud session is no longer valid''"
| "syncErrText BadLogin = ''that email or password was not recognised''"
| "syncErrText NoSession = ''the cloud did not return a session''"
| "syncErrText (ServerErr m) = m"
| "syncErrText (BadReply m net) = m"

record PushPayload =
  ppProducts :: "Product list"
  ppSales :: "Sale list"
  ppStockEvents :: "StockEvent list"
  ppSettings :: "(string \<rightharpoonup> string) option"
  ppSettingsAt :: "gotime option"

record PushResult =
  prCursor :: int
  prProductsApplied :: int
  prProductsSkipped :: int
  prSalesApplied :: int
  prSettingsApplied :: bool

record PullResult =
  puCursor :: int
  puPulled :: Pulled

record LinkInfo =
  liShopID :: string
  liEmail :: string
  liToken :: string

text \<open>Errors of the transport: the URL does not parse, or \<^verbatim>\<open>Do\<close> fails.\<close>

datatype txErr = URLParse string | DoFailed string

record 'o response =
  rsStatus :: int
  rsCookies :: "(string \<times> string) list"
  rsErrorField :: string
  rsDecoded :: "(string \<times> bool) + 'o"

type_synonym ('w, 'o) send = "'w \<Rightarrow> (txErr + 'o response) \<times> 'w"

record 'w transport =
  trLogin :: "string \<Rightarrow> string \<Rightarrow> string \<Rightarrow> ('w, string \<times> string) send"
  trPull :: "string \<Rightarrow> string \<Rightarrow> int \<Rightarrow> ('w, PullResult) send"
  trPush :: "string \<Rightarrow> string \<Rightarrow> PushPayload \<Rightarrow> ('w, PushResult) send"

definition trimSlashes :: "string \<Rightarrow> string" where
  "trimSlashes s = rev (dropWhile (\<lambda>c. c = CHR ''/'') (rev s))"

definition joinURL :: "string \<Rightarrow> string \<Rightarrow> string" where
  "joinURL base path = trimSlashes base @ path"

definition serverError :: "'o response \<Rightarrow> syncErr" where
  "serverError r =
     (if rsErrorField r \<noteq> '''' then ServerErr (rsErrorField r)
      else ServerErr (''cloud returned '' @ itoa (rsStatus r)))"

fun sendError :: "txErr \<Rightarrow> syncErr" where
  "sendError (URLParse m) = BadURL m"
| "sendError (DoFailed m) = Unreachable m"

definition decoded :: "'o response \<Rightarrow> syncErr + 'o" where
  "decoded r = (case rsDecoded r of Inl (m, net) \<Rightarrow> Inl (BadReply m net) | Inr x \<Rightarrow> Inr x)"

definition post :: "('w, 'o) send \<Rightarrow> 'w \<Rightarrow> (syncErr + 'o) \<times> 'w" where
  "post send w =
     (case send w of
        (Inl t, w') \<Rightarrow> (Inl (sendError t), w')
      | (Inr r, w') \<Rightarrow>
          (if rsStatus r = 401 then Inl Unauthorized
           else if rsStatus r \<noteq> 200 then Inl (serverError r)
           else decoded r, w'))"

definition clientPull :: "'w transport \<Rightarrow> string \<Rightarrow> string \<Rightarrow> int \<Rightarrow> 'w \<Rightarrow> (syncErr + PullResult) \<times> 'w" where
  "clientPull tr baseURL token since = post (trPull tr (joinURL baseURL ''/api/sync/pull'') token since)"

definition clientPush :: "'w transport \<Rightarrow> string \<Rightarrow> string \<Rightarrow> PushPayload \<Rightarrow> 'w \<Rightarrow> (syncErr + PushResult) \<times> 'w" where
  "clientPush tr baseURL token payload =
     post (trPush tr (joinURL baseURL ''/api/sync/push'') token payload)"

definition sessionCookie :: string where
  "sessionCookie = ''pos_session''"

text \<open>The loop keeps the last cookie with the name.\<close>

definition sessionToken :: "(string \<times> string) list \<Rightarrow> string" where
  "sessionToken cks = foldl (\<lambda>token ck. if fst ck = sessionCookie then snd ck else token) '''' cks"

definition clientLogin :: "'w transport \<Rightarrow> string \<Rightarrow> string \<Rightarrow> string \<Rightarrow> 'w \<Rightarrow> (syncErr + LinkInfo) \<times> 'w" where
  "clientLogin tr baseURL email password w =
     (case trLogin tr (joinURL baseURL ''/api/auth/login'') email password w of
        (Inl t, w') \<Rightarrow> (Inl (sendError t), w')
      | (Inr r, w') \<Rightarrow>
          (if rsStatus r = 401 then Inl BadLogin
           else if rsStatus r \<noteq> 200 then Inl (serverError r)
           else rbind (decoded r) (\<lambda>(shopID, em).
             let token = sessionToken (rsCookies r) in
             if token = '''' then Inl NoSession
             else Inr \<lparr>liShopID = shopID, liEmail = em, liToken = token\<rparr>), w'))"

text \<open>
  \<^verbatim>\<open>IsOffline\<close>: the error chain holds a \<^verbatim>\<open>*url.Error\<close> (a request that did not parse or could
  not be sent) or a network error (a reply cut off while reading).
\<close>

fun isOfflineErr :: "syncErr \<Rightarrow> bool" where
  "isOfflineErr (BadURL m) = True"
| "isOfflineErr (Unreachable m) = True"
| "isOfflineErr (BadReply m net) = net"
| "isOfflineErr (StoreErr e) = False"
| "isOfflineErr Unauthorized = False"
| "isOfflineErr BadLogin = False"
| "isOfflineErr NoSession = False"
| "isOfflineErr (ServerErr m) = False"

definition IsOffline :: "syncErr option \<Rightarrow> bool" where
  "IsOffline e = (case e of None \<Rightarrow> False | Some x \<Rightarrow> isOfflineErr x)"

lemma trimSlashes_end: "trimSlashes s = [] \<or> last (trimSlashes s) \<noteq> CHR ''/''"
proof (cases "dropWhile (\<lambda>c. c = CHR ''/'') (rev s)")
  case (Cons c cs)
  then have "c \<noteq> CHR ''/''"
    using hd_dropWhile [of "\<lambda>c. c = CHR ''/''" "rev s"] by simp
  with Cons show ?thesis by (simp add: trimSlashes_def)
qed (simp add: trimSlashes_def)

end
