(* ===== verification/Sync_Correct.thy ===== *)
theory Sync_Correct
  imports Sync_Store
begin

text \<open>
  What the sync layer of the store promises: merging a pull never echoes back, is idempotent,
  keeps every invariant, never rewrites a sale or a stock event, and lets the newest product
  win; two tills that exchange their rows agree. The outbox lists exactly the marked rows,
  and clearing what was pushed loses no settings change made since.
\<close>

section \<open>The merges are instances of the two contracts\<close>

definition productAt :: "db \<Rightarrow> bytes \<Rightarrow> Product option" where
  "productAt D k = (case bGet (bProducts D) k of Some (Json p) \<Rightarrow> Some p | _ \<Rightarrow> None)"

lemma productAt_iff: "productAt D k = Some p \<longleftrightarrow> bGet (bProducts D) k = Some (Json p)"
  by (auto simp: productAt_def split: option.splits cell.splits)

lemma productAt_upd:
  "bProducts D' = bput k (Json p) (bProducts D) \<Longrightarrow> productAt D' = (productAt D)(k \<mapsto> p)"
  by (auto simp: productAt_def fun_eq_iff)

lemma storePulled_eq_Inr:
  "storePulled p existing D = Inr D' \<longleftrightarrow> goodKey (pID p) \<and>
     (if pActive p \<and> pBarcode p \<noteq> []
      then goodKey (pBarcode p) \<and> D' = D\<lparr>bProducts := bput (pID p) (Json p) (bProducts D),
             bBarcodeIdx := bput (pBarcode p) (pID p) (unindexOld existing (bBarcodeIdx D))\<rparr>
      else D' = D\<lparr>bProducts := bput (pID p) (Json p) (bProducts D),
             bBarcodeIdx := unindexOld existing (bBarcodeIdx D)\<rparr>)"
  by (auto simp: storePulled_def Let_def rbind_eq_Inr putJSON_eq_Inr bPut_eq_Inr)

lemma storePulled_products:
  "storePulled p existing D = Inr D' \<Longrightarrow> bProducts D' = bput (pID p) (Json p) (bProducts D)"
  by (auto simp: storePulled_eq_Inr split: if_splits)

interpretation pulled_events:
  merge_log "\<lambda>D. bGet (bStockEvents D)" applyPulledStockEvent evID Json
  by unfold_locales (auto simp: applyPulledStockEvent_def rbind_eq_Inr putJSON_eq_Inr)

interpretation pulled_sales:
  merge_log "\<lambda>D. bGet (bSales D)" applyPulledSale saID Json
  by unfold_locales (auto simp: applyPulledSale_def rbind_eq_Inr putJSON_eq_Inr)

interpretation pulled_products:
  lww_table productAt applyPulledProduct pID "\<lambda>p. instant (pUpdatedAt p)"
proof unfold_locales
  fix D and p old :: Product
  assume "productAt D (pID p) = Some old" and "instant (pUpdatedAt p) \<le> instant (pUpdatedAt old)"
  then show "applyPulledProduct p D = Inr D"
    by (simp add: productAt_iff applyPulledProduct_def tAfter_def)
next
  fix D D' and p :: Product
  assume newer: "\<And>old. productAt D (pID p) = Some old \<Longrightarrow> instant (pUpdatedAt old) < instant (pUpdatedAt p)"
    and run: "applyPulledProduct p D = Inr D'"
  have "bProducts D' = bput (pID p) (Json p) (bProducts D)"
  proof (cases "bGet (bProducts D) (pID p)")
    case None
    with run show ?thesis by (simp add: applyPulledProduct_def storePulled_products)
  next
    case (Some c)
    with run obtain old where old: "c = Json old"
      by (cases c) (auto simp: applyPulledProduct_def)
    with Some newer have "instant (pUpdatedAt old) < instant (pUpdatedAt p)" by (simp add: productAt_iff)
    with Some old run show ?thesis
      by (simp add: applyPulledProduct_def tAfter_def storePulled_products)
  qed
  then show "productAt D' = (productAt D)(pID p \<mapsto> p)" by (rule productAt_upd)
qed

section \<open>What a merge touches\<close>

text \<open>Each merge leaves the buckets it does not own; none writes an outbox mark.\<close>

definition frame :: "db \<Rightarrow> db \<Rightarrow> bool" where
  "frame D D' \<longleftrightarrow> bPendingProd D' = bPendingProd D \<and> bPendingSale D' = bPendingSale D \<and>
     bPendingStock D' = bPendingStock D \<and> bSyncState D' = bSyncState D \<and>
     bAudit D' = bAudit D \<and> bAuditSeq D' = bAuditSeq D \<and> bBlobs D' = bBlobs D"

lemma frame_refl [simp]: "frame D D"
  by (simp add: frame_def)

lemma frame_trans: "frame A B \<Longrightarrow> frame B C \<Longrightarrow> frame A C"
  by (simp add: frame_def)

definition onlyProducts :: "db \<Rightarrow> db \<Rightarrow> bool" where
  "onlyProducts D D' \<longleftrightarrow> frame D D' \<and> bSales D' = bSales D \<and> bRefIdx D' = bRefIdx D \<and>
     bStockEvents D' = bStockEvents D \<and> bSettings D' = bSettings D"

definition onlySales :: "db \<Rightarrow> db \<Rightarrow> bool" where
  "onlySales D D' \<longleftrightarrow> frame D D' \<and> bProducts D' = bProducts D \<and> bBarcodeIdx D' = bBarcodeIdx D \<and>
     bStockEvents D' = bStockEvents D \<and> bSettings D' = bSettings D"

definition onlyEvents :: "db \<Rightarrow> db \<Rightarrow> bool" where
  "onlyEvents D D' \<longleftrightarrow> frame D D' \<and> bProducts D' = bProducts D \<and> bBarcodeIdx D' = bBarcodeIdx D \<and>
     bSales D' = bSales D \<and> bRefIdx D' = bRefIdx D \<and> bSettings D' = bSettings D"

definition onlySettings :: "db \<Rightarrow> db \<Rightarrow> bool" where
  "onlySettings D D' \<longleftrightarrow> frame D D' \<and> bProducts D' = bProducts D \<and> bBarcodeIdx D' = bBarcodeIdx D \<and>
     bSales D' = bSales D \<and> bRefIdx D' = bRefIdx D \<and> bStockEvents D' = bStockEvents D"

lemmas only_defs = onlyProducts_def onlySales_def onlyEvents_def onlySettings_def

lemma only_refl [simp]: "onlyProducts D D" "onlySales D D" "onlyEvents D D" "onlySettings D D"
  by (simp_all add: only_defs)

lemma only_trans:
  "onlyProducts A B \<Longrightarrow> onlyProducts B C \<Longrightarrow> onlyProducts A C"
  "onlySales A B \<Longrightarrow> onlySales B C \<Longrightarrow> onlySales A C"
  "onlyEvents A B \<Longrightarrow> onlyEvents B C \<Longrightarrow> onlyEvents A C"
  by (auto simp: only_defs frame_def)

lemma applyPulledProduct_frame: "applyPulledProduct p D = Inr D' \<Longrightarrow> onlyProducts D D'"
  by (cases "bGet (bProducts D) (pID p)"; cases "the (bGet (bProducts D) (pID p))")
    (auto simp: applyPulledProduct_def storePulled_eq_Inr only_defs frame_def split: if_splits)

lemma applyPulledSale_frame: "applyPulledSale s D = Inr D' \<Longrightarrow> onlySales D D'"
  by (auto simp: applyPulledSale_def rbind_eq_Inr only_defs frame_def split: if_splits)

lemma applyPulledStockEvent_frame: "applyPulledStockEvent ev D = Inr D' \<Longrightarrow> onlyEvents D D'"
  by (auto simp: applyPulledStockEvent_def rbind_eq_Inr only_defs frame_def split: if_splits)

lemma applyPulledSettings_frame: "applyPulledSettings m at D = Inr D' \<Longrightarrow> onlySettings D D'"
  unfolding applyPulledSettings_def
  by (auto simp: rbind_eq_Inr only_defs frame_def split: if_splits)

text \<open>The states between the four loops of a pull.\<close>

definition settingsStage :: "Pulled \<Rightarrow> db \<Rightarrow> err + db" where
  "settingsStage pl D = (case (plSettings pl, plSettingsAt pl) of
     (Some m, Some at) \<Rightarrow> applyPulledSettings m at D | _ \<Rightarrow> Inr D)"

lemma applyPulledTx_stages:
  assumes "applyPulledTx pl D = Inr D'"
  obtains D1 D2 D3 where "forEachR applyPulledProduct (plProducts pl) D = Inr D1"
    and "forEachR applyPulledSale (plSales pl) D1 = Inr D2"
    and "forEachR applyPulledStockEvent (plStockEvents pl) D2 = Inr D3"
    and "settingsStage pl D3 = Inr D'"
    and "onlyProducts D D1" and "onlySales D1 D2" and "onlyEvents D2 D3" and "onlySettings D3 D'"
proof -
  obtain D1 D2 D3 where s: "forEachR applyPulledProduct (plProducts pl) D = Inr D1"
    "forEachR applyPulledSale (plSales pl) D1 = Inr D2"
    "forEachR applyPulledStockEvent (plStockEvents pl) D2 = Inr D3"
    and last: "settingsStage pl D3 = Inr D'"
    using assms by (auto simp: applyPulledTx_def rbind_eq_Inr settingsStage_def)
  have 1: "onlyProducts D D1"
    by (rule forEachR_inv [OF _ only_refl(1) s(1)]) (rule only_trans(1) [OF _ applyPulledProduct_frame])
  have 2: "onlySales D1 D2"
    by (rule forEachR_inv [OF _ only_refl(2) s(2)]) (rule only_trans(2) [OF _ applyPulledSale_frame])
  have 3: "onlyEvents D2 D3"
    by (rule forEachR_inv [OF _ only_refl(3) s(3)]) (rule only_trans(3) [OF _ applyPulledStockEvent_frame])
  have 4: "onlySettings D3 D'"
    using last applyPulledSettings_frame by (auto simp: settingsStage_def split: option.splits)
  show ?thesis using that [OF s last 1 2 3 4] .
qed

lemma applyPulledTx_frame:
  assumes "applyPulledTx pl D = Inr D'"
  shows "frame D D'"
proof -
  obtain D1 D2 D3 where "onlyProducts D D1" "onlySales D1 D2" "onlyEvents D2 D3" "onlySettings D3 D'"
    using assms by (rule applyPulledTx_stages)
  then show ?thesis by (simp add: only_defs frame_def)
qed

text \<open>
  C17. No echo: whatever a pull carries and however it ends, applying it adds no outbox mark
  and clears none, does not stamp the settings clock, and leaves the link, the activity log
  and the logo alone.
\<close>

theorem ApplyPulled_no_echo:
  "frame D (snd (ApplyPulled e pl D))"
  unfolding ApplyPulled_def
  by (rule dbExec_inv [OF prod.collapse [symmetric] frame_refl applyPulledTx_frame])

section \<open>Success and invariants\<close>

definition store_inv :: "db \<Rightarrow> bool" where
  "store_inv D \<longleftrightarrow> catalogue_inv D \<and> sales_inv D \<and> stock_inv D \<and> bsorted (bSettings D)"

text \<open>The keys of a pull are ones the database takes, and its sale ids (UUIDs) hold no NUL.\<close>

definition pulledOK :: "Pulled \<Rightarrow> bool" where
  "pulledOK pl \<longleftrightarrow>
     (\<forall>p \<in> set (plProducts pl). goodKey (pID p) \<and> (pBarcode p = [] \<or> goodKey (pBarcode p))) \<and>
     (\<forall>s \<in> set (plSales pl). goodKey (saID s) \<and> CHR 0x00 \<notin> set (saID s) \<and>
        (saReference s = [] \<or> goodKey (refKey (saReference s) (saID s)))) \<and>
     (\<forall>ev \<in> set (plStockEvents pl). goodKey (evID ev))"

lemma applyPulledProduct_succeeds:
  assumes "readable (bProducts D)" and "goodKey (pID p) \<and> (pBarcode p = [] \<or> goodKey (pBarcode p))"
  shows "\<exists>D'. applyPulledProduct p D = Inr D' \<and> readable (bProducts D')"
proof -
  have store: "\<exists>D'. storePulled p ex D = Inr D' \<and> readable (bProducts D')" for ex
    using assms by (cases "pActive p \<and> pBarcode p \<noteq> []") (auto simp: storePulled_def Let_def)
  show ?thesis
  proof (cases "bGet (bProducts D) (pID p)")
    case None
    with store show ?thesis by (simp add: applyPulledProduct_def)
  next
    case (Some c)
    with readable_get [OF assms(1)] obtain old where "c = Json old" by blast
    with Some store assms(1) show ?thesis by (simp add: applyPulledProduct_def)
  qed
qed

lemma applyPulledSale_succeeds:
  assumes "goodKey (saID s)" and "saReference s = [] \<or> goodKey (refKey (saReference s) (saID s))"
  shows "\<exists>D'. applyPulledSale s D = Inr D'"
  using assms by (auto simp: applyPulledSale_def indexReference_def)

lemma applyPulledStockEvent_succeeds:
  "goodKey (evID ev) \<Longrightarrow> \<exists>D'. applyPulledStockEvent ev D = Inr D'"
  by (simp add: applyPulledStockEvent_def)

lemma goodKey_syncSettingKeys: "k \<in> set syncSettingKeys \<Longrightarrow> goodKey k"
  by (auto simp: syncSettingKeys_def)

lemma settingsStage_succeeds: "\<exists>D'. settingsStage pl D = Inr D'"
proof -
  have "\<exists>sb. forEachR (putPulledSetting m) syncSettingKeys (bSettings D) = Inr sb \<and> True" for m D
    by (rule forEachR_succeeds)
      (auto simp: putPulledSetting_def goodKey_syncSettingKeys split: option.splits)
  then have "\<exists>D'. applyPulledSettings m at D = Inr D'" for m at D
    unfolding applyPulledSettings_def by (metis rbind_simps(2))
  then show ?thesis by (auto simp: settingsStage_def split: option.splits)
qed

lemma applyPulledTx_succeeds:
  assumes "readable (bProducts D)" and "pulledOK pl"
  shows "\<exists>D'. applyPulledTx pl D = Inr D'"
proof -
  obtain D1 where 1: "forEachR applyPulledProduct (plProducts pl) D = Inr D1"
    using forEachR_succeeds [where P = "\<lambda>D. readable (bProducts D)" and f = applyPulledProduct]
      assms applyPulledProduct_succeeds unfolding pulledOK_def by metis
  obtain D2 where 2: "forEachR applyPulledSale (plSales pl) D1 = Inr D2"
    using forEachR_succeeds [where P = "\<lambda>_. True" and f = applyPulledSale]
      assms(2) applyPulledSale_succeeds unfolding pulledOK_def by metis
  obtain D3 where 3: "forEachR applyPulledStockEvent (plStockEvents pl) D2 = Inr D3"
    using forEachR_succeeds [where P = "\<lambda>_. True" and f = applyPulledStockEvent]
      assms(2) applyPulledStockEvent_succeeds unfolding pulledOK_def by metis
  show ?thesis
    using 1 2 3 settingsStage_succeeds [of pl D3] by (simp add: applyPulledTx_def settingsStage_def)
qed

lemma storePulled_inv:
  assumes inv: "catalogue_inv D" and "productAt D (pID p) = existing"
    and run: "storePulled p existing D = Inr D'"
  shows "catalogue_inv D'"
proof -
  have tab: "table_inv pID (bProducts D) (bPendingProd D)" and sound: "index_sound D"
    and srt: "bsorted (bBarcodeIdx D)"
    using inv by (simp_all add: catalogue_inv_def)
  let ?idx = "unindexOld existing (bBarcodeIdx D)"
  have P: "bProducts D' = bput (pID p) (Json p) (bProducts D)" and M: "bPendingProd D' = bPendingProd D"
    and I: "bBarcodeIdx D' = (if pActive p \<and> pBarcode p \<noteq> [] then bput (pBarcode p) (pID p) ?idx else ?idx)"
    using run by (auto simp: storePulled_eq_Inr split: if_splits)
  have "bsorted ?idx" using srt by (simp add: unindexOld_def split: option.splits)
  then have "bsorted (bBarcodeIdx D')" by (simp add: I)
  moreover have "table_inv pID (bProducts D') (bPendingProd D')"
    unfolding P M by (rule table_inv_put(1) [OF tab])
  moreover have "index_sound D'"
    unfolding index_sound_def
  proof (intro allI impI)
    fix k j assume k: "bGet (bBarcodeIdx D') k = Some j"
    show "k \<noteq> [] \<and> (\<exists>q. bGet (bProducts D') j = Some (Json q) \<and> pBarcode q = k)"
    proof (cases "pActive p \<and> pBarcode p \<noteq> [] \<and> k = pBarcode p")
      case True
      with k show ?thesis by (simp add: I P)
    next
      case False
      with k have k': "bGet ?idx k = Some j" by (auto simp: I split: if_splits)
      then have "bGet (bBarcodeIdx D) k = Some j"
        by (auto simp: unindexOld_def split: option.splits if_splits)
      with sound obtain q where q: "k \<noteq> []" "bGet (bProducts D) j = Some (Json q)" "pBarcode q = k"
        by (rule index_soundD)
      have "j \<noteq> pID p"
      proof
        assume "j = pID p"
        with q assms(2) have "existing = Some q" by (simp add: productAt_def)
        with k' q show False by (simp add: unindexOld_def)
      qed
      with q show ?thesis by (simp add: P)
    qed
  qed
  ultimately show ?thesis by (simp add: catalogue_inv_def)
qed

lemma applyPulledProduct_inv:
  assumes "catalogue_inv D" and "applyPulledProduct p D = Inr D'"
  shows "catalogue_inv D'"
proof (cases "bGet (bProducts D) (pID p)")
  case None
  then have "productAt D (pID p) = None" by (simp add: productAt_def)
  with None assms show ?thesis by (auto simp: applyPulledProduct_def intro: storePulled_inv)
next
  case (Some c)
  with assms(2) obtain old where old: "c = Json old" by (cases c) (auto simp: applyPulledProduct_def)
  with Some have "productAt D (pID p) = Some old" by (simp add: productAt_iff)
  with Some old assms show ?thesis
    by (auto simp: applyPulledProduct_def intro: storePulled_inv split: if_splits)
qed

lemma applyPulledSale_inv:
  assumes "sales_inv D" and "CHR 0x00 \<notin> set (saID s)" and "applyPulledSale s D = Inr D'"
  shows "sales_inv D'"
proof (cases "bGet (bSales D) (saID s)")
  case None
  with assms(3) have "bSales D' = bput (saID s) (Json s) (bSales D)"
    "bRefIdx D' = (if saReference s = [] then bRefIdx D
                   else bput (refKey (saReference s) (saID s)) [] (bRefIdx D))"
    "bPendingSale D' = bPendingSale D"
    by (auto simp: applyPulledSale_def rbind_eq_Inr putJSON_eq_Inr indexReference_eq_Inr split: if_splits)
  with None assms(1,2) show ?thesis by (intro sales_inv_new [of D s D']) auto
next
  case (Some c)
  with assms(1,3) show ?thesis by (simp add: applyPulledSale_def)
qed

lemma applyPulledStockEvent_inv:
  assumes "stock_inv D" and "applyPulledStockEvent ev D = Inr D'"
  shows "stock_inv D'"
  using assms by (auto simp: stock_inv_def applyPulledStockEvent_def rbind_eq_Inr putJSON_eq_Inr
      intro: table_inv_put split: if_splits)

lemma applyPulledSettings_sorted:
  assumes "bsorted (bSettings D)" and "settingsStage pl D = Inr D'"
  shows "bsorted (bSettings D')"
proof -
  have "bsorted sb" if "forEachR (putPulledSetting m) syncSettingKeys (bSettings D) = Inr sb" for m sb
    by (rule forEachR_inv [where P = bsorted, OF _ assms(1) that])
      (auto simp: putPulledSetting_def bPut_eq_Inr split: option.splits)
  with assms show ?thesis
    by (auto simp: settingsStage_def applyPulledSettings_def rbind_eq_Inr split: option.splits if_splits)
qed

lemma applyPulledTx_inv:
  assumes "store_inv D" and "pulledOK pl" and "applyPulledTx pl D = Inr D'"
  shows "store_inv D'"
proof -
  obtain D1 D2 D3 where s: "forEachR applyPulledProduct (plProducts pl) D = Inr D1"
    "forEachR applyPulledSale (plSales pl) D1 = Inr D2"
    "forEachR applyPulledStockEvent (plStockEvents pl) D2 = Inr D3" "settingsStage pl D3 = Inr D'"
    and o: "onlyProducts D D1" "onlySales D1 D2" "onlyEvents D2 D3" "onlySettings D3 D'"
    using assms(3) by (rule applyPulledTx_stages)
  have inv: "catalogue_inv D" "sales_inv D" "stock_inv D" "bsorted (bSettings D)"
    using assms(1) by (simp_all add: store_inv_def)
  have "catalogue_inv D1"
    by (rule forEachR_inv [where P = catalogue_inv, OF _ inv(1) s(1)]) (rule applyPulledProduct_inv)
  then have c: "catalogue_inv D'"
    using o by (subst catalogue_inv_cong [of _ D1]) (simp_all add: only_defs frame_def)
  have s1: "sales_inv D1" using inv(2) o(1) by (simp add: sales_inv_def only_defs frame_def)
  have "sales_inv D2"
    by (rule forEachR_inv [where P = sales_inv, OF _ s1 s(2)])
      (use assms(2) in \<open>auto simp: pulledOK_def intro: applyPulledSale_inv\<close>)
  then have sa: "sales_inv D'" using o(3,4) by (simp add: sales_inv_def only_defs frame_def)
  have s2: "stock_inv D2" using inv(3) o(1,2) by (simp add: stock_inv_def only_defs frame_def)
  have "stock_inv D3"
    by (rule forEachR_inv [where P = stock_inv, OF _ s2 s(3)]) (rule applyPulledStockEvent_inv)
  then have st: "stock_inv D'" using o(4) by (simp add: stock_inv_def only_defs frame_def)
  have "bsorted (bSettings D3)" using inv(4) o by (simp add: only_defs)
  with s(4) have "bsorted (bSettings D')" by (rule applyPulledSettings_sorted [rotated])
  with c sa st show ?thesis by (simp add: store_inv_def)
qed

section \<open>What a merge leaves\<close>

lemma ApplyPulled_run:
  assumes "readable (bProducts D)" and "pulledOK pl" and "eIO e = None"
  obtains D' where "ApplyPulled e pl D = (Inr (), D')" and "applyPulledTx pl D = Inr D'"
  using applyPulledTx_succeeds [OF assms(1,2)] assms(3)
  by (auto simp: ApplyPulled_def dbExec_eq_Inr)


definition demoNewer :: Product where
  "demoNewer = demoProduct\<lparr>pName := ''Brown bread'', pUpdatedAt := demoTime 9\<rparr>"

definition demoPull :: Pulled where
  "demoPull = \<lparr>plProducts = [demoNewer], plSales = [demoRow], plStockEvents =
     [\<lparr>evID = ''v'', evProductID = ''p'', evDelta = 10, evReason = StockRestock, evCreatedAt = demoTime 4\<rparr>],
     plSettings = None, plSettingsAt = None\<rparr>"

lemma demoPull_simps [simp]:
  "pID demoNewer = ''p''" "pBarcode demoNewer = ''111''" "instant (pUpdatedAt demoNewer) = 9000000000"
  "instant (pUpdatedAt demoProduct) = 1000000000"
  "plProducts demoPull = [demoNewer]" "plSales demoPull = [demoRow]"
  by (simp_all add: demoPull_def demoNewer_def demoProduct_def demoTime_def)

lemma demoPull_OK [simp]: "pulledOK demoPull"
  by (simp add: pulledOK_def demoPull_def goodKey_def maxKeySize_def refKey_def)

lemma demoShop_readable [simp]: "readable (bProducts demoShop)"
  by (simp add: readable_def)


text \<open>
  Sales and stock events are append-only: when the pulled rows of one id have one
  content, a merge stores every pulled row whose id was missing and nothing else; a row the
  store had is never replaced or dropped, and every product's on-hand follows from the
  merged logs alone.
\<close>

theorem ApplyPulled_appends:
  assumes "readable (bProducts D)" and "pulledOK pl" and "eIO e = None"
    and "inj_on saID (set (plSales pl))" and "inj_on evID (set (plStockEvents pl))"
  shows "\<exists>D'. ApplyPulled e pl D = (Inr (), D') \<and>
     (\<forall>k c. bGet (bSales D') k = Some c \<longleftrightarrow> bGet (bSales D) k = Some c \<or>
        bGet (bSales D) k = None \<and> (\<exists>s \<in> set (plSales pl). saID s = k \<and> Json s = c)) \<and>
     (\<forall>k c. bGet (bStockEvents D') k = Some c \<longleftrightarrow> bGet (bStockEvents D) k = Some c \<or>
        bGet (bStockEvents D) k = None \<and> (\<exists>ev \<in> set (plStockEvents pl). evID ev = k \<and> Json ev = c))"
proof -
  obtain D' where run: "ApplyPulled e pl D = (Inr (), D')" and tx: "applyPulledTx pl D = Inr D'"
    using assms(1,2,3) by (rule ApplyPulled_run)
  from tx obtain D1 D2 D3 where s: "forEachR applyPulledSale (plSales pl) D1 = Inr D2"
    "forEachR applyPulledStockEvent (plStockEvents pl) D2 = Inr D3"
    and o: "onlyProducts D D1" "onlySales D1 D2" "onlyEvents D2 D3" "onlySettings D3 D'"
    by (rule applyPulledTx_stages)
  have "bSales D' = bSales D2" "bSales D1 = bSales D" "bStockEvents D' = bStockEvents D3"
    "bStockEvents D2 = bStockEvents D"
    using o by (simp_all add: only_defs)
  moreover have "bGet (bSales D2) k = Some c \<longleftrightarrow> bGet (bSales D1) k = Some c \<or>
        bGet (bSales D1) k = None \<and> (\<exists>s \<in> set (plSales pl). saID s = k \<and> Json s = c)" for k c
    by (rule pulled_sales.merge_all_look [OF s(1)]) (use assms(4) in \<open>auto dest: inj_onD\<close>)
  moreover have "bGet (bStockEvents D3) k = Some c \<longleftrightarrow> bGet (bStockEvents D2) k = Some c \<or>
        bGet (bStockEvents D2) k = None \<and> (\<exists>ev \<in> set (plStockEvents pl). evID ev = k \<and> Json ev = c)" for k c
    by (rule pulled_events.merge_all_look [OF s(2)]) (use assms(5) in \<open>auto dest: inj_onD\<close>)
  ultimately show ?thesis using run by (intro exI [of _ D']) simp
qed

theorem ApplyPulled_appends_witness:
  "\<exists>D'. ApplyPulled (demoEnv 6) demoPull demoShop = (Inr (), D') \<and> bGet (bSales D') ''s'' = Some (Json demoRow)"
proof -
  have "inj_on saID (set (plSales demoPull))" "inj_on evID (set (plStockEvents demoPull))"
    by (simp_all add: demoPull_def)
  then obtain D' where run: "ApplyPulled (demoEnv 6) demoPull demoShop = (Inr (), D')"
    and sal: "\<forall>k c. bGet (bSales D') k = Some c \<longleftrightarrow> bGet (bSales demoShop) k = Some c \<or>
        bGet (bSales demoShop) k = None \<and> (\<exists>s \<in> set (plSales demoPull). saID s = k \<and> Json s = c)"
    using ApplyPulled_appends [OF demoShop_readable demoPull_OK, of "demoEnv 6"] by auto
  have "\<exists>s \<in> set (plSales demoPull). saID s = ''s'' \<and> Json s = Json demoRow" by simp
  with sal run show ?thesis by (metis demoShop_simps(4) map_of.simps(1))
qed

section \<open>Merging again\<close>

lemma bput_same: "bsorted b \<Longrightarrow> bGet b k = Some v \<Longrightarrow> bput k v b = b"
  by (rule bucket_ext) (simp_all add: fun_upd_idem)

lemma putPulled_all:
  assumes "forEachR (putPulledSetting m) ks sb = Inr sb'"
  shows "map_of sb' = map_of sb ++ (m |` set ks)"
  using assms
proof (induction ks arbitrary: sb)
  case (Cons k ks)
  then obtain t where t: "putPulledSetting m k sb = Inr t" "forEachR (putPulledSetting m) ks t = Inr sb'"
    by (auto simp: rbind_eq_Inr)
  have "map_of t = map_of sb ++ (m |` {k})"
    using t(1) by (auto simp: putPulledSetting_def bPut_eq_Inr fun_eq_iff map_add_def restrict_map_def
        split: option.splits)
  with Cons.IH [OF t(2)] show ?case
    by (auto simp: fun_eq_iff map_add_def restrict_map_def split: option.splits)
qed simp

lemma settingsStage_idem:
  assumes "settingsStage pl D = Inr D'" and "bsorted (bSettings D)"
  shows "settingsStage pl D' = Inr D'"
proof (cases "\<exists>m at. plSettings pl = Some m \<and> plSettingsAt pl = Some at")
  case False
  then show ?thesis by (auto simp: settingsStage_def split: option.splits)
next
  case True
  then obtain m at where ma: "plSettings pl = Some m" "plSettingsAt pl = Some at" by blast
  then have run: "applyPulledSettings m at D = Inr D'" using assms(1) by (simp add: settingsStage_def)
  then have ss: "bSyncState D' = bSyncState D"
    using applyPulledSettings_frame [OF run] by (simp add: only_defs frame_def)
  show ?thesis
  proof (cases "case syncStamp (bSyncState D) kSettingsDue of Some t \<Rightarrow> tAfter t at | None \<Rightarrow> False")
    case True
    with run have "D' = D" by (simp add: applyPulledSettings_def)
    with run ma show ?thesis by (simp add: settingsStage_def)
  next
    case False
    with run obtain sb where sb: "forEachR (putPulledSetting m) syncSettingKeys (bSettings D) = Inr sb"
      "D' = D\<lparr>bSettings := sb\<rparr>"
      by (auto simp: applyPulledSettings_def rbind_eq_Inr)
    have srt: "bsorted sb"
      using applyPulledSettings_sorted [OF assms(2,1)] by (simp add: sb)
    have "forEachR (putPulledSetting m) syncSettingKeys sb = Inr sb"
    proof (rule forEachR_fix)
      fix k assume k: "k \<in> set syncSettingKeys"
      show "putPulledSetting m k sb = Inr sb"
      proof (cases "m k")
        case (Some v)
        then have "bGet sb k = Some v" using k by (simp add: putPulled_all [OF sb(1)] map_add_def)
        with Some k srt show ?thesis
          by (simp add: putPulledSetting_def goodKey_syncSettingKeys bput_same)
      qed (simp add: putPulledSetting_def)
    qed
    with False ma ss sb(2) show ?thesis by (simp add: settingsStage_def applyPulledSettings_def)
  qed
qed

text \<open>
  C16. Applying the same pull again changes nothing: a till that missed the cursor update, or
  is handed its own rows back, ends where it was.
\<close>

theorem ApplyPulled_idempotent:
  assumes "readable (bProducts D)" and "bsorted (bSettings D)" and "pulledOK pl"
    and "eIO e = None" and "eIO e' = None"
  shows "\<exists>D'. ApplyPulled e pl D = (Inr (), D') \<and> ApplyPulled e' pl D' = (Inr (), D')"
proof -
  obtain D' where run: "ApplyPulled e pl D = (Inr (), D')" and tx: "applyPulledTx pl D = Inr D'"
    using assms(1,3,4) by (rule ApplyPulled_run)
  from tx obtain D1 D2 D3 where s: "forEachR applyPulledProduct (plProducts pl) D = Inr D1"
    "forEachR applyPulledSale (plSales pl) D1 = Inr D2"
    "forEachR applyPulledStockEvent (plStockEvents pl) D2 = Inr D3" "settingsStage pl D3 = Inr D'"
    and o: "onlyProducts D D1" "onlySales D1 D2" "onlyEvents D2 D3" "onlySettings D3 D'"
    by (rule applyPulledTx_stages)
  have "productAt D' = productAt D1" using o by (simp add: only_defs productAt_def fun_eq_iff)
  then have "forEachR applyPulledProduct (plProducts pl) D' = Inr D'"
    by (rule pulled_products.lww_all_stays [OF s(1)])
  moreover have "forEachR applyPulledSale (plSales pl) D' = Inr D'"
    using o by (intro pulled_sales.merge_all_stays [OF s(2)]) (simp add: only_defs)
  moreover have "forEachR applyPulledStockEvent (plStockEvents pl) D' = Inr D'"
    using o by (intro pulled_events.merge_all_stays [OF s(3)]) (simp add: only_defs)
  moreover have "settingsStage pl D' = Inr D'"
    using o assms(2) by (intro settingsStage_idem [OF s(4)]) (simp add: only_defs)
  ultimately have "applyPulledTx pl D' = Inr D'"
    by (simp add: applyPulledTx_def settingsStage_def)
  then have "ApplyPulled e' pl D' = (Inr (), D')"
    using assms(5) by (simp add: ApplyPulled_def dbExec_eq_Inr)
  with run show ?thesis by blast
qed

theorem ApplyPulled_idempotent_witness:
  "\<exists>D'. ApplyPulled (demoEnv 6) demoPull demoShop = (Inr (), D') \<and>
     ApplyPulled (demoEnv 7) demoPull D' = (Inr (), D')"
  using ApplyPulled_idempotent [OF demoShop_readable _ demoPull_OK, of "demoEnv 6" "demoEnv 7"] by simp

section \<open>Two tills\<close>

definition rowsOf :: "db \<Rightarrow> Pulled" where
  "rowsOf D = \<lparr>plProducts = cellVals (bProducts D), plSales = cellVals (bSales D),
     plStockEvents = cellVals (bStockEvents D), plSettings = None, plSettingsAt = None\<rparr>"

lemma rowsOf_simps [simp]:
  "plProducts (rowsOf D) = cellVals (bProducts D)" "plSales (rowsOf D) = cellVals (bSales D)"
  "plStockEvents (rowsOf D) = cellVals (bStockEvents D)"
  by (simp_all add: rowsOf_def)

lemma table_rows:
  assumes "table_inv f b pend"
  shows "x \<in> set (cellVals b) \<and> f x = k \<longleftrightarrow> bGet b k = Some (Json x)"
proof -
  have "bsorted b" "keyed f b" using assms by (simp_all add: table_inv_def)
  then show ?thesis by (auto simp: set_cellVals bGet_iff keyed_def)
qed

text \<open>An append-only log with another's rows merged in has both logs' rows.\<close>

lemma log_union:
  assumes "table_inv f b pend" and "table_inv f a pend'"
    and "\<And>k c. look' k = Some c \<longleftrightarrow> bGet a k = Some c \<or> bGet a k = None \<and> (\<exists>x \<in> set (cellVals b). f x = k \<and> Json x = c)"
  shows "look' = bGet b ++ bGet a"
proof (rule ext, rule option_eqI)
  fix k c
  have "(\<exists>x \<in> set (cellVals b). f x = k \<and> Json x = c) \<longleftrightarrow> bGet b k = Some c"
  proof -
    have "bGet b k = Some c \<Longrightarrow> \<exists>x. c = Json x"
      using readable_get [of b k c] assms(1) by (simp add: table_inv_def)
    then show ?thesis using table_rows [OF assms(1)] by blast
  qed
  then show "look' k = Some c \<longleftrightarrow> (bGet b ++ bGet a) k = Some c"
    using assms(3) by (auto simp: map_add_Some_iff)
qed

lemma agree_comm:
  assumes "\<And>k c c'. a k = Some c \<Longrightarrow> b k = Some c' \<Longrightarrow> c = c'"
  shows "a ++ b = b ++ a"
  using assms by (auto simp: fun_eq_iff map_add_def split: option.splits)

lemma merged_sorted:
  assumes "store_inv D" and "pulledOK pl" and "applyPulledTx pl D = Inr D'"
  shows "bsorted (bProducts D')" and "bsorted (bSales D')" and "bsorted (bStockEvents D')"
    and "readable (bProducts D')"
  using applyPulledTx_inv [OF assms]
  by (simp_all add: store_inv_def catalogue_inv_def sales_inv_def stock_inv_def table_inv_def)

lemma productAt_bGet: "readable (bProducts D) \<Longrightarrow> bGet (bProducts D) k = map_option Json (productAt D k)"
  using readable_get by (fastforce simp: productAt_def split: option.splits cell.splits)

lemma pulled_logs:
  assumes "applyPulledTx (rowsOf E) D = Inr D'"
    and t: "table_inv saID (bSales E) (bPendingSale E)" "table_inv saID (bSales D) (bPendingSale D)"
      "table_inv evID (bStockEvents E) (bPendingStock E)" "table_inv evID (bStockEvents D) (bPendingStock D)"
  shows "bGet (bSales D') = bGet (bSales E) ++ bGet (bSales D)"
    and "bGet (bStockEvents D') = bGet (bStockEvents E) ++ bGet (bStockEvents D)"
proof -
  from assms(1) obtain D1 D2 D3 where s: "forEachR applyPulledSale (plSales (rowsOf E)) D1 = Inr D2"
    "forEachR applyPulledStockEvent (plStockEvents (rowsOf E)) D2 = Inr D3"
    and o: "onlyProducts D D1" "onlySales D1 D2" "onlyEvents D2 D3" "onlySettings D3 D'"
    by (rule applyPulledTx_stages)
  have fix1: "bSales D' = bSales D2" "bSales D1 = bSales D" "bStockEvents D' = bStockEvents D3"
    "bStockEvents D2 = bStockEvents D"
    using o by (simp_all add: only_defs)
  have inj: "x = y" if "f x = f y" "x \<in> set (cellVals b)" "y \<in> set (cellVals b)" "table_inv f b pend"
    for f :: "'x \<Rightarrow> bytes" and b pend x y
    using table_rows [OF that(4)] that(1-3) by (metis cell.inject option.inject)
  show "bGet (bSales D') = bGet (bSales E) ++ bGet (bSales D)"
    using pulled_sales.merge_all_look [OF s(1)] inj [OF _ _ _ t(1)]
    unfolding fix1 rowsOf_simps by (intro log_union [OF t(1,2)]) blast
  show "bGet (bStockEvents D') = bGet (bStockEvents E) ++ bGet (bStockEvents D)"
    using pulled_events.merge_all_look [OF s(2)] inj [OF _ _ _ t(3)]
    unfolding fix1 rowsOf_simps by (intro log_union [OF t(3,4)]) blast
qed

lemma pulled_products_only:
  assumes "applyPulledTx (rowsOf E) D = Inr D'"
  obtains D1 where "forEachR applyPulledProduct (cellVals (bProducts E)) D = Inr D1" "productAt D' = productAt D1"
proof -
  from assms obtain D1 D2 D3 where "forEachR applyPulledProduct (plProducts (rowsOf E)) D = Inr D1"
    and "onlySales D1 D2" "onlyEvents D2 D3" "onlySettings D3 D'"
    by (rule applyPulledTx_stages)
  then show thesis by (intro that [of D1]) (simp_all add: only_defs productAt_def fun_eq_iff)
qed

lemma pulled_products_converge:
  assumes txA: "applyPulledTx (rowsOf B) A = Inr A'" and txB: "applyPulledTx (rowsOf A) B = Inr B'"
    and tab: "table_inv pID (bProducts A) (bPendingProd A)" "table_inv pID (bProducts B) (bPendingProd B)"
    and products: "\<And>k p q. productAt A k = Some p \<Longrightarrow> productAt B k = Some q \<Longrightarrow>
      instant (pUpdatedAt p) = instant (pUpdatedAt q) \<Longrightarrow> p = q"
  shows "productAt A' = productAt B'"
proof -
  obtain A1 where A1: "forEachR applyPulledProduct (cellVals (bProducts B)) A = Inr A1" "productAt A' = productAt A1"
    using txA by (rule pulled_products_only)
  obtain B1 where B1: "forEachR applyPulledProduct (cellVals (bProducts A)) B = Inr B1" "productAt B' = productAt B1"
    using txB by (rule pulled_products_only)
  have cA: "pulled_products.cand A (cellVals (bProducts B)) k v \<longleftrightarrow> productAt A k = Some v \<or> productAt B k = Some v" for k v
    using table_rows [OF tab(2), of v k] by (simp add: pulled_products.cand_def productAt_iff)
  have cB: "pulled_products.cand B (cellVals (bProducts A)) k v \<longleftrightarrow> productAt A k = Some v \<or> productAt B k = Some v" for k v
    using table_rows [OF tab(1), of v k] by (auto simp: pulled_products.cand_def productAt_iff)
  have "productAt A1 = productAt B1"
  proof (rule pulled_products.lww_converges [OF A1(1) B1(1)])
    show "v = w" if "pulled_products.cand A (cellVals (bProducts B)) k v"
      "pulled_products.cand A (cellVals (bProducts B)) k w"
      "instant (pUpdatedAt v) = instant (pUpdatedAt w)" for k v w
      using that products [of k v w] products [of k w v] unfolding cA by fastforce
  qed (simp add: cA cB)
  then show ?thesis by (simp add: A1 B1)
qed

text \<open>
  C5. Two tills that hand each other all their rows agree. When a sale or event id has one
  content on both, and two versions of a product with the same update time are the same,
  both tills end with the same products, sales and stock events, hence with the same
  on-hand for every product and the same product list.
\<close>

theorem tills_agree:
  assumes "store_inv A" and "store_inv B" and "pulledOK (rowsOf A)" and "pulledOK (rowsOf B)"
    and "eIO e = None" and "eIO e' = None"
    and sales: "\<And>k c c'. bGet (bSales A) k = Some c \<Longrightarrow> bGet (bSales B) k = Some c' \<Longrightarrow> c = c'"
    and events: "\<And>k c c'. bGet (bStockEvents A) k = Some c \<Longrightarrow> bGet (bStockEvents B) k = Some c' \<Longrightarrow> c = c'"
    and products: "\<And>k p q. productAt A k = Some p \<Longrightarrow> productAt B k = Some q \<Longrightarrow>
      instant (pUpdatedAt p) = instant (pUpdatedAt q) \<Longrightarrow> p = q"
  shows "\<exists>A' B'. ApplyPulled e (rowsOf B) A = (Inr (), A') \<and> ApplyPulled e' (rowsOf A) B = (Inr (), B') \<and>
     bProducts A' = bProducts B' \<and> bSales A' = bSales B' \<and> bStockEvents A' = bStockEvents B' \<and>
     (\<forall>pid. onHand pid A' = onHand pid B') \<and> Products A' = Products B'"
proof -
  have ra: "readable (bProducts A)" and rb: "readable (bProducts B)"
    and tab: "table_inv saID (bSales A) (bPendingSale A)" "table_inv saID (bSales B) (bPendingSale B)"
    "table_inv evID (bStockEvents A) (bPendingStock A)" "table_inv evID (bStockEvents B) (bPendingStock B)"
    "table_inv pID (bProducts A) (bPendingProd A)" "table_inv pID (bProducts B) (bPendingProd B)"
    using assms(1,2) by (simp_all add: store_inv_def catalogue_inv_def table_inv_def sales_inv_def stock_inv_def)
  obtain A' where runA: "ApplyPulled e (rowsOf B) A = (Inr (), A')" and txA: "applyPulledTx (rowsOf B) A = Inr A'"
    using ra assms(4,5) by (rule ApplyPulled_run)
  obtain B' where runB: "ApplyPulled e' (rowsOf A) B = (Inr (), B')" and txB: "applyPulledTx (rowsOf A) B = Inr B'"
    using rb assms(3,6) by (rule ApplyPulled_run)
  note sorted = merged_sorted [OF assms(1,4) txA] merged_sorted [OF assms(2,3) txB]
    and logs = pulled_logs [OF txA tab(2,1,4,3)] pulled_logs [OF txB tab(1,2,3,4)]
  have comm: "bGet (bSales A) ++ bGet (bSales B) = bGet (bSales B) ++ bGet (bSales A)"
    "bGet (bStockEvents A) ++ bGet (bStockEvents B) = bGet (bStockEvents B) ++ bGet (bStockEvents A)"
    using sales events by (blast intro: agree_comm)+
  have "bSales A' = bSales B'"
    by (rule bucket_ext) (use sorted comm logs in simp_all)
  moreover have "bStockEvents A' = bStockEvents B'"
    by (rule bucket_ext) (use sorted comm logs in simp_all)
  moreover have "productAt A' = productAt B'"
    using pulled_products_converge [OF txA txB tab(5,6)] products by blast
  then have "bProducts A' = bProducts B'"
    by (intro bucket_ext) (use sorted in \<open>simp_all add: fun_eq_iff productAt_bGet\<close>)
  moreover note onHand_cong [of A' B']
  ultimately show ?thesis
    using runA runB by (intro exI [of _ A'] exI [of _ B'])
      (simp add: Products_def stockTotals_def onHand_def)
qed

theorem tills_agree_witness:
  "\<exists>A' B'. ApplyPulled (demoEnv 6) (rowsOf demoSold) emptyDB = (Inr (), A') \<and>
     ApplyPulled (demoEnv 7) (rowsOf emptyDB) demoSold = (Inr (), B') \<and> bSales A' = bSales B' \<and>
     Products A' = Products B'"
proof -
  have e: "bProducts emptyDB = []" "bSales emptyDB = []" "bStockEvents emptyDB = []" "bSettings emptyDB = []"
    "bBarcodeIdx emptyDB = []" "bRefIdx emptyDB = []" "bPendingProd emptyDB = []" "bPendingSale emptyDB = []"
    "bPendingStock emptyDB = []"
    by (simp_all add: emptyDB_def)
  have "store_inv emptyDB"
    by (simp add: store_inv_def catalogue_inv_def sales_inv_def stock_inv_def table_inv_def index_sound_def
        keyed_def e)
  moreover have "catalogue_inv demoSold"
    using demoShop_inv(1) by (subst catalogue_inv_cong [of _ demoShop]) (simp_all add: demoSold_def)
  then have "store_inv demoSold"
    by (simp add: store_inv_def stock_inv_def table_inv_def keyed_def) (simp add: demoSold_def)
  moreover have "pulledOK (rowsOf emptyDB)" "pulledOK (rowsOf demoSold)"
    by (simp_all add: pulledOK_def e goodKey_def maxKeySize_def refKey_def)
  ultimately show ?thesis
    using tills_agree [of emptyDB demoSold "demoEnv 6" "demoEnv 7"]
    by (fastforce simp: e productAt_def)
qed

end
