(* ===== verification/Outbox_Correct.thy ===== *)
theory Outbox_Correct
  imports Sync_Correct
begin

text \<open>
  The outbox between two syncs: what \<open>Pending\<close> reads, what \<open>ClearPushed\<close> removes, what
  happens to a change made in between, and the link state.
\<close>

section \<open>Reading the outbox\<close>

lemma collectPending_rows:
  assumes "readable b" and "set is \<subseteq> fst ` set b" and "keyed f b"
  shows "\<exists>xs. collectPending b is = Inr xs \<and> map f xs = is \<and> (\<forall>x \<in> set xs. bGet b (f x) = Some (Json x))"
  using assms(2)
proof (induction "is")
  case (Cons i "is")
  then obtain xs where xs: "collectPending b is = Inr xs" "map f xs = is"
    "\<forall>x \<in> set xs. bGet b (f x) = Some (Json x)" by auto
  have "bGet b i \<noteq> None" using Cons.prems by (simp add: bGet_None_iff)
  then obtain x where x: "bGet b i = Some (Json x)" using readable_get [OF assms(1)] by blast
  then have "f x = i" using assms(3) by (simp add: keyed_def)
  with x xs show ?case by auto
qed simp

lemma outbox_rows:
  assumes "store_inv D"
  shows "\<exists>ps ss es. PendingProducts D = Inr ps \<and> PendingSales D = Inr ss \<and> PendingStockEvents D = Inr es \<and>
     map pID ps = map fst (bPendingProd D) \<and> map saID ss = map fst (bPendingSale D) \<and>
     map evID es = map fst (bPendingStock D) \<and>
     (\<forall>p \<in> set ps. bGet (bProducts D) (pID p) = Some (Json p)) \<and>
     (\<forall>s \<in> set ss. bGet (bSales D) (saID s) = Some (Json s)) \<and>
     (\<forall>ev \<in> set es. bGet (bStockEvents D) (evID ev) = Some (Json ev))"
proof -
  have t: "table_inv pID (bProducts D) (bPendingProd D)" "table_inv saID (bSales D) (bPendingSale D)"
    "table_inv evID (bStockEvents D) (bPendingStock D)"
    using assms by (simp_all add: store_inv_def catalogue_inv_def sales_inv_def stock_inv_def)
  have rows: "\<exists>xs. collectPending b (map fst pend) = Inr xs \<and> map f xs = map fst pend \<and>
      (\<forall>x \<in> set xs. bGet b (f x) = Some (Json x))" if "table_inv f b pend"
    for f :: "'x \<Rightarrow> bytes" and b pend
    using that collectPending_rows [of b "map fst pend" f] by (simp add: table_inv_def)
  show ?thesis
    using rows [OF t(1)] rows [OF t(2)] rows [OF t(3)]
    unfolding PendingProducts_def PendingSales_def PendingStockEvents_def by blast
qed

text \<open>
  The outbox reads: every mark has its row, so each of the three reads succeeds and
  returns the current stored value of exactly the marked ids, in id order.
\<close>

theorem Pending_reads_marked:
  assumes "store_inv D"
  shows "\<exists>ps ss es. PendingProducts D = Inr ps \<and> PendingSales D = Inr ss \<and> PendingStockEvents D = Inr es \<and>
     map pID ps = map fst (bPendingProd D) \<and> map saID ss = map fst (bPendingSale D) \<and>
     map evID es = map fst (bPendingStock D) \<and>
     (\<forall>p \<in> set ps. bGet (bProducts D) (pID p) = Some (Json p)) \<and>
     (\<forall>s \<in> set ss. bGet (bSales D) (saID s) = Some (Json s)) \<and>
     (\<forall>ev \<in> set es. bGet (bStockEvents D) (evID ev) = Some (Json ev))"
  by (rule outbox_rows [OF assms])

definition demoQueued :: db where
  "demoQueued = demoShop\<lparr>bPendingProd := [(''p'', [])]\<rparr>"

lemma demoQueued_simps [simp]:
  "bProducts demoQueued = bProducts demoShop" "bPendingProd demoQueued = [(''p'', [])]"
  "bBarcodeIdx demoQueued = bBarcodeIdx demoShop" "bSales demoQueued = []" "bStockEvents demoQueued = []"
  "bPendingSale demoQueued = []" "bPendingStock demoQueued = []" "bRefIdx demoQueued = []"
  "bSettings demoQueued = []" "bSyncState demoQueued = []"
  by (simp_all add: demoQueued_def)

lemma demoQueued_inv [simp]: "store_inv demoQueued"
proof -
  have "catalogue_inv demoQueued"
    using demoShop_inv(1) by (simp add: catalogue_inv_def table_inv_def index_sound_def bsorted_Cons)
  then show ?thesis
    by (simp add: store_inv_def sales_inv_def stock_inv_def table_inv_def keyed_def)
qed

theorem Pending_reads_marked_witness:
  "\<exists>ps. PendingProducts demoQueued = Inr ps \<and> map pID ps = [''p'']"
  using Pending_reads_marked [OF demoQueued_inv] by auto

section \<open>Clearing\<close>

lemma map_of_fold_bDelete [simp]: "map_of (fold bDelete ks b) = (\<lambda>k. if k \<in> set ks then None else map_of b k)"
  by (induction ks arbitrary: b) (auto simp: fun_eq_iff)

lemma keys_fold_bDelete [simp]: "fst ` set (fold bDelete ks b) = fst ` set b - set ks"
  by (induction ks arbitrary: b) auto

lemma bsorted_fold_bDelete [simp]: "bsorted b \<Longrightarrow> bsorted (fold bDelete ks b)"
  by (induction ks arbitrary: b) auto

lemma putSync_one: "goodKey k \<Longrightarrow> putSync [(k, v)] D = Inr (D\<lparr>bSyncState := bput k v (bSyncState D)\<rparr>)"
  by (simp add: putSync_def putAll_def)

lemma clearPushedTx_eq:
  "clearPushedTx ps ss es at b D = Inr
     (D\<lparr>bPendingProd := fold bDelete ps (bPendingProd D), bPendingSale := fold bDelete ss (bPendingSale D),
        bPendingStock := fold bDelete es (bPendingStock D),
        bSyncState := (if b \<and> (\<exists>t. syncStamp (bSyncState D) kSettingsDue = Some t \<and> \<not> tAfter t at)
                       then bput kSettingsDue (Text '''') (bSyncState D) else bSyncState D)\<rparr>)"
  by (auto simp: clearPushedTx_def Let_def clearSettings_def putSync_one split: option.splits)

lemma ClearPushed_ok:
  "eIO e = None \<Longrightarrow> ClearPushed e ps ss es at b D = (Inr (),
     D\<lparr>bPendingProd := fold bDelete ps (bPendingProd D), bPendingSale := fold bDelete ss (bPendingSale D),
        bPendingStock := fold bDelete es (bPendingStock D),
        bSyncState := (if b \<and> (\<exists>t. syncStamp (bSyncState D) kSettingsDue = Some t \<and> \<not> tAfter t at)
                       then bput kSettingsDue (Text '''') (bSyncState D) else bSyncState D)\<rparr>)"
  by (simp add: ClearPushed_def dbExec_eq_Inr clearPushedTx_eq)



text \<open>
  C25. The product outbox has no such protection. An edit that lands after the push has read
  the outbox and before it clears it is stored but loses its mark: the product holds the
  edited value and is no longer queued, so the edit is not pushed until a later change.
\<close>

theorem edit_during_push_unqueued:
  assumes "UpdateProduct e i d D = (Inr p', D1)" and "i \<in> set ids" and "eIO e' = None"
  shows "\<exists>p D2. ClearPushed e' ids ss es at b D1 = (Inr (), D2) \<and>
     bGet (bProducts D) i = Some (Json p) \<and>
     bGet (bProducts D2) i = Some (Json (editedProduct e d p)) \<and>
     bGet (bPendingProd D1) i = Some [] \<and> bGet (bPendingProd D2) i = None"
proof -
  have tx: "updateProductTx e i d D = Inr (p', D1)"
    using assms(1) by (simp add: UpdateProduct_def dbUpdate_eq_Inr)
  then obtain p where p: "bGet (bProducts D) i = Some (Json p)"
    and P: "bProducts D1 = bput i (Json (editedProduct e d p)) (bProducts D)"
    and M: "bPendingProd D1 = bput i [] (bPendingProd D)"
    by (rule updateProductTx_fields)
  show ?thesis
    using p assms(2) by (simp add: ClearPushed_ok [OF assms(3)] P M)
qed

theorem edit_during_push_unqueued_witness:
  "\<exists>p' D1 D2. UpdateProduct (demoEnv 2) ''p'' demoDraft demoQueued = (Inr p', D1) \<and>
     ClearPushed (demoEnv 3) [''p''] [] [] zeroTime False D1 = (Inr (), D2) \<and>
     bGet (bProducts D2) ''p'' = Some (Json (editedProduct (demoEnv 2) demoDraft demoProduct)) \<and>
     bGet (bPendingProd D2) ''p'' = None"
proof -
  have "\<not> barcodeOfOther (dBarcode demoDraft) ''p'' (bBarcodeIdx demoQueued)"
    by (simp add: barcodeOfOther_def)
  then obtain p' D1 where "updateProductTx (demoEnv 2) ''p'' demoDraft demoQueued = Inr (p', D1)"
    using updateProductTx_succeeds [of demoQueued "''p''" demoProduct "demoEnv 2" demoDraft] by auto
  then have run: "UpdateProduct (demoEnv 2) ''p'' demoDraft demoQueued = (Inr p', D1)"
    by (simp add: UpdateProduct_def dbUpdate_ok)
  have "bGet (bProducts demoQueued) ''p'' = Some (Json demoProduct)" by simp
  with run edit_during_push_unqueued [OF run, of "[''p'']" "demoEnv 3" "[]" "[]" zeroTime False]
  show ?thesis by fastforce
qed

section \<open>The link\<close>

lemma putAll_succeeds:
  "(\<And>k v. (k, v) \<in> set kvs \<Longrightarrow> goodKey k) \<Longrightarrow> putAll kvs b = Inr (fold (\<lambda>(k, v). bput k v) kvs b)"
proof (induction kvs arbitrary: b)
  case (Cons kv kvs)
  obtain k v where kv: "kv = (k, v)" by (cases kv)
  with Cons.prems have "goodKey k" by auto
  moreover have "putAll kvs b = Inr (fold (\<lambda>(k, v). bput k v) kvs b)" for b
    using Cons.prems by (intro Cons.IH) auto
  ultimately show ?case by (simp add: kv putAll_def)
qed (simp add: putAll_def)

text \<open>
  Linking stores the shop, the account and the session and clears the last error;
  unlinking forgets them all and the cursor. Neither touches the outbox, so what was made
  while standalone is still queued; linking keeps the cursor the device had.
\<close>

theorem Link_Unlink_state:
  assumes "eIO e = None"
  shows "\<exists>D1 D2. Link e base shop email token D = (Inr (), D1) \<and>
     SyncStateOf D1 = (SyncStateOf D)\<lparr>syLinked := True, syBaseURL := base, syShopID := shop,
        syEmail := email, syToken := token, syLastError := ''''\<rparr> \<and>
     Unlink e D1 = (Inr (), D2) \<and>
     SyncStateOf D2 = \<lparr>syLinked = False, syBaseURL = '''', syShopID = '''', syEmail = '''', syToken = '''',
        syCursor = 0, syLastSync = syLastSync (SyncStateOf D), syLastError = ''''\<rparr> \<and>
     bPendingProd D2 = bPendingProd D \<and> bPendingSale D2 = bPendingSale D \<and>
     bPendingStock D2 = bPendingStock D \<and> PendingSettings D2 = PendingSettings D"
proof -
  have ne: "kLinked \<noteq> kBaseURL" "kLinked \<noteq> kShopID" "kLinked \<noteq> kEmail" "kLinked \<noteq> kToken" "kLinked \<noteq> kLastError"
    "kLinked \<noteq> kCursor" "kLinked \<noteq> kLastSync" "kLinked \<noteq> kSettingsDue"
    "kBaseURL \<noteq> kShopID" "kBaseURL \<noteq> kEmail" "kBaseURL \<noteq> kToken" "kBaseURL \<noteq> kLastError" "kBaseURL \<noteq> kCursor"
    "kBaseURL \<noteq> kLastSync" "kBaseURL \<noteq> kSettingsDue"
    "kShopID \<noteq> kEmail" "kShopID \<noteq> kToken" "kShopID \<noteq> kLastError" "kShopID \<noteq> kCursor" "kShopID \<noteq> kLastSync"
    "kShopID \<noteq> kSettingsDue"
    "kEmail \<noteq> kToken" "kEmail \<noteq> kLastError" "kEmail \<noteq> kCursor" "kEmail \<noteq> kLastSync" "kEmail \<noteq> kSettingsDue"
    "kToken \<noteq> kLastError" "kToken \<noteq> kCursor" "kToken \<noteq> kLastSync" "kToken \<noteq> kSettingsDue"
    "kLastError \<noteq> kCursor" "kLastError \<noteq> kLastSync" "kLastError \<noteq> kSettingsDue"
    "kCursor \<noteq> kLastSync" "kCursor \<noteq> kSettingsDue" "kLastSync \<noteq> kSettingsDue"
    by (simp_all add: sync_keys)
  define on where "on = [(kLinked, Text ''yes''), (kBaseURL, Text base), (kShopID, Text shop),
              (kEmail, Text email), (kToken, Text token), (kLastError, Text '''')]"
  define off where "off = map (\<lambda>k. (k, Text '''')) [kLinked, kBaseURL, kShopID, kEmail, kToken, kCursor, kLastError]"
  define D1 where "D1 = D\<lparr>bSyncState := fold (\<lambda>(k, v). bput k v) on (bSyncState D)\<rparr>"
  define D2 where "D2 = D1\<lparr>bSyncState := fold (\<lambda>(k, v). bput k v) off (bSyncState D1)\<rparr>"
  have "linkTx base shop email token D = Inr D1"
    unfolding linkTx_def D1_def on_def by (subst putAll_succeeds) auto
  then have 1: "Link e base shop email token D = (Inr (), D1)"
    using assms by (simp add: Link_def dbExec_eq_Inr)
  have "unlinkTx D1 = Inr D2"
    unfolding unlinkTx_def D2_def off_def by (subst putAll_succeeds) auto
  then have 2: "Unlink e D1 = (Inr (), D2)"
    using assms by (simp add: Unlink_def dbExec_eq_Inr)
  have m1: "bGet (bSyncState D1) = bGet (bSyncState D) ++ map_of (rev on)"
    by (simp add: D1_def map_of_fold_bput)
  have m2: "bGet (bSyncState D2) = bGet (bSyncState D1) ++ map_of (rev off)"
    by (simp add: D2_def map_of_fold_bput)
  have t1: "syncText (bSyncState D1) kLinked = ''yes''" "syncText (bSyncState D1) kBaseURL = base"
    "syncText (bSyncState D1) kShopID = shop" "syncText (bSyncState D1) kEmail = email"
    "syncText (bSyncState D1) kToken = token" "syncText (bSyncState D1) kLastError = ''''"
    "syncText (bSyncState D1) kCursor = syncText (bSyncState D) kCursor"
    "syncStamp (bSyncState D1) kLastSync = syncStamp (bSyncState D) kLastSync"
    "syncStamp (bSyncState D1) kSettingsDue = syncStamp (bSyncState D) kSettingsDue"
    unfolding syncText_def syncStamp_def m1 on_def using ne by (simp_all add: ne [symmetric])
  have t2: "syncText (bSyncState D2) kLinked = ''''" "syncText (bSyncState D2) kBaseURL = ''''"
    "syncText (bSyncState D2) kShopID = ''''" "syncText (bSyncState D2) kEmail = ''''"
    "syncText (bSyncState D2) kToken = ''''" "syncText (bSyncState D2) kLastError = ''''"
    "syncText (bSyncState D2) kCursor = ''''"
    "syncStamp (bSyncState D2) kLastSync = syncStamp (bSyncState D1) kLastSync"
    "syncStamp (bSyncState D2) kSettingsDue = syncStamp (bSyncState D1) kSettingsDue"
    unfolding syncText_def syncStamp_def m2 off_def using ne by (simp_all add: ne [symmetric])
  have zero: "fst (parseInt 64 '''') = 0" by (simp add: parseInt_def split_sign_def)
  have s1: "SyncStateOf D1 = (SyncStateOf D)\<lparr>syLinked := True, syBaseURL := base, syShopID := shop,
        syEmail := email, syToken := token, syLastError := ''''\<rparr>"
    by (simp add: SyncStateOf_def Let_def t1)
  have s2: "SyncStateOf D2 = \<lparr>syLinked = False, syBaseURL = '''', syShopID = '''', syEmail = '''', syToken = '''',
        syCursor = 0, syLastSync = syLastSync (SyncStateOf D), syLastError = ''''\<rparr>"
    by (simp add: SyncStateOf_def Let_def t2 t1 zero)
  have "Settings D2 = Settings D" by (simp add: Settings_def D2_def D1_def)
  then have "PendingSettings D2 = PendingSettings D" by (simp add: PendingSettings_def t2 t1 Let_def cong: option.case_cong)
  with 1 2 s1 s2 show ?thesis
    by (intro exI [of _ D1] exI [of _ D2]) (simp add: D2_def D1_def)
qed

theorem Link_Unlink_state_witness:
  "\<exists>D1. Link (demoEnv 1) ''https://c'' ''shop'' ''a@b'' ''tok'' demoQueued = (Inr (), D1) \<and>
     syToken (SyncStateOf D1) = ''tok''"
  using Link_Unlink_state [of "demoEnv 1" "''https://c''" "''shop''" "''a@b''" "''tok''" demoQueued] by fastforce

text \<open>
  The cursor and the outcome of a sync read back: any 64-bit cursor survives its decimal
  text, and the recorded time is the same instant in UTC.
\<close>

theorem SyncState_reads_back:
  assumes "eIO e = None" and "fits64 c"
  shows "\<exists>D1 D2. SetCursor e c D = (Inr (), D1) \<and> SyncStateOf D1 = (SyncStateOf D)\<lparr>syCursor := c\<rparr> \<and>
     SetSyncResult e at msg D1 = (Inr (), D2) \<and>
     SyncStateOf D2 = (SyncStateOf D)\<lparr>syCursor := c, syLastSync := tUTC at, syLastError := msg\<rparr>"
proof -
  have ne: "kLinked \<noteq> kCursor" "kBaseURL \<noteq> kCursor" "kShopID \<noteq> kCursor" "kEmail \<noteq> kCursor" "kToken \<noteq> kCursor"
    "kLastSync \<noteq> kCursor" "kLastError \<noteq> kCursor" "kLinked \<noteq> kLastSync" "kBaseURL \<noteq> kLastSync"
    "kShopID \<noteq> kLastSync" "kEmail \<noteq> kLastSync" "kToken \<noteq> kLastSync" "kLastError \<noteq> kLastSync"
    "kLinked \<noteq> kLastError" "kBaseURL \<noteq> kLastError" "kShopID \<noteq> kLastError" "kEmail \<noteq> kLastError"
    "kToken \<noteq> kLastError"
    by (simp_all add: sync_keys)
  define D1 where "D1 = D\<lparr>bSyncState := bput kCursor (Text (itoa c)) (bSyncState D)\<rparr>"
  define D2 where "D2 = D1\<lparr>bSyncState := bput kLastError (Text msg) (bput kLastSync (Stamp (tUTC at)) (bSyncState D1))\<rparr>"
  have 1: "SetCursor e c D = (Inr (), D1)"
    using assms(1) by (simp add: SetCursor_def dbExec_eq_Inr putSync_one D1_def)
  have 2: "SetSyncResult e at msg D1 = (Inr (), D2)"
    using assms(1) by (simp add: SetSyncResult_def dbExec_eq_Inr putSync_def putAll_def D2_def)
  have p: "parseInt 64 (itoa c) = (c, True)"
    using assms(2) by (intro parseInt_itoa) (simp_all add: fits64_def)
  have "SyncStateOf D1 = (SyncStateOf D)\<lparr>syCursor := c\<rparr>"
    by (simp add: SyncStateOf_def Let_def D1_def syncText_def syncStamp_def ne p)
  moreover have "SyncStateOf D2 = (SyncStateOf D1)\<lparr>syLastSync := tUTC at, syLastError := msg\<rparr>"
    by (simp add: SyncStateOf_def Let_def D2_def syncText_def syncStamp_def ne ne [symmetric])
  ultimately show ?thesis
    using 1 2 by (intro exI [of _ D1] exI [of _ D2]) simp
qed

theorem SyncState_reads_back_witness:
  "\<exists>D1. SetCursor (demoEnv 1) 42 demoShop = (Inr (), D1) \<and> syCursor (SyncStateOf D1) = 42"
  using SyncState_reads_back [of "demoEnv 1" 42 demoShop zeroTime "[]"] by (fastforce simp: fits64_def)

end
