(* ===== verification/Engine.thy ===== *)
theory Engine
  imports Cloud_Client Outbox_Correct
begin

text \<open>
  \<^verbatim>\<open>internal/cloudsync/engine.go\<close>: one sync cycle, push then pull. The Go interfaces
  \<^verbatim>\<open>SyncStore\<close> and \<^verbatim>\<open>SyncClient\<close> are records of functions; the engine is defined over any
  store of that shape and any client, and \<open>boltSync\<close> is the store the agent runs on. A store
  call that commits takes the environment of its transaction.
\<close>

section \<open>The code\<close>

record 's SyncStore =
  ssSyncState :: "'s \<Rightarrow> err + SyncState"
  ssSetCursor :: "env \<Rightarrow> int \<Rightarrow> 's \<Rightarrow> (err + unit) \<times> 's"
  ssSetSyncResult :: "env \<Rightarrow> gotime \<Rightarrow> string \<Rightarrow> 's \<Rightarrow> (err + unit) \<times> 's"
  ssPendingProducts :: "'s \<Rightarrow> err + Product list"
  ssPendingSales :: "'s \<Rightarrow> err + Sale list"
  ssPendingStockEvents :: "'s \<Rightarrow> err + StockEvent list"
  ssPendingSettings :: "'s \<Rightarrow> err + ((string \<rightharpoonup> string) \<times> gotime) option"
  ssClearPushed :: "env \<Rightarrow> string list \<Rightarrow> string list \<Rightarrow> string list \<Rightarrow> gotime \<Rightarrow> bool \<Rightarrow> 's \<Rightarrow> (err + unit) \<times> 's"
  ssApplyPulled :: "env \<Rightarrow> Pulled \<Rightarrow> 's \<Rightarrow> (err + unit) \<times> 's"

record 'w SyncClient =
  scPush :: "string \<Rightarrow> string \<Rightarrow> PushPayload \<Rightarrow> 'w \<Rightarrow> (syncErr + PushResult) \<times> 'w"
  scPull :: "string \<Rightarrow> string \<Rightarrow> int \<Rightarrow> 'w \<Rightarrow> (syncErr + PullResult) \<times> 'w"

definition boltSync :: "db SyncStore" where
  "boltSync = \<lparr>ssSyncState = (\<lambda>D. Inr (SyncStateOf D)), ssSetCursor = SetCursor,
     ssSetSyncResult = SetSyncResult, ssPendingProducts = PendingProducts,
     ssPendingSales = PendingSales, ssPendingStockEvents = PendingStockEvents,
     ssPendingSettings = (\<lambda>D. Inr (PendingSettings D)), ssClearPushed = ClearPushed,
     ssApplyPulled = ApplyPulled\<rparr>"

definition httpClient :: "'w transport \<Rightarrow> 'w SyncClient" where
  "httpClient tr = \<lparr>scPush = clientPush tr, scPull = clientPull tr\<rparr>"

text \<open>The four environments of a cycle: clearing, applying, the cursor, the outcome.\<close>

record cycle =
  cyClear :: env
  cyApply :: env
  cyCursor :: env
  cyResult :: env

text \<open>The reads of \<open>push\<close>, in order; the settings come with their time when dirty.\<close>

definition readOutbox :: "'s SyncStore \<Rightarrow> 's \<Rightarrow>
    err + Product list \<times> Sale list \<times> StockEvent list \<times> ((string \<rightharpoonup> string) \<times> gotime) option" where
  "readOutbox S s =
     rbind (ssPendingProducts S s) (\<lambda>products.
     rbind (ssPendingSales S s) (\<lambda>sales.
     rbind (ssPendingStockEvents S s) (\<lambda>stockEvents.
     rbind (ssPendingSettings S s) (\<lambda>settings.
       Inr (products, sales, stockEvents, settings)))))"

definition payloadOf ::
    "Product list \<Rightarrow> Sale list \<Rightarrow> StockEvent list \<Rightarrow> ((string \<rightharpoonup> string) \<times> gotime) option \<Rightarrow> PushPayload" where
  "payloadOf products sales stockEvents settings =
     \<lparr>ppProducts = products, ppSales = sales, ppStockEvents = stockEvents,
      ppSettings = map_option fst settings, ppSettingsAt = map_option snd settings\<rparr>"

definition push :: "'s SyncStore \<Rightarrow> 'w SyncClient \<Rightarrow> env \<Rightarrow> SyncState \<Rightarrow> 's \<Rightarrow> 'w \<Rightarrow> syncErr option \<times> 's \<times> 'w" where
  "push S C e st s w =
     (case readOutbox S s of
        Inl x \<Rightarrow> (Some (StoreErr x), s, w)
      | Inr (products, sales, stockEvents, settings) \<Rightarrow>
          if products = [] \<and> sales = [] \<and> stockEvents = [] \<and> settings = None then (None, s, w)
          else (case scPush C (syBaseURL st) (syToken st) (payloadOf products sales stockEvents settings) w of
              (Inl x, w') \<Rightarrow> (Some x, s, w')
            | (Inr _, w') \<Rightarrow>
                (case ssClearPushed S e (map pID products) (map saID sales) (map evID stockEvents)
                        (case settings of Some (_, t) \<Rightarrow> t | None \<Rightarrow> zeroTime) (settings \<noteq> None) s of
                   (Inl x, s') \<Rightarrow> (Some (StoreErr x), s', w')
                 | (Inr _, s') \<Rightarrow> (None, s', w'))))"

definition pull :: "'s SyncStore \<Rightarrow> 'w SyncClient \<Rightarrow> env \<Rightarrow> env \<Rightarrow> SyncState \<Rightarrow> 's \<Rightarrow> 'w \<Rightarrow> syncErr option \<times> 's \<times> 'w" where
  "pull S C e e' st s w =
     (case scPull C (syBaseURL st) (syToken st) (syCursor st) w of
        (Inl x, w') \<Rightarrow> (Some x, s, w')
      | (Inr res, w') \<Rightarrow>
          (case ssApplyPulled S e (puPulled res) s of
             (Inl x, s') \<Rightarrow> (Some (StoreErr x), s', w')
           | (Inr _, s') \<Rightarrow>
               (case ssSetCursor S e' (puCursor res) s' of
                  (Inl x, s'') \<Rightarrow> (Some (StoreErr x), s'', w')
                | (Inr _, s'') \<Rightarrow> (None, s'', w'))))"

definition recordOutcome :: "'s SyncStore \<Rightarrow> env \<Rightarrow> syncErr option \<Rightarrow> 's \<Rightarrow> 's" where
  "recordOutcome S e err s =
     snd (ssSetSyncResult S e (eNow e) (case err of None \<Rightarrow> '''' | Some x \<Rightarrow> syncErrText x) s)"

definition SyncOnce :: "'s SyncStore \<Rightarrow> 'w SyncClient \<Rightarrow> cycle \<Rightarrow> 's \<Rightarrow> 'w \<Rightarrow> syncErr option \<times> 's \<times> 'w" where
  "SyncOnce S C cy s w =
     (case ssSyncState S s of
        Inl x \<Rightarrow> (Some (StoreErr x), s, w)
      | Inr st \<Rightarrow>
          if \<not> syLinked st then (None, s, w)
          else (case push S C (cyClear cy) st s w of
              (Some x, s1, w1) \<Rightarrow> (Some x, recordOutcome S (cyResult cy) (Some x) s1, w1)
            | (None, s1, w1) \<Rightarrow>
                (case ssSyncState S s1 of
                   Inl x \<Rightarrow> (Some (StoreErr x), s1, w1)
                 | Inr st1 \<Rightarrow>
                     (case pull S C (cyApply cy) (cyCursor cy) st1 s1 w1 of
                        (Some x, s2, w2) \<Rightarrow> (Some x, recordOutcome S (cyResult cy) (Some x) s2, w2)
                      | (None, s2, w2) \<Rightarrow> (None, recordOutcome S (cyResult cy) None s2, w2)))))"

end
