(* ===== verification/Till.thy ===== *)
theory Till
  imports Engine
begin

text \<open>
  The whole device: the store under the cashier's and the owner's operations while a sync
  cycle runs in the background. The cycle's store calls are separate transactions, so any
  local operation may fall between two of them; \<open>till_step\<close> interleaves both freely. What the
  cloud holds is the ghost pair of the sales and stock events it has accepted or sent.
\<close>

section \<open>Local operations keep the invariant and only add rows\<close>

definition pend :: "bytes bucket \<Rightarrow> bytes set" where
  "pend b = fst ` set b"

lemma pend_bput [simp]: "pend (bput k v b) = insert k (pend b)"
  by (simp add: pend_def)

text \<open>No sale or stock event is dropped or altered, and a new one is queued.\<close>

definition grows :: "db \<Rightarrow> db \<Rightarrow> bool" where
  "grows D D' \<longleftrightarrow>
     (\<forall>k c. bGet (bSales D) k = Some c \<longrightarrow> bGet (bSales D') k = Some c) \<and>
     (\<forall>k c. bGet (bStockEvents D) k = Some c \<longrightarrow> bGet (bStockEvents D') k = Some c) \<and>
     pend (bPendingSale D) \<subseteq> pend (bPendingSale D') \<and> pend (bPendingStock D) \<subseteq> pend (bPendingStock D') \<and>
     (\<forall>k c. bGet (bSales D') k = Some c \<longrightarrow> bGet (bSales D) k = Some c \<or> k \<in> pend (bPendingSale D')) \<and>
     (\<forall>k c. bGet (bStockEvents D') k = Some c \<longrightarrow> bGet (bStockEvents D) k = Some c \<or> k \<in> pend (bPendingStock D'))"

definition good :: "db \<Rightarrow> db \<Rightarrow> bool" where
  "good D D' \<longleftrightarrow> store_inv D' \<and> grows D D'"

lemma grows_same:
  "bSales D' = bSales D \<Longrightarrow> bStockEvents D' = bStockEvents D \<Longrightarrow> bPendingSale D' = bPendingSale D \<Longrightarrow>
   bPendingStock D' = bPendingStock D \<Longrightarrow> grows D D'"
  by (simp add: grows_def)

lemma grows_event:
  assumes "bGet (bStockEvents D) k = None" and "bStockEvents D' = bput k c (bStockEvents D)"
    and "bPendingStock D' = bput k [] (bPendingStock D)"
    and "bSales D' = bSales D" and "bPendingSale D' = bPendingSale D"
  shows "grows D D'"
  using assms by (auto simp: grows_def)

lemma grows_sale:
  assumes "bGet (bSales D) k = None" and "bSales D' = bput k c (bSales D)"
    and "bPendingSale D' = bput k [] (bPendingSale D)"
    and "bStockEvents D' = bStockEvents D" and "bPendingStock D' = bPendingStock D"
  shows "grows D D'"
  using assms by (auto simp: grows_def)

lemma good_refl: "store_inv D \<Longrightarrow> good D D"
  by (simp add: good_def grows_same)

lemma stock_inv_event:
  assumes "stock_inv D" and "evID ev = k" and "bStockEvents D' = bput k (Json ev) (bStockEvents D)"
    and "bPendingStock D' = bput k [] (bPendingStock D)"
  shows "stock_inv D'"
  using assms table_inv_put(2) [of evID "bStockEvents D" "bPendingStock D" ev "[]"] by (simp add: stock_inv_def)

lemma sales_inv_cong:
  "bSales D' = bSales D \<Longrightarrow> bPendingSale D' = bPendingSale D \<Longrightarrow> bRefIdx D' = bRefIdx D \<Longrightarrow>
   sales_inv D' = sales_inv D"
  by (simp add: sales_inv_def)

lemma stock_inv_cong:
  "bStockEvents D' = bStockEvents D \<Longrightarrow> bPendingStock D' = bPendingStock D \<Longrightarrow> stock_inv D' = stock_inv D"
  by (simp add: stock_inv_def)

lemma ids_fields [simp]:
  "evID (initialEvent e d) = eEventID e" "evID (correctionEvent e i delta) = eEventID e"
  by (simp_all add: initialEvent_def correctionEvent_def)

lemma addProductTx_good:
  assumes tx: "addProductTx e d pending D = Inr (p, D')" and inv: "store_inv D"
    and fresh: "bGet (bProducts D) (eRowID e) = None" "bGet (bStockEvents D) (eEventID e) = None"
  shows "good D D'"
proof -
  note f = addProductTx_fields [OF tx]
  have i: "catalogue_inv D" "sales_inv D" "stock_inv D" "bsorted (bSettings D)"
    using inv by (simp_all add: store_inv_def)
  have c: "catalogue_inv D'" using addProductTx_inv [OF tx i(1) fresh(1)] .
  have s: "sales_inv D'" using i(2) f by (subst sales_inv_cong [of _ D])
  have b: "bsorted (bSettings D')" using i(4) by (simp add: f)
  have "stock_inv D' \<and> grows D D'"
  proof (cases "pending \<and> dTrackStock d \<and> dStock d \<noteq> 0")
    case True
    then have e: "bStockEvents D' = bput (eEventID e) (Json (initialEvent e d)) (bStockEvents D)"
      "bPendingStock D' = bput (eEventID e) [] (bPendingStock D)"
      using f(8,9) by (simp_all only: simp_thms if_True)
    show ?thesis
      using stock_inv_event [OF i(3) _ e] grows_event [OF fresh(2) e f(10,15)] by simp
  next
    case False
    then have e: "bStockEvents D' = bStockEvents D" "bPendingStock D' = bPendingStock D"
      using f(8,9) by (simp_all only: simp_thms if_False)
    show ?thesis
      using i(3) stock_inv_cong [OF e] grows_same [OF f(10) e(1) f(15) e(2)] by simp
  qed
  with c s b show ?thesis by (simp add: good_def store_inv_def)
qed

lemma updateProductTx_good:
  assumes tx: "updateProductTx e i d D = Inr (p', D')" and inv: "store_inv D"
    and fresh: "bGet (bStockEvents D) (eEventID e) = None"
  shows "good D D'"
proof -
  have iv: "catalogue_inv D" "sales_inv D" "stock_inv D" "bsorted (bSettings D)"
    using inv by (simp_all add: store_inv_def)
  obtain p where E: "bStockEvents D' = (let delta = wrapI (dStock d - wrapI (onHand i D)) in
           if dTrackStock d \<and> delta \<noteq> 0
           then bput (eEventID e) (Json (correctionEvent e i delta)) (bStockEvents D) else bStockEvents D)"
    and M: "bPendingStock D' = (if dTrackStock d \<and> wrapI (dStock d - wrapI (onHand i D)) \<noteq> 0
           then bput (eEventID e) [] (bPendingStock D) else bPendingStock D)"
    and f: "bSales D' = bSales D" "bSettings D' = bSettings D" "bRefIdx D' = bRefIdx D"
      "bPendingSale D' = bPendingSale D"
    using tx by (rule updateProductTx_fields)
  have c: "catalogue_inv D'" using updateProductTx_inv [OF tx iv(1)] .
  have s: "sales_inv D'" using iv(2) f by (subst sales_inv_cong [of _ D])
  let ?d = "wrapI (dStock d - wrapI (onHand i D))"
  have "stock_inv D' \<and> grows D D'"
  proof (cases "dTrackStock d \<and> ?d \<noteq> 0")
    case True
    then have e: "bStockEvents D' = bput (eEventID e) (Json (correctionEvent e i ?d)) (bStockEvents D)"
      "bPendingStock D' = bput (eEventID e) [] (bPendingStock D)"
      using E M by (simp_all only: simp_thms if_True Let_def)
    show ?thesis
      using stock_inv_event [OF iv(3) _ e] grows_event [OF fresh e f(1,4)] by simp
  next
    case False
    then have e: "bStockEvents D' = bStockEvents D" "bPendingStock D' = bPendingStock D"
      using E M by (simp_all only: simp_thms if_False Let_def)
    show ?thesis
      using iv(3) stock_inv_cong [OF e] grows_same [OF f(1) e(1) f(4) e(2)] by simp
  qed
  with c s iv(4) f show ?thesis by (simp add: good_def store_inv_def)
qed

lemma deleteProductTx_good:
  assumes tx: "deleteProductTx e i D = Inr D'" and inv: "store_inv D"
  shows "good D D'"
proof -
  have iv: "catalogue_inv D" "sales_inv D" "stock_inv D" "bsorted (bSettings D)"
    using inv by (simp_all add: store_inv_def)
  have f: "bSales D' = bSales D" "bSettings D' = bSettings D" "bRefIdx D' = bRefIdx D"
    "bPendingSale D' = bPendingSale D" "bStockEvents D' = bStockEvents D" "bPendingStock D' = bPendingStock D"
    using tx unfolding deleteProductTx_eq_Inr by auto
  have "sales_inv D'" using iv(2) f by (subst sales_inv_cong [of _ D])
  moreover have "stock_inv D'" using iv(3) f by (subst stock_inv_cong [of _ D])
  ultimately show ?thesis
    using deleteProductTx_inv [OF tx iv(1)] iv(4) f grows_same [of D' D] by (simp add: good_def store_inv_def)
qed

lemma restockTx_good:
  assumes tx: "restockTx e i q D = Inr (p, D')" and inv: "store_inv D"
    and fresh: "bGet (bStockEvents D) (eEventID e) = None"
  shows "good D D'"
proof -
  have iv: "catalogue_inv D" "sales_inv D" "stock_inv D" "bsorted (bSettings D)"
    using inv by (simp_all add: store_inv_def)
  let ?ev = "\<lparr>evID = eEventID e, evProductID = i, evDelta = q, evReason = StockRestock, evCreatedAt = eNow e\<rparr>"
  obtain r oh D1 where a: "appendStockEvent ?ev D = Inr D1"
    and D': "D' = logged (eNow e) (eAuditID e) actStockChanged (restockDetail r q oh) D1"
    using tx unfolding restockTx_eq_Inr Let_def by blast
  have D1: "D1 = D\<lparr>bStockEvents := bput (eEventID e) (Json ?ev) (bStockEvents D),
            bPendingStock := bput (eEventID e) [] (bPendingStock D)\<rparr>"
    using a by (simp add: appendStockEvent_eq_Inr)
  have e: "bStockEvents D' = bput (eEventID e) (Json ?ev) (bStockEvents D)"
    "bPendingStock D' = bput (eEventID e) [] (bPendingStock D)"
    and f: "bSales D' = bSales D" "bPendingSale D' = bPendingSale D" "bRefIdx D' = bRefIdx D"
      "bSettings D' = bSettings D" "bProducts D' = bProducts D" "bPendingProd D' = bPendingProd D"
      "bBarcodeIdx D' = bBarcodeIdx D"
    by (simp_all add: D' D1)
  have "catalogue_inv D'" using iv(1) f by (subst catalogue_inv_cong [of _ D])
  moreover have "sales_inv D'" using iv(2) f by (subst sales_inv_cong [of _ D])
  moreover have "stock_inv D'" using stock_inv_event [OF iv(3) _ e] by simp
  ultimately show ?thesis
    using iv(4) f grows_event [OF fresh e f(1,2)] by (simp add: good_def store_inv_def)
qed

lemma createSaleTx_good:
  assumes tx: "createSaleTx e inp D = Inr (s, D')" and inv: "store_inv D"
    and fresh: "bGet (bSales D) (eRowID e) = None" "CHR 0x00 \<notin> set (eRowID e)"
  shows "good D D'"
proof -
  have iv: "catalogue_inv D" "sales_inv D" "stock_inv D" "bsorted (bSettings D)"
    using inv by (simp_all add: store_inv_def)
  have s: "s = saleOf e inp D" and D': "D' = D\<lparr>bSales := bput (eRowID e) (Json s) (bSales D),
            bRefIdx := (if inReference inp = [] then bRefIdx D
                        else bput (refKey (inReference inp) (eRowID e)) [] (bRefIdx D)),
            bPendingSale := bput (eRowID e) [] (bPendingSale D)\<rparr>"
    using tx unfolding createSaleTx_eq_Inr by blast+
  have id: "saID s = eRowID e" "saReference s = inReference inp" by (simp_all add: s saleOf_def)
  have "sales_inv D'"
    using iv(2) fresh by (intro sales_inv_new [of D s D' "[]"]) (simp_all add: D' id)
  moreover have "catalogue_inv D'" using iv(1) by (subst catalogue_inv_cong [of _ D]) (simp_all add: D')
  moreover have "stock_inv D'" using iv(3) by (subst stock_inv_cong [of _ D]) (simp_all add: D')
  moreover have "grows D D'" using fresh(1) by (rule grows_sale) (simp_all add: D')
  ultimately show ?thesis using iv(4) by (simp add: good_def store_inv_def D')
qed

text \<open>Operations on settings, the logo and the link touch none of the tables.\<close>

definition tables_same :: "db \<Rightarrow> db \<Rightarrow> bool" where
  "tables_same D D' \<longleftrightarrow> bProducts D' = bProducts D \<and> bSales D' = bSales D \<and>
     bStockEvents D' = bStockEvents D \<and> bBarcodeIdx D' = bBarcodeIdx D \<and> bRefIdx D' = bRefIdx D \<and>
     bPendingProd D' = bPendingProd D \<and> bPendingSale D' = bPendingSale D \<and>
     bPendingStock D' = bPendingStock D"

lemma tables_same_good:
  assumes "tables_same D D'" and "store_inv D" and "bsorted (bSettings D')"
  shows "good D D'"
proof -
  have t: "bProducts D' = bProducts D" "bSales D' = bSales D" "bStockEvents D' = bStockEvents D"
    "bBarcodeIdx D' = bBarcodeIdx D" "bRefIdx D' = bRefIdx D" "bPendingProd D' = bPendingProd D"
    "bPendingSale D' = bPendingSale D" "bPendingStock D' = bPendingStock D"
    using assms(1) by (simp_all add: tables_same_def)
  have "store_inv D'"
    using assms(2,3) catalogue_inv_cong [OF t(1,6,4)] sales_inv_cong [OF t(2,7,5)] stock_inv_cong [OF t(3,8)]
    by (simp add: store_inv_def)
  then show ?thesis using grows_same [OF t(2,3,7,8)] by (simp add: good_def)
qed

lemma setSettingTx_good:
  assumes "setSettingTx e k v D = Inr D'" and "store_inv D"
  shows "good D D'"
proof -
  have "goodKey k" using assms(1) by (auto simp: setSettingTx_def rbind_eq_Inr bPut_eq_Inr Let_def)
  with assms(1) have "tables_same D D' \<and> bSettings D' = bput k v (bSettings D)"
    by (auto simp: setSettingTx_eq Let_def tables_same_def)
  with assms(2) show ?thesis by (intro tables_same_good) (simp_all add: store_inv_def)
qed

lemma logoTx_good:
  assumes "setLogoTx data D = Inr D' \<or> deleteLogoTx D = Inr D'" and "store_inv D"
  shows "good D D'"
proof -
  have "tables_same D D' \<and> (\<exists>v. bSettings D' = bput KeyHasLogo v (bSettings D))"
    using assms(1) by (auto simp: setLogoTx_def deleteLogoTx_def rbind_eq_Inr bPut_eq_Inr tables_same_def)
  with assms(2) show ?thesis by (intro tables_same_good) (auto simp: store_inv_def)
qed

lemma syncTx_good:
  assumes "putSync kvs D = Inr D' \<or> linkTx b s m t D = Inr D' \<or> unlinkTx D = Inr D'" and "store_inv D"
  shows "good D D'"
proof -
  have "tables_same D D' \<and> bSettings D' = bSettings D"
    using assms(1) by (auto simp: putSync_def linkTx_def unlinkTx_def rbind_eq_Inr tables_same_def)
  with assms(2) show ?thesis by (intro tables_same_good) (auto simp: store_inv_def)
qed

lemma dbUpdate_good:
  assumes "store_inv D" and "\<And>x D1. f D = Inr (x, D1) \<Longrightarrow> good D D1"
  shows "good D (snd (dbUpdate e f D))"
  by (rule dbUpdate_inv [OF prod.collapse [symmetric]]) (use assms good_refl in auto)

lemma dbExec_good:
  assumes "store_inv D" and "\<And>D1. f D = Inr D1 \<Longrightarrow> good D D1"
  shows "good D (snd (dbExec e f D))"
  by (rule dbExec_inv [OF prod.collapse [symmetric]]) (use assms good_refl in auto)

section \<open>The device as a transition system\<close>

definition freshEnv :: "env \<Rightarrow> db \<Rightarrow> bool" where
  "freshEnv e D \<longleftrightarrow> bGet (bProducts D) (eRowID e) = None \<and> bGet (bSales D) (eRowID e) = None \<and>
     CHR 0x00 \<notin> set (eRowID e) \<and> bGet (bStockEvents D) (eEventID e) = None"

text \<open>One call of the local API, whatever its outcome; drawn ids are fresh.\<close>

inductive local_op :: "db \<Rightarrow> db \<Rightarrow> bool" where
  op_add: "freshEnv e D \<Longrightarrow> local_op D (snd (addProduct e d b D))"
| op_update: "freshEnv e D \<Longrightarrow> local_op D (snd (UpdateProduct e i d D))"
| op_delete: "local_op D (snd (DeleteProduct e i D))"
| op_restock: "freshEnv e D \<Longrightarrow> local_op D (snd (Restock e i q D))"
| op_sale: "freshEnv e D \<Longrightarrow> local_op D (snd (CreateSale e inp D))"
| op_setting: "local_op D (snd (SetSetting e k v D))"
| op_logo: "local_op D (snd (SetLogo e data D))"
| op_unlogo: "local_op D (snd (DeleteLogo e D))"
| op_link: "local_op D (snd (Link e base shop email token D))"
| op_unlink: "local_op D (snd (Unlink e D))"
| op_token: "local_op D (snd (SetToken e token D))"

lemma local_op_good: "local_op D D' \<Longrightarrow> store_inv D \<Longrightarrow> good D D'"
proof (induction rule: local_op.induct)
  case (op_add e D d b)
  then show ?case unfolding addProduct_def freshEnv_def
    by (intro dbUpdate_good) (auto intro: addProductTx_good)
next
  case (op_update e D i d)
  then show ?case unfolding UpdateProduct_def freshEnv_def
    by (intro dbUpdate_good) (auto intro: updateProductTx_good)
next
  case (op_delete D e i)
  then show ?case unfolding DeleteProduct_def by (intro dbExec_good deleteProductTx_good)
next
  case (op_restock e D i q)
  then show ?case unfolding Restock_def freshEnv_def
    by (cases "q = 0") (auto intro!: dbUpdate_good intro: restockTx_good good_refl)
next
  case (op_sale e D inp)
  then show ?case unfolding CreateSale_def freshEnv_def
    by (intro dbUpdate_good) (auto intro: createSaleTx_good)
next
  case (op_setting D e k v)
  then show ?case unfolding SetSetting_def by (intro dbExec_good setSettingTx_good)
next
  case (op_logo D e data)
  then show ?case unfolding SetLogo_def by (intro dbExec_good) (auto intro: logoTx_good)
next
  case (op_unlogo D e)
  then show ?case unfolding DeleteLogo_def by (intro dbExec_good) (auto intro: logoTx_good)
next
  case (op_link D e base shop email token)
  then show ?case unfolding Link_def by (intro dbExec_good) (auto intro: syncTx_good)
next
  case (op_unlink D e)
  then show ?case unfolding Unlink_def by (intro dbExec_good) (auto intro: syncTx_good)
next
  case (op_token D e token)
  then show ?case unfolding SetToken_def by (intro dbExec_good) (auto intro: syncTx_good)
qed

text \<open>Where the background cycle stands between two of its calls.\<close>

type_synonym settings_mark = "((string \<rightharpoonup> string) \<times> gotime) option"

datatype phase =
    Idle
  | GotState SyncState
  | GotProducts SyncState "Product list"
  | GotSales SyncState "Product list" "Sale list"
  | GotEvents SyncState "Product list" "Sale list" "StockEvent list"
  | Ready SyncState "Product list" "Sale list" "StockEvent list" settings_mark
  | Accepted "Product list" "Sale list" "StockEvent list" settings_mark
  | Cleared
  | Pulling SyncState
  | Received PullResult
  | Applied int
  | Finished "syncErr option"

type_synonym till = "db \<times> phase \<times> Sale set \<times> StockEvent set"

definition nothingDue :: "Product list \<Rightarrow> Sale list \<Rightarrow> StockEvent list \<Rightarrow> settings_mark \<Rightarrow> bool" where
  "nothingDue ps ss es m \<longleftrightarrow> ps = [] \<and> ss = [] \<and> es = [] \<and> m = None"

definition clearOf :: "env \<Rightarrow> Product list \<Rightarrow> Sale list \<Rightarrow> StockEvent list \<Rightarrow> settings_mark \<Rightarrow> db \<Rightarrow> (err + unit) \<times> db" where
  "clearOf e ps ss es m = ClearPushed e (map pID ps) (map saID ss) (map evID es)
     (case m of Some (_, t) \<Rightarrow> t | None \<Rightarrow> zeroTime) (m \<noteq> None)"

text \<open>A push whose reply is lost may still have reached the cloud.\<close>

inductive till_step :: "till \<Rightarrow> till \<Rightarrow> bool" where
  st_local: "local_op D D' \<Longrightarrow> till_step (D, ph, A, B) (D', ph, A, B)"
| st_start: "syLinked (SyncStateOf D) \<Longrightarrow> till_step (D, Idle, A, B) (D, GotState (SyncStateOf D), A, B)"
| st_products: "PendingProducts D = Inr ps \<Longrightarrow> till_step (D, GotState st, A, B) (D, GotProducts st ps, A, B)"
| st_products_err: "PendingProducts D = Inl x \<Longrightarrow>
    till_step (D, GotState st, A, B) (D, Finished (Some (StoreErr x)), A, B)"
| st_sales: "PendingSales D = Inr ss \<Longrightarrow> till_step (D, GotProducts st ps, A, B) (D, GotSales st ps ss, A, B)"
| st_sales_err: "PendingSales D = Inl x \<Longrightarrow>
    till_step (D, GotProducts st ps, A, B) (D, Finished (Some (StoreErr x)), A, B)"
| st_events: "PendingStockEvents D = Inr es \<Longrightarrow>
    till_step (D, GotSales st ps ss, A, B) (D, GotEvents st ps ss es, A, B)"
| st_events_err: "PendingStockEvents D = Inl x \<Longrightarrow>
    till_step (D, GotSales st ps ss, A, B) (D, Finished (Some (StoreErr x)), A, B)"
| st_settings: "till_step (D, GotEvents st ps ss es, A, B) (D, Ready st ps ss es (PendingSettings D), A, B)"
| st_nothing: "nothingDue ps ss es m \<Longrightarrow> till_step (D, Ready st ps ss es m, A, B) (D, Cleared, A, B)"
| st_push: "\<not> nothingDue ps ss es m \<Longrightarrow>
    till_step (D, Ready st ps ss es m, A, B) (D, Accepted ps ss es m, A \<union> set ss, B \<union> set es)"
| st_push_err: "\<not> nothingDue ps ss es m \<Longrightarrow>
    till_step (D, Ready st ps ss es m, A, B) (D, Finished (Some x), A, B)"
| st_push_lost: "\<not> nothingDue ps ss es m \<Longrightarrow>
    till_step (D, Ready st ps ss es m, A, B) (D, Finished (Some x), A \<union> set ss, B \<union> set es)"
| st_clear: "clearOf e ps ss es m D = (Inr u, D') \<Longrightarrow>
    till_step (D, Accepted ps ss es m, A, B) (D', Cleared, A, B)"
| st_clear_err: "clearOf e ps ss es m D = (Inl x, D') \<Longrightarrow>
    till_step (D, Accepted ps ss es m, A, B) (D', Finished (Some (StoreErr x)), A, B)"
| st_reread: "till_step (D, Cleared, A, B) (D, Pulling (SyncStateOf D), A, B)"
| st_pull: "pulledOK (puPulled res) \<Longrightarrow> till_step (D, Pulling st, A, B)
    (D, Received res, A \<union> set (plSales (puPulled res)), B \<union> set (plStockEvents (puPulled res)))"
| st_pull_err: "till_step (D, Pulling st, A, B) (D, Finished (Some x), A, B)"
| st_apply: "ApplyPulled e (puPulled res) D = (Inr u, D') \<Longrightarrow>
    till_step (D, Received res, A, B) (D', Applied (puCursor res), A, B)"
| st_apply_err: "ApplyPulled e (puPulled res) D = (Inl x, D') \<Longrightarrow>
    till_step (D, Received res, A, B) (D', Finished (Some (StoreErr x)), A, B)"
| st_cursor: "SetCursor e c D = (Inr u, D') \<Longrightarrow> till_step (D, Applied c, A, B) (D', Finished None, A, B)"
| st_cursor_err: "SetCursor e c D = (Inl x, D') \<Longrightarrow>
    till_step (D, Applied c, A, B) (D', Finished (Some (StoreErr x)), A, B)"
| st_finish: "till_step (D, Finished r, A, B) (recordOutcome boltSync e r D, Idle, A, B)"

text \<open>A new device: an empty store, no sync running, nothing in the cloud.\<close>

definition newTill :: till where
  "newTill = (emptyDB, Idle, {}, {})"

section \<open>No sale is lost\<close>

definition hasSales :: "Sale list \<Rightarrow> db \<Rightarrow> bool" where
  "hasSales ss D \<longleftrightarrow> (\<forall>s \<in> set ss. bGet (bSales D) (saID s) = Some (Json s))"

definition hasEvents :: "StockEvent list \<Rightarrow> db \<Rightarrow> bool" where
  "hasEvents es D \<longleftrightarrow> (\<forall>ev \<in> set es. bGet (bStockEvents D) (evID ev) = Some (Json ev))"

definition phaseOK :: "phase \<Rightarrow> db \<Rightarrow> Sale set \<Rightarrow> StockEvent set \<Rightarrow> bool" where
  "phaseOK ph D A B = (case ph of
       GotSales st ps ss \<Rightarrow> hasSales ss D
     | GotEvents st ps ss es \<Rightarrow> hasSales ss D \<and> hasEvents es D
     | Ready st ps ss es m \<Rightarrow> hasSales ss D \<and> hasEvents es D
     | Accepted ps ss es m \<Rightarrow> hasSales ss D \<and> hasEvents es D \<and> set ss \<subseteq> A \<and> set es \<subseteq> B
     | Received res \<Rightarrow> pulledOK (puPulled res) \<and> set (plSales (puPulled res)) \<subseteq> A \<and>
         set (plStockEvents (puPulled res)) \<subseteq> B
     | _ \<Rightarrow> True)"

definition known :: "db \<Rightarrow> Sale set \<Rightarrow> StockEvent set \<Rightarrow> bool" where
  "known D A B \<longleftrightarrow>
     (\<forall>k c. bGet (bSales D) k = Some c \<longrightarrow> k \<in> pend (bPendingSale D) \<or> (\<exists>s \<in> A. c = Json s)) \<and>
     (\<forall>k c. bGet (bStockEvents D) k = Some c \<longrightarrow> k \<in> pend (bPendingStock D) \<or> (\<exists>ev \<in> B. c = Json ev))"

fun tillInv :: "till \<Rightarrow> bool" where
  "tillInv (D, ph, A, B) \<longleftrightarrow> store_inv D \<and> known D A B \<and> phaseOK ph D A B"

definition keepsRows :: "db \<Rightarrow> db \<Rightarrow> bool" where
  "keepsRows D D' \<longleftrightarrow>
     (\<forall>k c. bGet (bSales D) k = Some c \<longrightarrow> bGet (bSales D') k = Some c) \<and>
     (\<forall>k c. bGet (bStockEvents D) k = Some c \<longrightarrow> bGet (bStockEvents D') k = Some c)"

lemma phaseOK_keeps: "phaseOK ph D A B \<Longrightarrow> keepsRows D D' \<Longrightarrow> phaseOK ph D' A B"
  by (auto simp: phaseOK_def keepsRows_def hasSales_def hasEvents_def split: phase.splits)

lemma known_grows: "known D A B \<Longrightarrow> grows D D' \<Longrightarrow> known D' A B"
  unfolding known_def grows_def by blast

lemma known_more: "known D A B \<Longrightarrow> known D (A \<union> A') (B \<union> B')"
  unfolding known_def by blast

lemma grows_keeps: "grows D D' \<Longrightarrow> keepsRows D D'"
  by (simp add: grows_def keepsRows_def)

text \<open>The store steps of the cycle.\<close>

lemma clearOf_fields:
  assumes "clearOf e ps ss es m D = (Inr u, D')"
  shows "bSales D' = bSales D" "bStockEvents D' = bStockEvents D" "bProducts D' = bProducts D"
    "bBarcodeIdx D' = bBarcodeIdx D" "bRefIdx D' = bRefIdx D" "bSettings D' = bSettings D"
    "bPendingProd D' = fold bDelete (map pID ps) (bPendingProd D)"
    "bPendingSale D' = fold bDelete (map saID ss) (bPendingSale D)"
    "bPendingStock D' = fold bDelete (map evID es) (bPendingStock D)"
proof -
  have "eIO e = None" using assms by (simp add: clearOf_def ClearPushed_def dbExec_eq_Inr)
  note c = ClearPushed_ok [OF this]
  show "bSales D' = bSales D" "bStockEvents D' = bStockEvents D" "bProducts D' = bProducts D"
    "bBarcodeIdx D' = bBarcodeIdx D" "bRefIdx D' = bRefIdx D" "bSettings D' = bSettings D"
    "bPendingProd D' = fold bDelete (map pID ps) (bPendingProd D)"
    "bPendingSale D' = fold bDelete (map saID ss) (bPendingSale D)"
    "bPendingStock D' = fold bDelete (map evID es) (bPendingStock D)"
    using assms unfolding clearOf_def c by auto
qed

lemma clearOf_inv:
  assumes "clearOf e ps ss es m D = (Inr u, D')" and "store_inv D"
  shows "store_inv D'"
  using assms(2) by (auto simp: store_inv_def catalogue_inv_def sales_inv_def stock_inv_def table_inv_def
        index_sound_def clearOf_fields [OF assms(1)])

lemma clearOf_result:
  assumes "clearOf e ps ss es m D = (r, D')" and "store_inv D" and "known D A B"
    and "hasSales ss D" "hasEvents es D" "set ss \<subseteq> A" "set es \<subseteq> B"
  shows "store_inv D' \<and> known D' A B \<and> keepsRows D D'"
proof (cases r)
  case (Inl x)
  with assms(1) have "D' = D" unfolding clearOf_def ClearPushed_def by (auto dest: dbExec_err)
  with assms show ?thesis by (simp add: keepsRows_def)
next
  case (Inr u)
  with assms(1) have run: "clearOf e ps ss es m D = (Inr u, D')" by simp
  note f = clearOf_fields [OF run]
  have "store_inv D'" by (rule clearOf_inv [OF run assms(2)])
  moreover have "known D' A B"
    using assms(3-7) unfolding known_def f pend_def keys_fold_bDelete hasSales_def hasEvents_def
    by (auto simp del: map_of_eq_None_iff)
  ultimately show ?thesis by (simp add: keepsRows_def f)
qed

lemma applied_rows:
  assumes "applyPulledTx pl D = Inr D'"
  shows "keepsRows D D'"
    and "bGet (bSales D') k = Some c \<Longrightarrow> bGet (bSales D) k = Some c \<or> (\<exists>s \<in> set (plSales pl). c = Json s)"
    and "bGet (bStockEvents D') k = Some c' \<Longrightarrow>
      bGet (bStockEvents D) k = Some c' \<or> (\<exists>ev \<in> set (plStockEvents pl). c' = Json ev)"
proof -
  from assms obtain D1 D2 D3 where s: "forEachR applyPulledSale (plSales pl) D1 = Inr D2"
    "forEachR applyPulledStockEvent (plStockEvents pl) D2 = Inr D3"
    and o: "onlyProducts D D1" "onlySales D1 D2" "onlyEvents D2 D3" "onlySettings D3 D'"
    by (rule applyPulledTx_stages)
  have e: "bSales D' = bSales D2" "bSales D1 = bSales D" "bStockEvents D' = bStockEvents D3"
    "bStockEvents D2 = bStockEvents D"
    using o by (simp_all add: only_defs)
  show "keepsRows D D'"
    using pulled_sales.merge_all_keeps [OF s(1)] pulled_events.merge_all_keeps [OF s(2)]
    by (simp add: keepsRows_def e)
  have "\<forall>k c. bGet (bSales D2) k = Some c \<longrightarrow>
      bGet (bSales D1) k = Some c \<or> (\<exists>s \<in> set (plSales pl). c = Json s)"
    by (rule forEachR_inv [where P = "\<lambda>X. \<forall>k c. bGet (bSales X) k = Some c \<longrightarrow>
      bGet (bSales D1) k = Some c \<or> (\<exists>s \<in> set (plSales pl). c = Json s)", OF _ _ s(1)])
      (auto simp: pulled_sales.merge_look split: if_splits)
  then show "bGet (bSales D') k = Some c \<Longrightarrow> bGet (bSales D) k = Some c \<or> (\<exists>s \<in> set (plSales pl). c = Json s)"
    by (simp add: e)
  have "\<forall>k c. bGet (bStockEvents D3) k = Some c \<longrightarrow>
      bGet (bStockEvents D2) k = Some c \<or> (\<exists>ev \<in> set (plStockEvents pl). c = Json ev)"
    by (rule forEachR_inv [where P = "\<lambda>X. \<forall>k c. bGet (bStockEvents X) k = Some c \<longrightarrow>
      bGet (bStockEvents D2) k = Some c \<or> (\<exists>ev \<in> set (plStockEvents pl). c = Json ev)", OF _ _ s(2)])
      (auto simp: pulled_events.merge_look split: if_splits)
  then show "bGet (bStockEvents D') k = Some c' \<Longrightarrow>
      bGet (bStockEvents D) k = Some c' \<or> (\<exists>ev \<in> set (plStockEvents pl). c' = Json ev)"
    by (simp add: e)
qed

lemma ApplyPulled_result:
  assumes "ApplyPulled e pl D = (r, D')" and "store_inv D" and "known D A B"
    and "pulledOK pl" "set (plSales pl) \<subseteq> A" "set (plStockEvents pl) \<subseteq> B"
  shows "store_inv D' \<and> known D' A B \<and> keepsRows D D'"
proof (cases r)
  case (Inl x)
  with assms(1) have "D' = D" unfolding ApplyPulled_def by (auto dest: dbExec_err)
  with assms show ?thesis by (simp add: keepsRows_def)
next
  case (Inr u)
  then have tx: "applyPulledTx pl D = Inr D'" using assms(1) by (simp add: ApplyPulled_def dbExec_eq_Inr)
  have "bPendingSale D' = bPendingSale D" "bPendingStock D' = bPendingStock D"
    using applyPulledTx_frame [OF tx] by (simp_all add: frame_def)
  then have "known D' A B"
    using assms(3,5,6) applied_rows(2,3) [OF tx] unfolding known_def by simp blast
  then show ?thesis using applyPulledTx_inv [OF assms(2,4) tx] applied_rows(1) [OF tx] by simp
qed

lemma putSync_result:
  assumes "dbExec e (putSync kvs) D = (r, D')" and "store_inv D" and "known D A B"
  shows "store_inv D' \<and> known D' A B \<and> keepsRows D D'"
proof -
  have "good D (snd (dbExec e (putSync kvs) D))"
    using assms(2) by (intro dbExec_good) (auto intro: syncTx_good)
  then have "good D D'" by (simp add: assms(1))
  then show ?thesis using known_grows [OF assms(3)] grows_keeps by (simp add: good_def)
qed

lemma till_step_inv:
  "till_step t t' \<Longrightarrow> tillInv t \<Longrightarrow> tillInv t' \<and> keepsRows (fst t) (fst t')"
proof (induction rule: till_step.induct)
  case (st_local D D' ph A B)
  then have "good D D'" by (simp add: local_op_good)
  then have "store_inv D'" "grows D D'" by (simp_all add: good_def)
  with st_local show ?case using known_grows phaseOK_keeps grows_keeps by simp blast
next
  case (st_products D ps st A B)
  then show ?case by (simp add: phaseOK_def keepsRows_def)
next
  case (st_sales D ss st ps A B)
  then have inv: "store_inv D" by simp
  obtain ss' where "PendingSales D = Inr ss'" "\<forall>s \<in> set ss'. bGet (bSales D) (saID s) = Some (Json s)"
    using outbox_rows [OF inv] by blast
  with st_sales show ?case by (simp add: phaseOK_def hasSales_def keepsRows_def)
next
  case (st_events D es st ps ss A B)
  then have inv: "store_inv D" by simp
  obtain es' where "PendingStockEvents D = Inr es'"
    "\<forall>ev \<in> set es'. bGet (bStockEvents D) (evID ev) = Some (Json ev)"
    using outbox_rows [OF inv] by blast
  with st_events show ?case by (simp add: phaseOK_def hasEvents_def keepsRows_def)
next
  case (st_push ps ss es m D st A B)
  then show ?case using known_more by (simp add: phaseOK_def keepsRows_def le_supI1)
next
  case (st_push_lost ps ss es m D st A B x)
  then show ?case using known_more by (simp add: phaseOK_def keepsRows_def)
next
  case (st_clear e ps ss es m D u D' A B)
  then show ?case using clearOf_result [of e ps ss es m D "Inr u" D' A B] by (simp add: phaseOK_def)
next
  case (st_clear_err e ps ss es m D x D' A B)
  then show ?case using clearOf_result [of e ps ss es m D "Inl x" D' A B] by (simp add: phaseOK_def)
next
  case (st_pull res D st A B)
  then show ?case using known_more by (simp add: phaseOK_def keepsRows_def le_supI1)
next
  case (st_apply e res D u D' A B)
  then show ?case using ApplyPulled_result [of e "puPulled res" D "Inr u" D' A B] by (simp add: phaseOK_def)
next
  case (st_apply_err e res D x D' A B)
  then show ?case using ApplyPulled_result [of e "puPulled res" D "Inl x" D' A B] by (simp add: phaseOK_def)
next
  case (st_cursor e c D u D' A B)
  then show ?case
    using putSync_result [of e "[(kCursor, Text (itoa c))]" D "Inr u" D' A B]
    by (simp add: phaseOK_def SetCursor_def)
next
  case (st_cursor_err e c D x D' A B)
  then show ?case
    using putSync_result [of e "[(kCursor, Text (itoa c))]" D "Inl x" D' A B]
    by (simp add: phaseOK_def SetCursor_def)
next
  case (st_finish D r A B e)
  define kvs where "kvs = [(kLastSync, Stamp (tUTC (eNow e))),
     (kLastError, Text (case r of None \<Rightarrow> '''' | Some x \<Rightarrow> syncErrText x))]"
  have "recordOutcome boltSync e r D = snd (dbExec e (putSync kvs) D)"
    by (simp add: recordOutcome_def boltSync_def SetSyncResult_def kvs_def)
  then show ?case
    using st_finish putSync_result [of e kvs D "fst (dbExec e (putSync kvs) D)" "recordOutcome boltSync e r D" A B]
    by (simp add: phaseOK_def)
qed (simp_all add: phaseOK_def keepsRows_def)

lemma newTill_inv: "tillInv newTill"
proof -
  have e: "bProducts emptyDB = []" "bSales emptyDB = []" "bStockEvents emptyDB = []" "bSettings emptyDB = []"
    "bBarcodeIdx emptyDB = []" "bRefIdx emptyDB = []" "bPendingProd emptyDB = []" "bPendingSale emptyDB = []"
    "bPendingStock emptyDB = []"
    by (simp_all add: emptyDB_def)
  then show ?thesis
    by (simp add: newTill_def store_inv_def catalogue_inv_def sales_inv_def stock_inv_def table_inv_def
        index_sound_def keyed_def known_def phaseOK_def)
qed

lemma till_reach_inv:
  assumes "till_step\<^sup>*\<^sup>* t t'" and "tillInv t"
  shows "tillInv t' \<and> keepsRows (fst t) (fst t')"
  using assms
proof (induction rule: rtranclp_induct)
  case base
  then show ?case by (simp add: keepsRows_def)
next
  case (step u v)
  then have "tillInv v \<and> keepsRows (fst u) (fst v)" using till_step_inv by blast
  with step show ?case by (simp add: keepsRows_def)
qed


text \<open>One step a new device can take: the owner adds a product.\<close>

lemma demo_reach:
  "till_step\<^sup>*\<^sup>* newTill (snd (AddProduct (demoEnv 2) demoDraft emptyDB), Idle, {}, {})"
proof -
  have "bProducts emptyDB = []" "bSales emptyDB = []" "bStockEvents emptyDB = []"
    by (simp_all add: emptyDB_def)
  then have "freshEnv (demoEnv 2) emptyDB" by (simp add: freshEnv_def)
  then have "local_op emptyDB (snd (AddProduct (demoEnv 2) demoDraft emptyDB))"
    unfolding AddProduct_def by (rule op_add)
  then show ?thesis unfolding newTill_def by (intro r_into_rtranclp st_local)
qed


text \<open>
  C1. No sale and no stock event is lost, under any interleaving with the background sync
  and any failure of it: each stored one is still queued for the push or is held, as it
  stands, by the cloud; and from any reachable state on, it stays in the store unchanged.
\<close>

theorem no_sale_lost:
  assumes "till_step\<^sup>*\<^sup>* newTill (D, ph, A, B)" and "till_step\<^sup>*\<^sup>* (D, ph, A, B) (D', ph', A', B')"
  shows "(\<forall>k c. bGet (bSales D') k = Some c \<longrightarrow>
        k \<in> fst ` set (bPendingSale D') \<or> (\<exists>s \<in> A'. c = Json s)) \<and>
     (\<forall>k c. bGet (bStockEvents D') k = Some c \<longrightarrow>
        k \<in> fst ` set (bPendingStock D') \<or> (\<exists>ev \<in> B'. c = Json ev)) \<and>
     (\<forall>k c. bGet (bSales D) k = Some c \<longrightarrow> bGet (bSales D') k = Some c) \<and>
     (\<forall>k c. bGet (bStockEvents D) k = Some c \<longrightarrow> bGet (bStockEvents D') k = Some c)"
proof -
  have "tillInv (D, ph, A, B)" using till_reach_inv [OF assms(1) newTill_inv] by blast
  then have "tillInv (D', ph', A', B') \<and> keepsRows D D'"
    using till_reach_inv [OF assms(2)] by simp
  then show ?thesis unfolding tillInv.simps known_def keepsRows_def pend_def by blast
qed

lemma demo_event:
  "bGet (bStockEvents (snd (AddProduct (demoEnv 2) demoDraft emptyDB))) (demoID ''event'' 2) =
     Some (Json (initialEvent (demoEnv 2) demoDraft))"
proof -
  have "bBarcodeIdx emptyDB = []" by (simp add: emptyDB_def)
  then obtain D' where tx: "addProductTx (demoEnv 2) demoDraft True emptyDB = Inr (draftProduct (demoEnv 2) demoDraft, D')"
    using addProductTx_succeeds [of "demoEnv 2" demoDraft emptyDB] by auto
  then have "AddProduct (demoEnv 2) demoDraft emptyDB = (Inr (draftProduct (demoEnv 2) demoDraft), D')"
    by (simp add: AddProduct_def addProduct_def dbUpdate_ok)
  then show ?thesis by (simp add: addProductTx_fields(8) [OF tx])
qed

theorem no_sale_lost_witness:
  "demoID ''event'' 2 \<in> fst ` set (bPendingStock (snd (AddProduct (demoEnv 2) demoDraft emptyDB)))"
  using no_sale_lost [OF demo_reach rtranclp.rtrancl_refl] demo_event by blast

section \<open>The engine's cycle is a run of the system\<close>

lemma boltSync_simps [simp]:
  "ssSyncState boltSync D = Inr (SyncStateOf D)" "ssSetCursor boltSync = SetCursor"
  "ssSetSyncResult boltSync = SetSyncResult" "ssPendingProducts boltSync = PendingProducts"
  "ssPendingSales boltSync = PendingSales" "ssPendingStockEvents boltSync = PendingStockEvents"
  "ssPendingSettings boltSync D = Inr (PendingSettings D)" "ssClearPushed boltSync = ClearPushed"
  "ssApplyPulled boltSync = ApplyPulled"
  by (simp_all add: boltSync_def)

lemma step_then: "till_step a b \<Longrightarrow> till_step\<^sup>*\<^sup>* b c \<Longrightarrow> till_step\<^sup>*\<^sup>* a c"
  by (rule converse_rtranclp_into_rtranclp)

definition afterPush :: "syncErr option \<Rightarrow> phase" where
  "afterPush r = (case r of None \<Rightarrow> Cleared | Some x \<Rightarrow> Finished (Some x))"

lemma push_run:
  assumes "push boltSync C e st D w = (r, D', w')"
  shows "\<exists>A' B'. till_step\<^sup>*\<^sup>* (D, GotState st, A, B) (D', afterPush r, A', B')"
proof (cases "PendingProducts D")
  case (Inl x)
  with assms have "r = Some (StoreErr x) \<and> D' = D" by (auto simp: push_def readOutbox_def)
  then have "till_step (D, GotState st, A, B) (D', afterPush r, A, B)"
    using st_products_err [OF Inl] by (simp add: afterPush_def)
  then show ?thesis by (intro exI r_into_rtranclp)
next
  case ps: (Inr ps)
  note s1 = st_products [OF ps, of st A B]
  show ?thesis
  proof (cases "PendingSales D")
    case (Inl x)
    with assms ps have "r = Some (StoreErr x) \<and> D' = D" by (auto simp: push_def readOutbox_def)
    then have "till_step (D, GotProducts st ps, A, B) (D', afterPush r, A, B)"
      using st_sales_err [OF Inl] by (simp add: afterPush_def)
    then show ?thesis using step_then [OF s1] r_into_rtranclp [of till_step] by metis
  next
    case ss: (Inr ss)
    note s2 = st_sales [OF ss, of st ps A B]
    show ?thesis
    proof (cases "PendingStockEvents D")
      case (Inl x)
      with assms ps ss have "r = Some (StoreErr x) \<and> D' = D" by (auto simp: push_def readOutbox_def)
      then have "till_step (D, GotSales st ps ss, A, B) (D', afterPush r, A, B)"
        using st_events_err [OF Inl] by (simp add: afterPush_def)
      then show ?thesis using step_then [OF s1 step_then [OF s2]] r_into_rtranclp [of till_step] by metis
    next
      case es: (Inr es)
      define m where "m = PendingSettings D"
      note s3 = st_events [OF es, of st ps ss A B]
      note s4 = st_settings [of D st ps ss es A B, folded m_def]
      have ready: "till_step\<^sup>*\<^sup>* (D, GotState st, A, B) c"
        if "till_step\<^sup>*\<^sup>* (D, Ready st ps ss es m, A, B) c" for c
        using step_then [OF s1 step_then [OF s2 step_then [OF s3 step_then [OF s4 that]]]] .
      have ro: "readOutbox boltSync D = Inr (ps, ss, es, m)"
        by (simp add: readOutbox_def ps ss es m_def)
      show ?thesis
      proof (cases "nothingDue ps ss es m")
        case True
        with assms ro have "r = None \<and> D' = D" by (auto simp: push_def nothingDue_def)
        then have "till_step (D, Ready st ps ss es m, A, B) (D', afterPush r, A, B)"
          using st_nothing [OF True] by (simp add: afterPush_def)
        then show ?thesis using ready r_into_rtranclp [of till_step] by metis
      next
        case False
        then have due: "\<not> (ps = [] \<and> ss = [] \<and> es = [] \<and> m = None)" by (simp add: nothingDue_def)
        obtain pr w1 where sp: "scPush C (syBaseURL st) (syToken st) (payloadOf ps ss es m) w = (pr, w1)"
          by fastforce
        show ?thesis
        proof (cases pr)
          case (Inl x)
          with assms ro sp due have "r = Some x \<and> D' = D" by (auto simp: push_def)
          then have "till_step (D, Ready st ps ss es m, A, B) (D', afterPush r, A, B)"
            using st_push_err [OF False] by (simp add: afterPush_def)
          then show ?thesis using ready r_into_rtranclp [of till_step] by metis
        next
          case (Inr u)
          obtain cr D1 where cl: "clearOf e ps ss es m D = (cr, D1)" by fastforce
          have "r = (case cr of Inl x \<Rightarrow> Some (StoreErr x) | Inr _ \<Rightarrow> None) \<and> D' = D1"
            using assms ro sp due Inr cl by (auto simp: push_def clearOf_def split: sum.splits)
          moreover have "till_step (D, Accepted ps ss es m, A \<union> set ss, B \<union> set es)
              (D1, afterPush (case cr of Inl x \<Rightarrow> Some (StoreErr x) | Inr _ \<Rightarrow> None), A \<union> set ss, B \<union> set es)"
            using cl by (cases cr) (auto simp: afterPush_def intro: st_clear st_clear_err)
          ultimately show ?thesis
            using ready [OF step_then [OF st_push [OF False] r_into_rtranclp]] by blast
        qed
      qed
    qed
  qed
qed

lemma pull_run:
  assumes "pull boltSync C e e' st D w = (r, D', w')"
    and "\<And>res w'. scPull C (syBaseURL st) (syToken st) (syCursor st) w = (Inr res, w') \<Longrightarrow> pulledOK (puPulled res)"
  shows "\<exists>A' B'. till_step\<^sup>*\<^sup>* (D, Pulling st, A, B) (D', Finished r, A', B')"
proof -
  obtain pr w1 where sp: "scPull C (syBaseURL st) (syToken st) (syCursor st) w = (pr, w1)" by fastforce
  show ?thesis
  proof (cases pr)
    case (Inl x)
    with assms(1) sp have "r = Some x \<and> D' = D" by (auto simp: pull_def)
    then show ?thesis using st_pull_err by blast
  next
    case (Inr res)
    let ?A = "A \<union> set (plSales (puPulled res))" and ?B = "B \<union> set (plStockEvents (puPulled res))"
    have got: "till_step (D, Pulling st, A, B) (D, Received res, ?A, ?B)"
      using assms(2) sp Inr by (intro st_pull) simp
    obtain ar D1 where ap: "ApplyPulled e (puPulled res) D = (ar, D1)" by fastforce
    show ?thesis
    proof (cases ar)
      case (Inl x)
      with assms(1) sp Inr ap have "r = Some (StoreErr x) \<and> D' = D1" by (auto simp: pull_def)
      moreover have "till_step (D, Received res, ?A, ?B) (D1, Finished (Some (StoreErr x)), ?A, ?B)"
        using ap Inl by (intro st_apply_err) simp
      ultimately show ?thesis using step_then [OF got r_into_rtranclp] by blast
    next
      case u: (Inr u)
      obtain cr D2 where sc: "SetCursor e' (puCursor res) D1 = (cr, D2)" by fastforce
      have "r = (case cr of Inl x \<Rightarrow> Some (StoreErr x) | Inr _ \<Rightarrow> None) \<and> D' = D2"
        using assms(1) sp Inr ap u sc by (auto simp: pull_def split: sum.splits)
      moreover have "till_step (D1, Applied (puCursor res), ?A, ?B)
          (D2, Finished (case cr of Inl x \<Rightarrow> Some (StoreErr x) | Inr _ \<Rightarrow> None), ?A, ?B)"
        using sc by (cases cr) (auto intro: st_cursor st_cursor_err)
      moreover have "till_step (D, Received res, ?A, ?B) (D1, Applied (puCursor res), ?A, ?B)"
        using ap u by (intro st_apply) simp
      ultimately show ?thesis using step_then [OF got step_then [OF _ r_into_rtranclp]] by blast
    qed
  qed
qed

lemma cycle_run:
  assumes "\<And>base token c w res w'. scPull C base token c w = (Inr res, w') \<Longrightarrow> pulledOK (puPulled res)"
  shows "\<exists>A' B'. till_step\<^sup>*\<^sup>* (D, Idle, A, B) (fst (snd (SyncOnce boltSync C cy D w)), Idle, A', B')"
proof (cases "syLinked (SyncStateOf D)")
  case False
  then show ?thesis by (auto simp: SyncOnce_def)
next
  case True
  note start = st_start [OF True, of A B]
  obtain r1 D1 w1 where p: "push boltSync C (cyClear cy) (SyncStateOf D) D w = (r1, D1, w1)"
    using prod_cases3 by blast
  then obtain A1 B1 where run1: "till_step\<^sup>*\<^sup>* (D, GotState (SyncStateOf D), A, B) (D1, afterPush r1, A1, B1)"
    using push_run [OF p, of A B] by blast
  show ?thesis
  proof (cases r1)
    case (Some x)
    with True p have "fst (snd (SyncOnce boltSync C cy D w)) = recordOutcome boltSync (cyResult cy) (Some x) D1"
      by (simp add: SyncOnce_def)
    moreover have "till_step\<^sup>*\<^sup>* (D, GotState (SyncStateOf D), A, B)
        (recordOutcome boltSync (cyResult cy) (Some x) D1, Idle, A1, B1)"
      using run1 st_finish Some unfolding afterPush_def by (simp add: rtranclp.rtrancl_into_rtrancl)
    ultimately show ?thesis using step_then [OF start] by metis
  next
    case None
    obtain r2 D2 w2 where q: "pull boltSync C (cyApply cy) (cyCursor cy) (SyncStateOf D1) D1 w1 = (r2, D2, w2)"
      using prod_cases3 by blast
    then obtain A2 B2 where run2: "till_step\<^sup>*\<^sup>* (D1, Pulling (SyncStateOf D1), A1, B1) (D2, Finished r2, A2, B2)"
      using pull_run [OF q, of A1 B1] assms by blast
    have "fst (snd (SyncOnce boltSync C cy D w)) = recordOutcome boltSync (cyResult cy) r2 D2"
      using True p None q by (cases r2) (simp_all add: SyncOnce_def)
    moreover have "till_step\<^sup>*\<^sup>* (D1, Cleared, A1, B1) (recordOutcome boltSync (cyResult cy) r2 D2, Idle, A2, B2)"
      using step_then [OF st_reread run2] st_finish by (rule rtranclp.rtrancl_into_rtrancl)
    moreover have "till_step\<^sup>*\<^sup>* (D, GotState (SyncStateOf D), A, B) (D1, Cleared, A1, B1)"
      using run1 None by (simp add: afterPush_def)
    ultimately show ?thesis using step_then [OF start rtranclp_trans] by metis
  qed
qed

text \<open>
  C14. The engine refines the system: a whole \<open>SyncOnce\<close> with no local operation in between,
  for any client and any failures, is a run of \<open>till_step\<close> from idle to idle, so what holds in
  every reachable state holds after it (a pull is taken to carry keys the database takes).
\<close>

theorem SyncOnce_refines:
  assumes "\<And>base token c w res w'. scPull C base token c w = (Inr res, w') \<Longrightarrow> pulledOK (puPulled res)"
  shows "\<exists>A' B'. till_step\<^sup>*\<^sup>* (D, Idle, A, B) (fst (snd (SyncOnce boltSync C cy D w)), Idle, A', B')"
  using assms by (rule cycle_run)

text \<open>A cloud that takes every push and has nothing new.\<close>

definition quietCloud :: "nat SyncClient" where
  "quietCloud = \<lparr>scPush = (\<lambda>base token p w. (Inr \<lparr>prCursor = 0, prProductsApplied = 0,
       prProductsSkipped = 0, prSalesApplied = 0, prSettingsApplied = False\<rparr>, w + 1)),
     scPull = (\<lambda>base token c w. (Inr \<lparr>puCursor = 7, puPulled = \<lparr>plProducts = [], plSales = [],
       plStockEvents = [], plSettings = None, plSettingsAt = None\<rparr>\<rparr>, w + 1))\<rparr>"

theorem SyncOnce_refines_witness:
  "\<exists>A' B'. till_step\<^sup>*\<^sup>* (demoQueued, Idle, {}, {})
     (fst (snd (SyncOnce boltSync quietCloud
        \<lparr>cyClear = demoEnv 5, cyApply = demoEnv 6, cyCursor = demoEnv 7, cyResult = demoEnv 8\<rparr>
        demoQueued 0)), Idle, A', B')"
proof -
  have "\<And>base token c w res w'. scPull quietCloud base token c w = (Inr res, w') \<Longrightarrow> pulledOK (puPulled res)"
    by (auto simp: quietCloud_def pulledOK_def)
  then show ?thesis by (rule SyncOnce_refines)
qed

lemma demoShop_store [simp]: "store_inv demoShop"
  by (simp add: store_inv_def stock_inv_def table_inv_def keyed_def bsorted_def readable_def)

end
