(* ===== verification/Calendar.thy ===== *)
theory Calendar
  imports Domain
begin

text \<open>
  The calendar of Go's \<^verbatim>\<open>time\<close> package, as far as the agent uses it: the civil date, hour
  and weekday a \<^verbatim>\<open>time.Time\<close> shows in its own location, \<^verbatim>\<open>AddDate(0, 0, n)\<close>, and the
  four layouts the agent prints (\<^verbatim>\<open>2006-01-02\<close>, \<^verbatim>\<open>15:04\<close>, \<^verbatim>\<open>Mon\<close> and the receipt's
  \<^verbatim>\<open>02 Jan 2006  3:04 PM\<close>). A location is a fixed offset (\<open>gotime\<close>), so a civil day always
  has 86400 seconds; shops in zones with daylight saving time are not covered. Days count
  from January 1 of year 1, a Monday. The lemmas show that the date is a bijection
  (\<open>dayNumber_civil\<close>) and that its text determines the day (\<open>dateText_eq_iff\<close>) and reads back
  (\<open>parseDate_dateText\<close>).
\<close>

section \<open>Civil dates\<close>

definition localSec :: "gotime \<Rightarrow> int" where
  "localSec t = instant t div 1000000000 + offset t"

definition localDay :: "gotime \<Rightarrow> int" where
  "localDay t = localSec t div 86400"

definition secOfDay :: "gotime \<Rightarrow> int" where
  "secOfDay t = localSec t mod 86400"

definition hourOf :: "gotime \<Rightarrow> int" where
  "hourOf t = secOfDay t div 3600"

definition minuteOf :: "gotime \<Rightarrow> int" where
  "minuteOf t = secOfDay t div 60 mod 60"

definition isLeap :: "int \<Rightarrow> bool" where
  "isLeap y \<longleftrightarrow> y mod 4 = 0 \<and> (y mod 100 \<noteq> 0 \<or> y mod 400 = 0)"

text \<open>The year of a day number and the zero-based day in it, by 400-, 100-, 4- and
  1-year cycles; the last cycle of a group takes the leap day.\<close>

definition yearDay :: "int \<Rightarrow> int \<times> int" where
  "yearDay d =
     (let a = d div 146097; r1 = d mod 146097;
          b0 = r1 div 36524; b = b0 - b0 div 4; r2 = r1 - 36524 * b;
          c = r2 div 1461; r3 = r2 - 1461 * c;
          e0 = r3 div 365; e = e0 - e0 div 4
      in (1 + 400 * a + 100 * b + 4 * c + e, r3 - 365 * e))"

definition monthLens :: "bool \<Rightarrow> int list" where
  "monthLens leap = [31, if leap then 29 else 28, 31, 30, 31, 30, 31, 31, 30, 31, 30, 31]"

fun splitMonth :: "int \<Rightarrow> int list \<Rightarrow> int \<Rightarrow> int \<times> int" where
  "splitMonth m [] d = (m, d + 1)"
| "splitMonth m (l # ls) d = (if d < l then (m, d + 1) else splitMonth (m + 1) ls (d - l))"

definition civil :: "int \<Rightarrow> int \<times> int \<times> int" where
  "civil d = (case yearDay d of (y, yd) \<Rightarrow> (y, splitMonth 1 (monthLens (isLeap y)) yd))"

definition daysBeforeYear :: "int \<Rightarrow> int" where
  "daysBeforeYear y = (let z = y - 1 in 365 * z + z div 4 - z div 100 + z div 400)"

definition dayNumber :: "int \<Rightarrow> int \<Rightarrow> int \<Rightarrow> int" where
  "dayNumber y m d = daysBeforeYear y + sum_list (take (nat (m - 1)) (monthLens (isLeap y))) + d - 1"

lemma div_bounds:
  fixes k x :: int
  assumes "0 < k"
  shows "k * (x div k) \<le> x" and "x < k * (x div k) + k"
  using assms mult_div_mod_eq [of k x] pos_mod_bound [of k x] pos_mod_sign [of k x] by linarith+

lemma div_less_mult:
  fixes k x m :: int
  assumes "0 < k"
  shows "x < m * k \<longleftrightarrow> x div k < m"
proof
  assume "x < m * k"
  with div_bounds(1) [OF assms, of x] have "k * (x div k) < k * m" by (simp add: mult.commute)
  with assms show "x div k < m" by simp
next
  assume "x div k < m"
  then have "x div k + 1 \<le> m" by simp
  with assms have "k * (x div k + 1) \<le> k * m" by (intro mult_left_mono) simp_all
  with div_bounds(2) [OF assms, of x] show "x < m * k" by (simp add: algebra_simps)
qed

lemma yearDay_cycles:
  fixes d :: int
  assumes "yearDay d = (y, yd)"
  obtains a b c e where "y = 1 + 400 * a + 100 * b + 4 * c + e"
    and "d = 146097 * a + 36524 * b + 1461 * c + 365 * e + yd"
    and "0 \<le> b" "b \<le> 3" "0 \<le> c" "c \<le> 24" "0 \<le> e" "e \<le> 3" "0 \<le> yd"
    and "yd < 365 \<or> yd = 365 \<and> e = 3 \<and> (c < 24 \<or> b = 3)"
proof -
  define a r1 where ar: "a = d div 146097" "r1 = d mod 146097"
  define b0 where "b0 = r1 div 36524"
  define b where "b = b0 - b0 div 4"
  define r2 where "r2 = r1 - 36524 * b"
  define c where "c = r2 div 1461"
  define r3 where "r3 = r2 - 1461 * c"
  define e0 where "e0 = r3 div 365"
  define e where "e = e0 - e0 div 4"
  have "yearDay d = (1 + 400 * a + 100 * b + 4 * c + e, r3 - 365 * e)"
    unfolding yearDay_def Let_def ar b0_def b_def r2_def c_def r3_def e0_def e_def by (rule refl)
  then have y: "y = 1 + 400 * a + 100 * b + 4 * c + e" and yd: "yd = r3 - 365 * e"
    using assms by simp_all
  have d: "d = 146097 * a + r1" and r1: "0 \<le> r1" "r1 < 146097" by (simp_all add: ar)
  have b0: "36524 * b0 \<le> r1" "r1 < 36524 * b0 + 36524" "0 \<le> b0" "b0 \<le> 4"
    using r1 div_bounds [of 36524 r1] unfolding b0_def by simp_all
  have b: "0 \<le> b" "b \<le> 3" "b = b0 \<or> b = 3 \<and> b0 = 4" using b0(3,4) unfolding b_def by linarith+
  have r2: "0 \<le> r2" "r2 < 36524 \<or> r2 = 36524 \<and> b = 3" using b b0 r1 unfolding r2_def by linarith+
  have c0: "1461 * c \<le> r2" "r2 < 1461 * c + 1461" using div_bounds [of 1461 r2] by (simp_all add: c_def)
  then have c: "0 \<le> c" "c \<le> 24" "0 \<le> r3" "r3 < 1461" "c < 24 \<or> r3 < 1460 \<or> r3 = 1460 \<and> b = 3"
    using r2 unfolding r3_def by linarith+
  have e1: "365 * e0 \<le> r3" "r3 < 365 * e0 + 365" using div_bounds [of 365 r3] by (simp_all add: e0_def)
  then have e0: "0 \<le> e0" "e0 \<le> 4" using c(3,4) by linarith+
  have e: "0 \<le> e" "e \<le> 3" "e = e0 \<or> e = 3 \<and> e0 = 4" using e0 unfolding e_def by linarith+
  have "0 \<le> yd" using e e1 yd by linarith
  moreover have "yd < 365 \<or> yd = 365 \<and> e = 3 \<and> (c < 24 \<or> b = 3)" using e e0 e1 c yd by linarith
  moreover have "d = 146097 * a + 36524 * b + 1461 * c + 365 * e + yd"
    using d yd r2_def r3_def by linarith
  ultimately show ?thesis using that y b(1,2) c(1,2) e(1,2) by blast
qed

lemma cycle_divs:
  fixes a b c e :: int
  assumes "0 \<le> b" "b \<le> 3" "0 \<le> c" "c \<le> 24" "0 \<le> e" "e \<le> 3"
  shows "(400 * a + 100 * b + 4 * c + e) div 4 = 100 * a + 25 * b + c"
    and "(400 * a + 100 * b + 4 * c + e) div 100 = 4 * a + b"
    and "(400 * a + 100 * b + 4 * c + e) div 400 = a"
  using assms by linarith+

lemma yearDay_year:
  assumes "yearDay d = (y, yd)"
  shows "d = daysBeforeYear y + yd" and "0 \<le> yd" and "yd < 365 + of_bool (isLeap y)"
proof -
  obtain a b c e where y: "y = 1 + 400 * a + 100 * b + 4 * c + e"
    and d: "d = 146097 * a + 36524 * b + 1461 * c + 365 * e + yd"
    and b: "0 \<le> b" "b \<le> 3" "0 \<le> c" "c \<le> 24" "0 \<le> e" "e \<le> 3"
    and yd: "0 \<le> yd" "yd < 365 \<or> yd = 365 \<and> e = 3 \<and> (c < 24 \<or> b = 3)"
    by (rule yearDay_cycles [OF assms])
  show "d = daysBeforeYear y + yd"
    unfolding daysBeforeYear_def Let_def y d
    using cycle_divs [OF b, of a] by (simp only: add_diff_cancel_left' add.assoc) simp
  show "0 \<le> yd" by fact
  have "isLeap y" if "yd = 365"
  proof -
    have e: "e = 3" and cb: "c < 24 \<or> b = 3" using that yd(2) by auto
    have "y = 4 * (100 * a + 25 * b + c + 1)" unfolding y e by simp
    then have "y mod 4 = 0" by simp
    moreover have "y mod 400 = 0" if "c = 24" "b = 3"
    proof -
      have "y = 400 * (a + 1)" unfolding y e that by simp
      then show ?thesis by simp
    qed
    moreover have "y mod 100 \<noteq> 0" if "c < 24"
    proof -
      have "y = (4 * c + 4) + 100 * (4 * a + b)" unfolding y e by simp
      then have "y mod 100 = (4 * c + 4) mod 100" by (simp only: mod_mult_self2)
      then have "y mod 100 = 4 * c + 4" using that b(3) by simp
      with b(3) show ?thesis by simp
    qed
    ultimately show ?thesis using cb b(4) unfolding isLeap_def by (cases "c < 24") auto
  qed
  then show "yd < 365 + of_bool (isLeap y)" using yd(2) by auto
qed

lemma splitMonth_sum:
  assumes "0 \<le> d" and "d < sum_list ls" and "splitMonth m ls d = (m', d')"
  shows "m \<le> m'" and "m' < m + int (length ls)" and "1 \<le> d'" and "d' \<le> ls ! nat (m' - m)"
    and "d = sum_list (take (nat (m' - m)) ls) + d' - 1"
proof -
  have "m \<le> m' \<and> m' < m + int (length ls) \<and> 1 \<le> d' \<and> d' \<le> ls ! nat (m' - m) \<and>
      d = sum_list (take (nat (m' - m)) ls) + d' - 1"
    using assms
  proof (induction m ls d rule: splitMonth.induct)
    case (2 m l ls d)
    show ?case
    proof (cases "d < l")
      case False
      with 2 have IH: "m + 1 \<le> m' \<and> m' < m + 1 + int (length ls) \<and> 1 \<le> d' \<and>
          d' \<le> ls ! nat (m' - (m + 1)) \<and> d - l = sum_list (take (nat (m' - (m + 1))) ls) + d' - 1"
        by simp
      then have "nat (m' - m) = Suc (nat (m' - (m + 1)))" by linarith
      with IH show ?thesis by simp
    qed (use 2 in auto)
  qed simp
  then show "m \<le> m'" and "m' < m + int (length ls)" and "1 \<le> d'" and "d' \<le> ls ! nat (m' - m)"
    and "d = sum_list (take (nat (m' - m)) ls) + d' - 1" by auto
qed

lemma civil_props:
  assumes "civil n = (y, m, d)"
  shows "dayNumber y m d = n" and "1 \<le> m" "m \<le> 12" "1 \<le> d" "d \<le> monthLens (isLeap y) ! nat (m - 1)"
proof -
  obtain yd where yd: "yearDay n = (y, yd)" and sm: "splitMonth 1 (monthLens (isLeap y)) yd = (m, d)"
    using assms by (auto simp: civil_def split: prod.splits)
  have "yd < sum_list (monthLens (isLeap y))"
    using yearDay_year(3) [OF yd] by (cases "isLeap y") (simp_all add: monthLens_def)
  note s = splitMonth_sum [OF yearDay_year(2) [OF yd] this sm]
  show "dayNumber y m d = n" using s(5) yearDay_year(1) [OF yd] by (simp add: dayNumber_def)
  show "1 \<le> m" "m \<le> 12" "1 \<le> d" "d \<le> monthLens (isLeap y) ! nat (m - 1)"
    using s by (auto simp: monthLens_def)
qed

lemma dayNumber_civil: "(case civil n of (y, m, d) \<Rightarrow> dayNumber y m d) = n"
  using civil_props(1) by (auto split: prod.split)

lemma civil_day_le_31: "civil n = (y, m, d) \<Longrightarrow> d \<le> 31"
proof -
  assume c: "civil n = (y, m, d)"
  have "\<forall>l \<in> set (monthLens (isLeap y)). l \<le> 31" by (simp add: monthLens_def)
  moreover have "monthLens (isLeap y) ! nat (m - 1) \<in> set (monthLens (isLeap y))"
    using civil_props(2,3) [OF c] by (intro nth_mem) (simp add: monthLens_def)
  ultimately show "d \<le> 31" using civil_props(5) [OF c] by fastforce
qed

lemma hour_range: "0 \<le> hourOf t" "hourOf t < 24"
  unfolding hourOf_def secOfDay_def by (simp_all add: pos_imp_zdiv_nonneg_iff)

lemma minute_range: "0 \<le> minuteOf t" "minuteOf t < 60"
  unfolding minuteOf_def by simp_all

section \<open>Moving by days\<close>

text \<open>\<^verbatim>\<open>startOfDay\<close> is midnight of the time's own civil day; \<^verbatim>\<open>AddDate(0, 0, n)\<close> keeps
  the clock and moves the day.\<close>

definition startOfDay :: "gotime \<Rightarrow> gotime" where
  "startOfDay t = t\<lparr>instant := (localDay t * 86400 - offset t) * 1000000000\<rparr>"

definition addDays :: "int \<Rightarrow> gotime \<Rightarrow> gotime" where
  "addDays n t = t\<lparr>instant := instant t + n * 86400 * 1000000000\<rparr>"

lemma offset_days [simp]: "offset (startOfDay t) = offset t" "offset (addDays n t) = offset t"
  by (simp_all add: startOfDay_def addDays_def)

lemma localDay_addDays [simp]: "localDay (addDays n t) = localDay t + n"
proof -
  have "instant t + n * 86400 * 1000000000 = instant t + (n * 86400) * 1000000000" by simp
  then have "localSec (addDays n t) = localSec t + n * 86400"
    unfolding localSec_def addDays_def by simp
  then show ?thesis by (simp add: localDay_def)
qed

lemma localDay_startOfDay [simp]: "localDay (startOfDay t) = localDay t"
  by (simp add: localDay_def localSec_def startOfDay_def)

lemma startOfDay_less_iff:
  assumes "offset s = offset t"
  shows "instant s < instant (addDays n (startOfDay t)) \<longleftrightarrow> localDay s < localDay t + n"
proof -
  define k where "k = (localDay t + n) * 86400 - offset t"
  have "instant (addDays n (startOfDay t)) = k * 1000000000"
    by (simp add: k_def addDays_def startOfDay_def algebra_simps)
  then have "instant s < instant (addDays n (startOfDay t)) \<longleftrightarrow> instant s div 1000000000 < k"
    by linarith
  also have "\<dots> \<longleftrightarrow> localSec s < (localDay t + n) * 86400" using assms by (auto simp: k_def localSec_def)
  also have "\<dots> \<longleftrightarrow> localDay s < localDay t + n"
    unfolding localDay_def [of s] by (rule div_less_mult) simp
  finally show ?thesis .
qed

section \<open>Layouts\<close>

definition padZ :: "nat \<Rightarrow> int \<Rightarrow> string" where
  "padZ w i = (if i < 0 then ''-'' else []) @
     replicate (w - length (ntoa (nat \<bar>i\<bar>))) (CHR ''0'') @ ntoa (nat \<bar>i\<bar>)"

definition dateText :: "int \<Rightarrow> string" where
  "dateText n = (case civil n of (y, m, d) \<Rightarrow> padZ 4 y @ ''-'' @ padZ 2 m @ ''-'' @ padZ 2 d)"

definition formatDate :: "gotime \<Rightarrow> string" where
  "formatDate t = dateText (localDay t)"

definition formatClock :: "gotime \<Rightarrow> string" where
  "formatClock t = padZ 2 (hourOf t) @ '':'' @ padZ 2 (minuteOf t)"

definition weekdays :: "string list" where
  "weekdays = [''Mon'', ''Tue'', ''Wed'', ''Thu'', ''Fri'', ''Sat'', ''Sun'']"

definition formatWeekday :: "gotime \<Rightarrow> string" where
  "formatWeekday t = weekdays ! nat (localDay t mod 7)"

definition monthNames :: "string list" where
  "monthNames = [''Jan'', ''Feb'', ''Mar'', ''Apr'', ''May'', ''Jun'', ''Jul'', ''Aug'',
     ''Sep'', ''Oct'', ''Nov'', ''Dec'']"

definition formatReceiptTime :: "gotime \<Rightarrow> string" where
  "formatReceiptTime t =
     (case civil (localDay t) of (y, m, d) \<Rightarrow>
        let h12 = hourOf t mod 12 in
        padZ 2 d @ '' '' @ monthNames ! nat (m - 1) @ '' '' @ padZ 4 y @ ''  '' @
        itoa (if h12 = 0 then 12 else h12) @ '':'' @ padZ 2 (minuteOf t) @ '' '' @
        (if hourOf t < 12 then ''AM'' else ''PM''))"

text \<open>\<^verbatim>\<open>time.Parse("2006-01-02", v)\<close>: four digits, two digits, two digits, a day the month has;
  the result is midnight UTC.\<close>

definition parseDate :: "string \<Rightarrow> gotime option" where
  "parseDate v =
     (if length v = 10 \<and> v ! 4 = CHR ''-'' \<and> v ! 7 = CHR ''-'' \<and>
         list_all is_digit (take 4 v) \<and> list_all is_digit (take 2 (drop 5 v)) \<and>
         list_all is_digit (drop 8 v)
      then let y = int (digits_val (take 4 v)); m = int (digits_val (take 2 (drop 5 v)));
               d = int (digits_val (drop 8 v)) in
        if 1 \<le> m \<and> m \<le> 12 \<and> 1 \<le> d \<and> d \<le> monthLens (isLeap y) ! nat (m - 1)
        then Some \<lparr>instant = dayNumber y m d * 86400 * 1000000000, offset = 0\<rparr> else None
      else None)"

lemma digits_val_zeros: "digits_val (replicate k (CHR ''0'') @ s) = digits_val s"
proof -
  have "foldl (\<lambda>n c. 10 * n + digit_val c) 0 (replicate k (CHR ''0'')) = 0"
    by (induction k) (auto simp: digit_val_def)
  then show ?thesis by (simp add: digits_val_def)
qed

lemma length_ntoa: "length (ntoa n) \<le> k \<longleftrightarrow> 0 < k \<and> n < 10 ^ k"
proof (induction n arbitrary: k rule: ntoa.induct)
  case (1 n)
  show ?case
  proof (cases "n < 10")
    case True
    then have "length (ntoa n) = 1" by (subst ntoa.simps) simp
    moreover have "n < 10 ^ k" if "0 < k" using True that by (cases k) (auto intro: less_le_trans)
    ultimately show ?thesis by auto
  next
    case False
    have len: "length (ntoa n) = Suc (length (ntoa (n div 10)))"
      using False by (subst ntoa.simps) simp
    show ?thesis
    proof (cases k)
      case (Suc j)
      have "0 < j \<and> n div 10 < 10 ^ j \<longleftrightarrow> n < 10 ^ Suc j"
      proof (cases j)
        case 0
        then show ?thesis using False by simp
      qed (auto simp: div_less_iff_less_mult mult.commute)
      then show ?thesis using 1 [OF False] by (simp add: len Suc)
    qed (simp add: len)
  qed
qed

lemma padZ_props:
  assumes "0 \<le> i" and "i < 10 ^ w" and "0 < w"
  shows "length (padZ w i) = w" and "list_all is_digit (padZ w i)" and "int (digits_val (padZ w i)) = i"
proof -
  have "nat i < 10 ^ w" using assms(1,2) by (simp add: nat_less_iff)
  then have "length (ntoa (nat i)) \<le> w" using assms(3) by (simp add: length_ntoa)
  then show "length (padZ w i) = w" using assms(1) by (simp add: padZ_def)
  show "list_all is_digit (padZ w i)"
    using assms(1) by (simp add: padZ_def ntoa_digits) (simp add: list_all_iff is_digit_def)
  show "int (digits_val (padZ w i)) = i" using assms(1) by (simp add: padZ_def digits_val_zeros)
qed

text \<open>A printed date reads back as that day, so it determines it.\<close>

lemma parseDate_dateText:
  assumes "civil n = (y, m, d)" and "0 \<le> y" and "y \<le> 9999"
  shows "parseDate (dateText n) = Some \<lparr>instant = n * 86400 * 1000000000, offset = 0\<rparr>"
proof -
  note c = civil_props [OF assms(1)]
  have y: "length (padZ 4 y) = 4" "list_all is_digit (padZ 4 y)" "int (digits_val (padZ 4 y)) = y"
    using padZ_props [of y 4] assms(2,3) by simp_all
  have m: "length (padZ 2 m) = 2" "list_all is_digit (padZ 2 m)" "int (digits_val (padZ 2 m)) = m"
    using padZ_props [of m 2] c(2,3) by simp_all
  have d: "length (padZ 2 d) = 2" "list_all is_digit (padZ 2 d)" "int (digits_val (padZ 2 d)) = d"
    using padZ_props [of d 2] c(4) civil_day_le_31 [OF assms(1)] by simp_all
  obtain y1 y2 y3 y4 where ys: "padZ 4 y = [y1, y2, y3, y4]"
    using y(1) by (auto simp: numeral_eq_Suc length_Suc_conv)
  obtain m1 m2 where ms: "padZ 2 m = [m1, m2]" using m(1) by (auto simp: numeral_eq_Suc length_Suc_conv)
  obtain d1 d2 where ds: "padZ 2 d = [d1, d2]" using d(1) by (auto simp: numeral_eq_Suc length_Suc_conv)
  have v: "dateText n = [y1, y2, y3, y4, CHR ''-'', m1, m2, CHR ''-'', d1, d2]"
    by (simp add: dateText_def assms(1) ys ms ds)
  have parts: "take 4 (dateText n) = padZ 4 y" "take 2 (drop 5 (dateText n)) = padZ 2 m"
      "drop 8 (dateText n) = padZ 2 d" "length (dateText n) = 10"
      "dateText n ! 4 = CHR ''-''" "dateText n ! 7 = CHR ''-''"
    unfolding v ys ms ds by simp_all
  have "dayNumber y m d = n" by (rule c(1))
  then show ?thesis unfolding parseDate_def parts using y m d c(2-5) by (simp only: Let_def) simp
qed

text \<open>Years 1 to 9999.\<close>

lemma civil_year_range:
  assumes "0 \<le> n" and "n < 3652059"
  shows "1 \<le> fst (civil n) \<and> fst (civil n) \<le> 9999"
proof -
  obtain y yd where yd: "yearDay n = (y, yd)" by fastforce
  obtain a b c e where y: "y = 1 + 400 * a + 100 * b + 4 * c + e"
    and d: "n = 146097 * a + 36524 * b + 1461 * c + 365 * e + yd"
    and b: "0 \<le> b" "b \<le> 3" "0 \<le> c" "c \<le> 24" "0 \<le> e" "e \<le> 3"
    and u: "0 \<le> yd" "yd < 365 \<or> yd = 365 \<and> e = 3 \<and> (c < 24 \<or> b = 3)"
    by (rule yearDay_cycles [OF yd])
  have "0 \<le> a" using assms(1) d b u by linarith
  moreover have "a \<le> 24" using assms(2) d b u by linarith
  moreover have "a < 24 \<or> 100 * b + 4 * c + e < 399" using assms(2) d b u \<open>a \<le> 24\<close> by linarith
  ultimately have "1 \<le> y" "y \<le> 9999" unfolding y using b by linarith+
  then show ?thesis by (simp add: civil_def yd split: prod.split)
qed

lemma parseDate_day:
  assumes "0 \<le> n" and "n < 3652059"
  shows "parseDate (dateText n) = Some \<lparr>instant = n * 86400 * 1000000000, offset = 0\<rparr>"
proof -
  obtain y m d where c: "civil n = (y, m, d)" by (cases "civil n")
  with civil_year_range [OF assms] have "0 \<le> y" "y \<le> 9999" by simp_all
  with c show ?thesis by (rule parseDate_dateText)
qed

lemma dateText_eq_iff:
  assumes "0 \<le> a" "a < 3652059" "0 \<le> b" "b < 3652059"
  shows "dateText a = dateText b \<longleftrightarrow> a = b"
proof
  assume "dateText a = dateText b"
  with parseDate_day [OF assms(1,2)] parseDate_day [OF assms(3,4)]
  have "a * 86400 * 1000000000 = b * 86400 * 1000000000" by (simp only: option.inject gotime.iffs)
  then show "a = b" by simp
qed simp

end
