(* ===== verification/Analytics.thy ===== *)
theory Analytics
  imports Sales_Correct Calendar "HOL-Library.Product_Lexorder"
begin

text \<open>
  The dashboard summary of \<^verbatim>\<open>boltstore.go\<close> (\<^verbatim>\<open>Analytics\<close>): one pass over the stored sales
  that fills seven day buckets, twenty-four hour buckets, the totals of today and yesterday
  and the per-product figures, then ranks the products. The pass is \<open>countSale\<close> folded over
  the sales; the lemmas give every bucket as the (64-bit) sum over the sales that belong in
  it. The product figures are a Go map; it is kept as a list in order of first sale, and
  \<open>rankStats_perm\<close> shows that the order in which the map is walked does not matter.
\<close>

section \<open>The code\<close>

record DaySummary =
  dsTotalCents :: int
  dsSaleCount :: int
  dsItemCount :: int

record DayBucket =
  dbDate :: string
  dbLabel :: string
  dbTotalCents :: int

record ProductStat =
  psName :: string
  psQty :: int
  psRevenueCents :: int

record HourBucket =
  hbHour :: int
  hbTotalCents :: int

record Analytics =
  anToday :: DaySummary
  anYesterday :: DaySummary
  anDays :: "DayBucket list"
  anTopProducts :: "ProductStat list"
  anHours :: "HourBucket list"

definition windowStart :: "gotime \<Rightarrow> gotime" where
  "windowStart now = addDays (- 6) (startOfDay now)"

definition emptyDays :: "gotime \<Rightarrow> DayBucket list" where
  "emptyDays now = map (\<lambda>i. let d = addDays (int i) (windowStart now) in
     \<lparr>dbDate = formatDate d, dbLabel = formatWeekday d, dbTotalCents = 0\<rparr>) [0..<7]"

definition dayIndex :: "gotime \<Rightarrow> string \<rightharpoonup> nat" where
  "dayIndex now = foldl (\<lambda>m i. m(formatDate (addDays (int i) (windowStart now)) \<mapsto> i)) Map.empty [0..<7]"

definition emptyHours :: "HourBucket list" where
  "emptyHours = map (\<lambda>h. \<lparr>hbHour = int h, hbTotalCents = 0\<rparr>) [0..<24]"

fun addStat :: "ProductStat list \<Rightarrow> SaleItem \<Rightarrow> ProductStat list" where
  "addStat [] it = [\<lparr>psName = itName it, psQty = wrapI (itQty it),
     psRevenueCents = wrap64 (wrap64 (itPriceCents it * itQty it))\<rparr>]"
| "addStat (ps # pss) it =
     (if psName ps = itName it
      then ps\<lparr>psQty := wrapI (psQty ps + itQty it),
              psRevenueCents := wrap64 (psRevenueCents ps + wrap64 (itPriceCents it * itQty it))\<rparr> # pss
      else ps # addStat pss it)"

definition addSale :: "Sale \<Rightarrow> DaySummary \<Rightarrow> DaySummary" where
  "addSale s d =
     d\<lparr>dsTotalCents := wrap64 (dsTotalCents d + saTotalCents s), dsSaleCount := wrapI (dsSaleCount d + 1),
       dsItemCount := wrapI (dsItemCount d + foldl (\<lambda>n it. wrapI (n + itQty it)) 0 (saItems s))\<rparr>"

definition addDay :: "(string \<rightharpoonup> nat) \<Rightarrow> Sale \<Rightarrow> DayBucket list \<Rightarrow> DayBucket list" where
  "addDay idx s days =
     (case idx (formatDate (saCreatedAt s)) of
        None \<Rightarrow> days
      | Some i \<Rightarrow> days[i := (days ! i)\<lparr>dbTotalCents := wrap64 (dbTotalCents (days ! i) + saTotalCents s)\<rparr>])"

definition addHour :: "Sale \<Rightarrow> HourBucket list \<Rightarrow> HourBucket list" where
  "addHour s hours =
     (let h = nat (hourOf (saCreatedAt s)) in
      hours[h := (hours ! h)\<lparr>hbTotalCents := wrap64 (hbTotalCents (hours ! h) + saTotalCents s)\<rparr>])"

definition countSale :: "gotime \<Rightarrow> Analytics \<times> ProductStat list \<Rightarrow> Sale \<Rightarrow> Analytics \<times> ProductStat list" where
  "countSale now acc s = (case acc of (a, agg) \<Rightarrow>
     if tBefore (saCreatedAt s) (windowStart now) then (a, agg)
     else
       (a\<lparr>anDays := addDay (dayIndex now) s (anDays a), anHours := addHour s (anHours a),
          anToday := (if \<not> tBefore (saCreatedAt s) (startOfDay now) then addSale s (anToday a) else anToday a),
          anYesterday := (if tBefore (saCreatedAt s) (startOfDay now) \<and>
                             \<not> tBefore (saCreatedAt s) (addDays (- 1) (startOfDay now))
                          then addSale s (anYesterday a) else anYesterday a)\<rparr>,
        foldl addStat agg (saItems s)))"

text \<open>\<^verbatim>\<open>sort.Slice\<close> by revenue, highest first, then by name. Names are distinct, so the order
  is strict and the ranking unique.\<close>

definition rankStats :: "ProductStat list \<Rightarrow> ProductStat list" where
  "rankStats agg = take 5 (sort_key (\<lambda>ps. (- psRevenueCents ps, psName ps)) agg)"

definition noSummary :: DaySummary where
  "noSummary = \<lparr>dsTotalCents = 0, dsSaleCount = 0, dsItemCount = 0\<rparr>"

definition emptyAnalytics :: "gotime \<Rightarrow> Analytics" where
  "emptyAnalytics now = \<lparr>anToday = noSummary, anYesterday = noSummary, anDays = emptyDays now,
     anTopProducts = [], anHours = emptyHours\<rparr>"

definition AnalyticsAt :: "gotime \<Rightarrow> db \<Rightarrow> err + Analytics" where
  "AnalyticsAt now D =
     rbind (unmarshalAll (bSales D)) (\<lambda>ss.
       case foldl (countSale now) (emptyAnalytics now, []) ss of (a, agg) \<Rightarrow>
         Inr (a\<lparr>anTopProducts := rankStats agg\<rparr>))"

section \<open>The pass in closed form\<close>

definition inWindow :: "gotime \<Rightarrow> Sale \<Rightarrow> bool" where
  "inWindow now s \<longleftrightarrow> \<not> tBefore (saCreatedAt s) (windowStart now)"

definition sumTotals :: "(Sale \<Rightarrow> bool) \<Rightarrow> Sale list \<Rightarrow> int" where
  "sumTotals P ss = wrap64 (sum_list (map saTotalCents (filter P ss)))"

lemma sumTotals_simps [simp]:
  "sumTotals P [] = 0"
  "sumTotals P (ss @ [s]) = (if P s then wrap64 (sumTotals P ss + saTotalCents s) else sumTotals P ss)"
  by (simp_all add: sumTotals_def goint fits64_def)

definition summaryOf :: "(Sale \<Rightarrow> bool) \<Rightarrow> Sale list \<Rightarrow> DaySummary" where
  "summaryOf P ss = \<lparr>dsTotalCents = sumTotals P ss, dsSaleCount = wrapI (int (length (filter P ss))),
     dsItemCount = wrapI (sum_list (map (\<lambda>s. sum_list (map itQty (saItems s))) (filter P ss)))\<rparr>"

lemma foldl_wrapI: "foldl (\<lambda>n x. wrapI (n + f x)) (wrapI a) xs = wrapI (a + sum_list (map f xs))"
  by (induction xs arbitrary: a) (simp_all add: goint add.assoc)

lemma summaryOf_simps:
  "summaryOf P [] = noSummary"
  "summaryOf P (ss @ [s]) = (if P s then addSale s (summaryOf P ss) else summaryOf P ss)"
  using foldl_wrapI [of itQty 0 "saItems s"]
  by (simp_all add: summaryOf_def noSummary_def addSale_def goint)

definition bumpAt :: "nat \<Rightarrow> Sale \<Rightarrow> DayBucket list \<Rightarrow> DayBucket list" where
  "bumpAt i s days = days[i := (days ! i)\<lparr>dbTotalCents := wrap64 (dbTotalCents (days ! i) + saTotalCents s)\<rparr>]"

text \<open>After the pass every field is the figure over the sales that belong to it.\<close>

definition dayHit :: "gotime \<Rightarrow> nat \<Rightarrow> Sale \<Rightarrow> bool" where
  "dayHit now i s \<longleftrightarrow> inWindow now s \<and> dayIndex now (formatDate (saCreatedAt s)) = Some i"

definition hourHit :: "gotime \<Rightarrow> nat \<Rightarrow> Sale \<Rightarrow> bool" where
  "hourHit now h s \<longleftrightarrow> inWindow now s \<and> hourOf (saCreatedAt s) = int h"

definition todayHit :: "gotime \<Rightarrow> Sale \<Rightarrow> bool" where
  "todayHit now s \<longleftrightarrow> inWindow now s \<and> \<not> tBefore (saCreatedAt s) (startOfDay now)"

definition yesterdayHit :: "gotime \<Rightarrow> Sale \<Rightarrow> bool" where
  "yesterdayHit now s \<longleftrightarrow> inWindow now s \<and> tBefore (saCreatedAt s) (startOfDay now) \<and>
     \<not> tBefore (saCreatedAt s) (addDays (- 1) (startOfDay now))"

definition analyticsOf :: "gotime \<Rightarrow> Sale list \<Rightarrow> Analytics" where
  "analyticsOf now ss = \<lparr>anToday = summaryOf (todayHit now) ss, anYesterday = summaryOf (yesterdayHit now) ss,
     anDays = map (\<lambda>i. (emptyDays now ! i)\<lparr>dbTotalCents := sumTotals (dayHit now i) ss\<rparr>) [0..<7],
     anTopProducts = [],
     anHours = map (\<lambda>h. \<lparr>hbHour = int h, hbTotalCents = sumTotals (hourHit now h) ss\<rparr>) [0..<24]\<rparr>"

definition windowItems :: "gotime \<Rightarrow> Sale list \<Rightarrow> SaleItem list" where
  "windowItems now ss = concat (map saItems (filter (inWindow now) ss))"

lemma dayIndex_less: "dayIndex now k = Some i \<Longrightarrow> i < 7"
  by (simp add: dayIndex_def numeral_eq_Suc upt_rec split: if_splits)

lemma addDay_map:
  assumes "\<And>i. idx (formatDate (saCreatedAt s)) = Some i \<Longrightarrow> i < n"
  shows "addDay idx s (map (\<lambda>i. (b i)\<lparr>dbTotalCents := f i\<rparr>) [0..<n]) =
    map (\<lambda>i. (b i)\<lparr>dbTotalCents := (if idx (formatDate (saCreatedAt s)) = Some i
                  then wrap64 (f i + saTotalCents s) else f i)\<rparr>) [0..<n]"
  using assms by (auto simp: addDay_def list_eq_iff_nth_eq nth_list_update split: option.split)

lemma addHour_map:
  assumes "24 = n"
  shows "addHour s (map (\<lambda>h. \<lparr>hbHour = int h, hbTotalCents = f h\<rparr>) [0..<n]) =
    map (\<lambda>h. \<lparr>hbHour = int h, hbTotalCents =
          (if hourOf (saCreatedAt s) = int h then wrap64 (f h + saTotalCents s) else f h)\<rparr>) [0..<n]"
proof -
  obtain k where k: "hourOf (saCreatedAt s) = int k" "k < n"
    using hour_range [of "saCreatedAt s"] assms by (metis int_ops(3) nat_int nat_less_iff of_nat_0_le_iff zero_le_imp_eq_int)
  show ?thesis using k(2) by (auto simp: addHour_def Let_def k(1) list_eq_iff_nth_eq nth_list_update)
qed

lemma foldl_countSale:
  "foldl (countSale now) (emptyAnalytics now, []) ss =
     (analyticsOf now ss, foldl addStat [] (windowItems now ss))"
proof (induction ss rule: rev_induct)
  case Nil
  have "emptyDays now = map (\<lambda>i. (emptyDays now ! i)\<lparr>dbTotalCents := 0\<rparr>) [0..<7]"
    by (simp add: emptyDays_def list_eq_iff_nth_eq Let_def)
  then show ?case
    by (simp add: emptyAnalytics_def analyticsOf_def summaryOf_simps emptyHours_def windowItems_def)
next
  case (snoc s ss)
  show ?case
  proof (cases "inWindow now s")
    case False
    then have "analyticsOf now (ss @ [s]) = analyticsOf now ss"
      by (simp add: analyticsOf_def summaryOf_simps dayHit_def hourHit_def todayHit_def yesterdayHit_def)
    moreover have "windowItems now (ss @ [s]) = windowItems now ss" using False by (simp add: windowItems_def)
    ultimately show ?thesis using snoc False by (simp add: countSale_def inWindow_def)
  next
    case True
    let ?idx = "dayIndex now" and ?c = "saCreatedAt s"
    have days: "addDay ?idx s (anDays (analyticsOf now ss)) = anDays (analyticsOf now (ss @ [s]))"
      using True by (simp add: analyticsOf_def addDay_map dayIndex_less dayHit_def if_distrib cong: if_cong)
    have hours: "addHour s (anHours (analyticsOf now ss)) = anHours (analyticsOf now (ss @ [s]))"
      using True by (simp add: analyticsOf_def addHour_map hourHit_def)
    have today: "anToday (analyticsOf now (ss @ [s])) =
        (if \<not> tBefore ?c (startOfDay now) then addSale s (anToday (analyticsOf now ss)) else anToday (analyticsOf now ss))"
      using True by (simp add: analyticsOf_def summaryOf_simps todayHit_def)
    have yesterday: "anYesterday (analyticsOf now (ss @ [s])) =
        (if tBefore ?c (startOfDay now) \<and> \<not> tBefore ?c (addDays (- 1) (startOfDay now))
         then addSale s (anYesterday (analyticsOf now ss)) else anYesterday (analyticsOf now ss))"
      using True by (simp add: analyticsOf_def summaryOf_simps yesterdayHit_def)
    have top: "anTopProducts (analyticsOf now xs) = []" for xs by (simp add: analyticsOf_def)
    have "countSale now (analyticsOf now ss, agg) s = (analyticsOf now (ss @ [s]), foldl addStat agg (saItems s))" for agg
      using True by (simp add: countSale_def inWindow_def days hours flip: today yesterday) (simp add: top)
    moreover have "windowItems now (ss @ [s]) = windowItems now ss @ saItems s"
      using True by (simp add: windowItems_def)
    ultimately show ?thesis using snoc by simp
  qed
qed

lemma AnalyticsAt_eq:
  "readable (bSales D) \<Longrightarrow> AnalyticsAt now D =
     Inr ((analyticsOf now (cellVals (bSales D)))\<lparr>anTopProducts :=
       rankStats (foldl addStat [] (windowItems now (cellVals (bSales D))))\<rparr>)"
  by (simp add: AnalyticsAt_def foldl_countSale)

section \<open>What the dashboard shows\<close>

lemma dayIndex_day:
  assumes "6 \<le> localDay now" and "localDay now < 3652059" and "0 \<le> n" and "n < 3652059"
  shows "dayIndex now (dateText n) = Some i \<longleftrightarrow> i < 7 \<and> n = localDay now - 6 + int i"
proof -
  have key: "formatDate (addDays (int j) (windowStart now)) = dateText (localDay now - 6 + int j)" for j
    by (simp add: formatDate_def windowStart_def)
  let ?k = "\<lambda>j. dateText (localDay now - 6 + int j)"
  have rng: "0 \<le> localDay now - 6 + int j \<and> localDay now - 6 + int j < 3652059" if "j < 7" for j
    using assms that by linarith
  have fold: "foldl (\<lambda>m i. m(k i \<mapsto> i)) Map.empty [0..<N] x = Some i \<longleftrightarrow> i < N \<and> x = k i"
    if inj: "inj_on k {..<N}" for k :: "nat \<Rightarrow> string" and N x
    using inj
  proof (induction N)
    case (Suc N)
    have "inj_on k {..<N}" using Suc.prems by (rule inj_on_subset) auto
    note IH = Suc.IH [OF this]
    have ne: "k j \<noteq> k N" if "j < N" for j
      using inj_onD [OF Suc.prems, of j N] that by auto
    have "foldl (\<lambda>m i. m(k i \<mapsto> i)) Map.empty [0..<Suc N] x = Some i \<longleftrightarrow>
        (if x = k N then N = i else i < N \<and> x = k i)"
      by (simp add: IH)
    also have "\<dots> \<longleftrightarrow> i < Suc N \<and> x = k i" using ne by (metis less_Suc_eq)
    finally show ?case .
  qed simp
  have inj: "inj_on ?k {..<7}"
  proof (rule inj_onI)
    fix a b :: nat
    assume "a \<in> {..<7}" "b \<in> {..<7}"
    then have ab: "a < 7" "b < 7" by simp_all
    assume "?k a = ?k b"
    moreover have "?k a = ?k b \<longleftrightarrow> localDay now - 6 + int a = localDay now - 6 + int b"
      using rng [OF ab(1)] rng [OF ab(2)] by (intro dateText_eq_iff) auto
    ultimately show "a = b" by linarith
  qed
  have idx: "dayIndex now (dateText n) = Some i \<longleftrightarrow> i < 7 \<and> dateText n = ?k i"
    unfolding dayIndex_def key by (rule fold [OF inj])
  have "dateText n = ?k i \<longleftrightarrow> n = localDay now - 6 + int i" if "i < 7"
    using rng [OF that] assms(3,4) by (intro dateText_eq_iff) auto
  with idx show ?thesis by blast
qed

lemma sumTotals_cong: "(\<And>s. s \<in> set ss \<Longrightarrow> P s = Q s) \<Longrightarrow> sumTotals P ss = sumTotals Q ss"
  unfolding sumTotals_def by (metis filter_cong)

lemma summaryOf_cong: "(\<And>s. s \<in> set ss \<Longrightarrow> P s = Q s) \<Longrightarrow> summaryOf P ss = summaryOf Q ss"
  unfolding summaryOf_def sumTotals_def by (metis filter_cong)

definition oneZone :: "gotime \<Rightarrow> Sale list \<Rightarrow> bool" where
  "oneZone now ss \<longleftrightarrow> 6 \<le> localDay now \<and> localDay now < 3652059 \<and>
     list_all (\<lambda>s. offset (saCreatedAt s) = offset now \<and> localDay (saCreatedAt s) < 3652059) ss"

lemma hits:
  assumes "oneZone now ss" and "s \<in> set ss"
  shows "inWindow now s \<longleftrightarrow> localDay now - 6 \<le> localDay (saCreatedAt s)"
    and "i < 7 \<Longrightarrow> dayHit now i s \<longleftrightarrow> localDay (saCreatedAt s) = localDay now - 6 + int i"
    and "hourHit now h s \<longleftrightarrow> localDay now - 6 \<le> localDay (saCreatedAt s) \<and> hourOf (saCreatedAt s) = int h"
    and "todayHit now s \<longleftrightarrow> localDay now \<le> localDay (saCreatedAt s)"
    and "yesterdayHit now s \<longleftrightarrow> localDay (saCreatedAt s) = localDay now - 1"
proof -
  have s: "offset (saCreatedAt s) = offset now" "localDay (saCreatedAt s) < 3652059"
    and now: "6 \<le> localDay now" "localDay now < 3652059"
    using assms by (auto simp: oneZone_def list_all_iff)
  have less: "tBefore (saCreatedAt s) (addDays n (startOfDay now)) \<longleftrightarrow> localDay (saCreatedAt s) < localDay now + n" for n
    by (simp add: tBefore_def startOfDay_less_iff [OF s(1)])
  have "addDays 0 t = t" for t by (simp add: addDays_def)
  with less [of 0] have less0: "tBefore (saCreatedAt s) (startOfDay now) \<longleftrightarrow> localDay (saCreatedAt s) < localDay now"
    by simp
  show w: "inWindow now s \<longleftrightarrow> localDay now - 6 \<le> localDay (saCreatedAt s)"
    by (auto simp: inWindow_def windowStart_def less)
  show "dayHit now i s \<longleftrightarrow> localDay (saCreatedAt s) = localDay now - 6 + int i" if "i < 7"
  proof (cases "localDay now - 6 \<le> localDay (saCreatedAt s)")
    case True
    with now s(2) that show ?thesis by (simp add: dayHit_def w formatDate_def dayIndex_day)
  qed (auto simp: dayHit_def w)
  show "hourHit now h s \<longleftrightarrow> localDay now - 6 \<le> localDay (saCreatedAt s) \<and> hourOf (saCreatedAt s) = int h"
    by (simp add: hourHit_def w)
  show "todayHit now s \<longleftrightarrow> localDay now \<le> localDay (saCreatedAt s)"
    by (auto simp: todayHit_def w less0)
  show "yesterdayHit now s \<longleftrightarrow> localDay (saCreatedAt s) = localDay now - 1"
    by (auto simp: yesterdayHit_def w less0 less)
qed

text \<open>
  C28. The dashboard adds up. When the sales were made in the zone the clock shows, the seven
  bars are the last seven days in order, each the total of that day's sales; each hour's
  figure is the total of the week's sales of that hour; and today and yesterday carry
  the total, the number of sales and the number of items of their day (a sale dated ahead of
  the clock counts as today's).
\<close>

theorem Analytics_buckets:
  assumes "readable (bSales D)" and "oneZone now (cellVals (bSales D))"
  shows "\<exists>a. AnalyticsAt now D = Inr a \<and>
     map dbDate (anDays a) = map (\<lambda>i. dateText (localDay now - 6 + int i)) [0..<7] \<and>
     map dbTotalCents (anDays a) =
       map (\<lambda>i. sumTotals (\<lambda>s. localDay (saCreatedAt s) = localDay now - 6 + int i) (cellVals (bSales D))) [0..<7] \<and>
     map hbTotalCents (anHours a) =
       map (\<lambda>h. sumTotals (\<lambda>s. localDay now - 6 \<le> localDay (saCreatedAt s) \<and> hourOf (saCreatedAt s) = int h)
                  (cellVals (bSales D))) [0..<24] \<and>
     anToday a = summaryOf (\<lambda>s. localDay now \<le> localDay (saCreatedAt s)) (cellVals (bSales D)) \<and>
     anYesterday a = summaryOf (\<lambda>s. localDay (saCreatedAt s) = localDay now - 1) (cellVals (bSales D))"
proof -
  let ?ss = "cellVals (bSales D)"
  have days: "map dbTotalCents (anDays (analyticsOf now ?ss)) =
      map (\<lambda>i. sumTotals (\<lambda>s. localDay (saCreatedAt s) = localDay now - 6 + int i) ?ss) [0..<7]"
    using hits(2) [OF assms(2)] by (auto simp: analyticsOf_def intro!: sumTotals_cong)
  have dates: "map dbDate (anDays (analyticsOf now ?ss)) = map (\<lambda>i. dateText (localDay now - 6 + int i)) [0..<7]"
    by (auto simp: analyticsOf_def emptyDays_def Let_def formatDate_def windowStart_def)
  have hours: "map hbTotalCents (anHours (analyticsOf now ?ss)) =
      map (\<lambda>h. sumTotals (\<lambda>s. localDay now - 6 \<le> localDay (saCreatedAt s) \<and> hourOf (saCreatedAt s) = int h) ?ss) [0..<24]"
    using hits(3) [OF assms(2)] by (auto simp: analyticsOf_def intro!: sumTotals_cong)
  have "summaryOf (todayHit now) ?ss = summaryOf (\<lambda>s. localDay now \<le> localDay (saCreatedAt s)) ?ss"
    and "summaryOf (yesterdayHit now) ?ss = summaryOf (\<lambda>s. localDay (saCreatedAt s) = localDay now - 1) ?ss"
    using hits(4,5) [OF assms(2)] by (auto intro!: summaryOf_cong)
  then show ?thesis using days dates hours AnalyticsAt_eq [OF assms(1), of now]
    by (auto simp: analyticsOf_def)
qed

lemma demoSold_readable: "readable (bSales demoSold)"
  by (simp add: readable_def)

lemma demoSold_zone: "oneZone (addDays 9 (demoTime 9)) (cellVals (bSales demoSold))"
  by (simp add: oneZone_def localDay_def localSec_def demoTime_def addDays_def)

theorem Analytics_buckets_witness:
  "\<exists>a. AnalyticsAt (addDays 9 (demoTime 9)) demoSold = Inr a \<and> length (anDays a) = 7"
proof -
  obtain a where "AnalyticsAt (addDays 9 (demoTime 9)) demoSold = Inr a"
    and "map dbDate (anDays a) = map (\<lambda>i. dateText (localDay (addDays 9 (demoTime 9)) - 6 + int i)) [0..<7]"
    using Analytics_buckets [OF demoSold_readable demoSold_zone] by blast
  moreover have "length (map dbDate (anDays a)) = 7" unfolding calculation(2) by simp
  then have "length (anDays a) = 7" by (simp only: length_map)
  ultimately show ?thesis by blast
qed

section \<open>The ranking\<close>

lemma addStat_names: "set (map psName (addStat pss it)) = insert (itName it) (set (map psName pss))"
  by (induction pss it rule: addStat.induct) auto

lemma addStat_distinct: "distinct (map psName pss) \<Longrightarrow> distinct (map psName (addStat pss it))"
proof (induction pss it rule: addStat.induct)
  case (2 ps pss it)
  then show ?case using addStat_names [of pss it] by auto
qed simp

definition statOf :: "string \<Rightarrow> SaleItem list \<Rightarrow> ProductStat" where
  "statOf n its = \<lparr>psName = n, psQty = wrapI (sum_list (map itQty (filter (\<lambda>it. itName it = n) its))),
     psRevenueCents = wrap64 (sum_list (map (\<lambda>it. itPriceCents it * itQty it) (filter (\<lambda>it. itName it = n) its)))\<rparr>"

definition bumpStat :: "SaleItem \<Rightarrow> ProductStat \<Rightarrow> ProductStat" where
  "bumpStat it ps = ps\<lparr>psQty := wrapI (psQty ps + itQty it),
     psRevenueCents := wrap64 (psRevenueCents ps + wrap64 (itPriceCents it * itQty it))\<rparr>"

abbreviation statFor :: "string \<Rightarrow> ProductStat list \<Rightarrow> ProductStat option" where
  "statFor n \<equiv> find (\<lambda>ps. psName ps = n)"

lemma statFor_addStat:
  "statFor n (addStat pss it) =
     (if n = itName it
      then Some (bumpStat it (case statFor n pss of None \<Rightarrow> \<lparr>psName = n, psQty = 0, psRevenueCents = 0\<rparr> | Some ps \<Rightarrow> ps))
      else statFor n pss)"
  by (induction pss it rule: addStat.induct) (auto simp: bumpStat_def)

lemma statOf_snoc:
  "statOf n (its @ [it]) = (if itName it = n then bumpStat it (statOf n its) else statOf n its)"
  by (simp add: statOf_def bumpStat_def goint)

lemma statOf_none: "n \<notin> itName ` set its \<Longrightarrow> statOf n its = \<lparr>psName = n, psQty = 0, psRevenueCents = 0\<rparr>"
proof -
  assume "n \<notin> itName ` set its"
  then have "\<forall>x \<in> set its. itName x \<noteq> n" by (metis imageI)
  then have "filter (\<lambda>x. itName x = n) its = []" by (simp add: filter_empty_conv)
  then show ?thesis by (simp add: statOf_def fits64_def)
qed

lemma statFor_all:
  "statFor n (foldl addStat [] its) = (if n \<in> itName ` set its then Some (statOf n its) else None)"
proof (induction its rule: rev_induct)
  case (snoc it its)
  then show ?case by (auto simp: statFor_addStat statOf_snoc statOf_none)
qed simp

lemma stats_distinct: "distinct (map psName (foldl addStat [] its))"
  by (induction its rule: rev_induct) (simp_all add: addStat_distinct)

lemma find_distinct:
  "distinct (map f xs) \<Longrightarrow> x \<in> set xs \<longleftrightarrow> find (\<lambda>y. f y = f x) xs = Some x"
  by (induction xs) (auto simp: image_iff)

lemma stats_set: "set (foldl addStat [] its) = (\<lambda>n. statOf n its) ` itName ` set its"
proof (intro set_eqI)
  fix p
  have "p \<in> set (foldl addStat [] its) \<longleftrightarrow> psName p \<in> itName ` set its \<and> statOf (psName p) its = p"
    by (simp add: find_distinct [OF stats_distinct] statFor_all)
  also have "\<dots> \<longleftrightarrow> p \<in> (\<lambda>n. statOf n its) ` itName ` set its" by (auto simp: statOf_def)
  finally show "p \<in> set (foldl addStat [] its) \<longleftrightarrow> p \<in> (\<lambda>n. statOf n its) ` itName ` set its" .
qed

text \<open>The map's walking order does not matter: names are distinct, so the order of the ranking
  is strict.\<close>

abbreviation rankKey :: "ProductStat \<Rightarrow> int \<times> string" where
  "rankKey ps \<equiv> (- psRevenueCents ps, psName ps)"

lemma distinct_rankKey: "distinct (map psName xs) \<Longrightarrow> distinct (map rankKey xs)"
  by (induction xs) (auto simp: image_iff)

lemma rankStats_perm:
  assumes "mset xs = mset ys" and "distinct (map psName ys)"
  shows "rankStats xs = rankStats ys"
proof -
  have "mset (map psName xs) = mset (map psName ys)" using assms(1) by simp
  then have "distinct (map psName xs)" using assms(2) by (metis mset_eq_imp_distinct_iff)
  note d = distinct_rankKey [OF this] distinct_rankKey [OF assms(2)]
  have same: "set xs = set ys" using assms(1) by (rule mset_eq_setD)
  have dist: "distinct (map rankKey (sort_key rankKey zs))" if "distinct (map rankKey zs)" for zs
  proof -
    have "mset (map rankKey (sort_key rankKey zs)) = mset (map rankKey zs)" by simp
    from mset_eq_imp_distinct_iff [OF this] that show ?thesis by blast
  qed
  have "inj_on rankKey (set ys)" using d(2) by (simp add: distinct_map)
  then have "sort_key rankKey xs = sort_key rankKey ys"
    using map_sorted_distinct_set_unique [of rankKey "sort_key rankKey xs" "sort_key rankKey ys",
        OF _ sorted_sort_key dist [OF d(1)] sorted_sort_key dist [OF d(2)]] same
    by (simp only: set_sort Un_absorb)
  then show ?thesis by (simp add: rankStats_def)
qed

text \<open>
  The best sellers: for the items sold in the window, at most five entries, one per name,
  each with the quantity and revenue sold under that name, ordered by revenue and then by
  name; a product left out does not rank above one that is in; and walking the map of
  figures in any other order gives the same ranking.
\<close>

theorem Analytics_top:
  assumes "AnalyticsAt now D = Inr a"
  defines "its \<equiv> windowItems now (cellVals (bSales D))"
  shows "length (anTopProducts a) = min 5 (card (itName ` set its)) \<and>
     distinct (map psName (anTopProducts a)) \<and> sorted (map rankKey (anTopProducts a)) \<and>
     set (anTopProducts a) \<subseteq> (\<lambda>n. statOf n its) ` itName ` set its \<and>
     (\<forall>n p. n \<in> itName ` set its \<and> statOf n its \<notin> set (anTopProducts a) \<and> p \<in> set (anTopProducts a) \<longrightarrow>
        rankKey p \<le> rankKey (statOf n its)) \<and>
     (\<forall>agg. mset agg = mset (foldl addStat [] its) \<longrightarrow> rankStats agg = anTopProducts a)"
proof -
  let ?agg = "foldl addStat [] its"
  let ?r = "sort_key rankKey ?agg"
  have "readable (bSales D)" using assms(1) by (auto simp: AnalyticsAt_def result_simps)
  then have top: "anTopProducts a = rankStats ?agg"
    using assms(1) AnalyticsAt_eq [of D now] by (auto simp: its_def)
  have "distinct (map psName ?r)"
  proof -
    have "mset (map psName ?r) = mset (map psName ?agg)" by simp
    from mset_eq_imp_distinct_iff [OF this] stats_distinct [of its] show ?thesis by blast
  qed
  then have dist: "distinct (map psName (take 5 ?r))" unfolding take_map [symmetric] by (rule distinct_take)
  have "sorted (map rankKey ?r)" by (rule sorted_sort_key)
  then have sorted: "sorted_wrt (\<lambda>p q. rankKey p \<le> rankKey q) ?r" by (simp only: sorted_map)
  then have "sorted_wrt (\<lambda>p q. rankKey p \<le> rankKey q) (take 5 ?r @ drop 5 ?r)" by simp
  then have split: "sorted_wrt (\<lambda>p q. rankKey p \<le> rankKey q) (take 5 ?r)"
    "\<And>p q. p \<in> set (take 5 ?r) \<Longrightarrow> q \<in> set (drop 5 ?r) \<Longrightarrow> rankKey p \<le> rankKey q"
    unfolding sorted_wrt_append by auto
  have sets: "set ?r = (\<lambda>n. statOf n its) ` itName ` set its" by (simp add: stats_set)
  have parts: "set ?r = set (take 5 ?r) \<union> set (drop 5 ?r)" by (metis append_take_drop_id set_append)
  have "length ?agg = card (itName ` set its)"
  proof -
    have "length ?agg = card (psName ` set ?agg)" using stats_distinct [of its] by (metis distinct_card length_map set_map)
    also have "psName ` set ?agg = itName ` set its" by (simp add: stats_set image_image statOf_def)
    finally show ?thesis .
  qed
  then have "length (take 5 ?r) = min 5 (card (itName ` set its))" by simp
  moreover have "rankKey p \<le> rankKey (statOf n its)"
    if "n \<in> itName ` set its" "statOf n its \<notin> set (take 5 ?r)" "p \<in> set (take 5 ?r)" for n p
  proof -
    have "statOf n its \<in> set ?r" using sets that(1) by blast
    then have "statOf n its \<in> set (drop 5 ?r)" using parts that(2) by blast
    then show ?thesis by (rule split(2) [OF that(3)])
  qed
  moreover have "set (take 5 ?r) \<subseteq> (\<lambda>n. statOf n its) ` itName ` set its"
    using sets parts by blast
  moreover have "sorted (map rankKey (take 5 ?r))" using split(1) by (simp only: sorted_map)
  moreover have "rankStats agg = rankStats ?agg" if "mset agg = mset ?agg" for agg
    using rankStats_perm [OF that stats_distinct] .
  ultimately show ?thesis using dist unfolding top rankStats_def by blast
qed

theorem Analytics_top_witness:
  "\<exists>a. AnalyticsAt (demoTime 9) demoSold = Inr a \<and> length (anTopProducts a) = 1"
proof -
  obtain a where a: "AnalyticsAt (demoTime 9) demoSold = Inr a"
    using AnalyticsAt_eq [OF demoSold_readable] by blast
  have "itName ` set (windowItems (demoTime 9) (cellVals (bSales demoSold))) = {''Bread''}"
    by (simp add: windowItems_def inWindow_def tBefore_def windowStart_def startOfDay_def addDays_def
        demoTime_def localDay_def localSec_def) (simp add: demoRow_def)
  with Analytics_top [OF a] a show ?thesis by auto
qed

end
