(* ===== verification/GoText.thy ===== *)
theory GoText
  imports Prelude
begin

text \<open>
  The functions of Go's \<^verbatim>\<open>strings\<close> package the printing and export code uses, on byte
  strings: trimming, splitting, joining, repeating. Trimming white space removes the
  UTF-8 encodings of every Unicode space, as \<^verbatim>\<open>strings.TrimSpace\<close> does.
\<close>

definition asciiByte :: "nat \<Rightarrow> char" where
  "asciiByte n = char_of n"

text \<open>Tab to carriage return, space, U+0085, U+00A0, U+1680, U+2000 to U+200A, U+2028, U+2029,
  U+202F, U+205F and U+3000.\<close>

definition utf8Spaces :: "string list" where
  "utf8Spaces = map (map asciiByte)
     ([[0x09], [0x0A], [0x0B], [0x0C], [0x0D], [0x20], [0xC2, 0x85], [0xC2, 0xA0], [0xE1, 0x9A, 0x80]] @
      map (\<lambda>n. [0xE2, 0x80, n]) [0x80..<0x8B] @
      [[0xE2, 0x80, 0xA8], [0xE2, 0x80, 0xA9], [0xE2, 0x80, 0xAF], [0xE2, 0x81, 0x9F], [0xE3, 0x80, 0x80]])"

definition startsWith :: "'a list \<Rightarrow> 'a list \<Rightarrow> bool" where
  "startsWith w s \<longleftrightarrow> take (length w) s = w"

function stripFront :: "string list \<Rightarrow> string \<Rightarrow> string" where
  "stripFront ws s =
     (case find (\<lambda>w. w \<noteq> [] \<and> startsWith w s) ws of
        None \<Rightarrow> s
      | Some w \<Rightarrow> stripFront ws (drop (length w) s))"
  by pat_completeness auto
termination
proof (relation "measure (\<lambda>(ws, s). length s)")
  fix ws s w
  assume "find (\<lambda>w. w \<noteq> [] \<and> startsWith w s) ws = Some w"
  then have "w \<noteq> [] \<and> startsWith w s" by (auto simp: find_Some_iff)
  then have "0 < length w" "length (take (length w) s) = length w" by (auto simp: startsWith_def)
  then have "0 < length w" "0 < length s" by (auto simp: min_def split: if_splits)
  then show "((ws, drop (length w) s), ws, s) \<in> measure (\<lambda>(ws, s). length s)" by auto
qed simp

declare stripFront.simps [simp del]

definition trimSpace :: "string \<Rightarrow> string" where
  "trimSpace s = rev (stripFront (map rev utf8Spaces) (rev (stripFront utf8Spaces s)))"

text \<open>\<^verbatim>\<open>strings.TrimRight(s, cutset)\<close> and \<^verbatim>\<open>strings.Trim\<close> for a set of single bytes.\<close>

definition trimRight :: "char set \<Rightarrow> string \<Rightarrow> string" where
  "trimRight cs s = rev (dropWhile (\<lambda>c. c \<in> cs) (rev s))"

definition trimBoth :: "char set \<Rightarrow> string \<Rightarrow> string" where
  "trimBoth cs s = trimRight cs (dropWhile (\<lambda>c. c \<in> cs) s)"

text \<open>\<^verbatim>\<open>strings.Split\<close> at a single byte, and \<^verbatim>\<open>strings.Join\<close>.\<close>

fun splitAt :: "char \<Rightarrow> string \<Rightarrow> string list" where
  "splitAt c [] = [[]]"
| "splitAt c (x # xs) =
     (if x = c then [] # splitAt c xs
      else (case splitAt c xs of [] \<Rightarrow> [[x]] | l # ls \<Rightarrow> (x # l) # ls))"

fun joinWith :: "string \<Rightarrow> string list \<Rightarrow> string" where
  "joinWith sep [] = []"
| "joinWith sep [x] = x"
| "joinWith sep (x # y # ys) = x @ sep @ joinWith sep (y # ys)"

definition spaces :: "nat \<Rightarrow> string" where
  "spaces n = replicate n (CHR '' '')"

lemma length_spaces [simp]: "length (spaces n) = n"
  by (simp add: spaces_def)

section \<open>What trimming keeps\<close>

lemma stripFront_suffix: "\<exists>k. stripFront ws s = drop k s"
proof (induction ws s rule: stripFront.induct)
  case (1 ws s)
  show ?case
  proof (cases "find (\<lambda>w. w \<noteq> [] \<and> startsWith w s) ws")
    case None
    then have "stripFront ws s = drop 0 s" by (subst stripFront.simps) simp
    then show ?thesis ..
  next
    case (Some w)
    then obtain k where "stripFront ws (drop (length w) s) = drop k (drop (length w) s)" using 1 by blast
    with Some have "stripFront ws s = drop (k + length w) s" by (subst stripFront.simps) simp
    then show ?thesis ..
  qed
qed

lemma set_stripFront: "set (stripFront ws s) \<subseteq> set s"
  using stripFront_suffix [of ws s] set_drop_subset by metis

lemma set_trimSpace: "set (trimSpace s) \<subseteq> set s"
  unfolding trimSpace_def using set_stripFront [of _ "rev _"] set_stripFront [of utf8Spaces s]
  by (metis (no_types, lifting) set_rev subset_trans)

lemma set_trimRight: "set (trimRight cs s) \<subseteq> set s"
  by (auto simp: trimRight_def dest: set_dropWhileD)

lemma splitAt_ne [simp]: "splitAt c s \<noteq> []"
  by (induction s) (auto split: list.split)

lemma set_splitAt: "l \<in> set (splitAt c s) \<Longrightarrow> set l \<subseteq> set s - {c}"
proof (induction s arbitrary: l)
  case (Cons x xs)
  obtain m ms where m: "splitAt c xs = m # ms" using splitAt_ne by (metis list.exhaust)
  show ?case
  proof (cases "x = c")
    case True
    then show ?thesis using Cons by fastforce
  next
    case False
    with m Cons.prems have "l = x # m \<or> l \<in> set ms" by auto
    moreover have "m \<in> set (splitAt c xs)" and "set ms \<subseteq> set (splitAt c xs)" using m by auto
    ultimately show ?thesis using Cons.IH [of m] Cons.IH [of l] False by auto
  qed
qed simp

text \<open>Splitting and joining are inverse.\<close>

lemma joinWith_splitAt: "joinWith [c] (splitAt c s) = s"
proof (induction s)
  case (Cons x xs)
  obtain m ms where "splitAt c xs = m # ms" using splitAt_ne by (metis list.exhaust)
  then show ?case using Cons by (cases ms) auto
qed simp

lemma joinWith_length:
  "xs \<noteq> [] \<Longrightarrow> length (joinWith s xs) = sum_list (map length xs) + length s * (length xs - 1)"
  by (induction s xs rule: joinWith.induct) auto

end
