(* ===== verification/Receipt.thy ===== *)
theory Receipt
  imports GoText Calendar AuditLog
begin

unbundle bit_operations_syntax

text \<open>
  \<^verbatim>\<open>internal/printer\<close>: the receipt. \<^verbatim>\<open>receipt.go\<close> lays a sale out as lines for a paper
  width and a theme (\<open>themeLines\<close>) and renders them as ESC/POS bytes (\<open>RenderReceipt\<close>) or as
  the on-screen preview (\<open>PreviewText\<close>); \<^verbatim>\<open>printer.go\<close> holds the control sequences and the
  test slip; \<^verbatim>\<open>logo.go\<close> scales an image and packs it as a raster (\<open>rasterFromImage\<close>). Decoding
  PNG and JPEG is the parameter \<open>decodeImage\<close>. Strings are bytes, and Go's \<^verbatim>\<open>len\<close> counts
  bytes. The network send is not modelled here.
\<close>

section \<open>Data\<close>

record ReceiptItem =
  riName :: string
  riQty :: int
  riPriceCents :: int

record ReceiptData =
  rdShopName :: string
  rdHeaderLine :: string
  rdFooter :: string
  rdLogo :: bytes
  rdWhen :: gotime
  rdWidthMM :: int
  rdTheme :: string
  rdItems :: "ReceiptItem list"
  rdSubtotalCents :: int
  rdTaxCents :: int
  rdTaxRateBps :: int
  rdTaxMode :: string
  rdTotalCents :: int
  rdPaidCents :: int
  rdChangeCents :: int

record line =
  lnCenter :: bool
  lnBold :: bool
  lnDouble :: bool
  lnText :: string

abbreviation plainLine :: "string \<Rightarrow> line" where
  "plainLine t \<equiv> \<lparr>lnCenter = False, lnBold = False, lnDouble = False, lnText = t\<rparr>"

abbreviation centerLine :: "string \<Rightarrow> line" where
  "centerLine t \<equiv> \<lparr>lnCenter = True, lnBold = False, lnDouble = False, lnText = t\<rparr>"

section \<open>Text helpers\<close>

definition leftRight :: "string \<Rightarrow> string \<Rightarrow> int \<Rightarrow> string" where
  "leftRight left right width =
     (let space0 = width - int (length right);
          space = (if space0 < 1 then 1 else space0);
          left' = (if space - 1 < int (length left)
                   then (if space - 1 < 0 then [] else take (nat (space - 1)) left) else left);
          pad0 = width - int (length left') - int (length right);
          pad = (if pad0 < 1 then 1 else pad0)
      in left' @ spaces (nat pad) @ right)"

definition center :: "string \<Rightarrow> int \<Rightarrow> string" where
  "center t width =
     (if width \<le> int (length t) then t else spaces (nat ((width - int (length t)) sdiv 2)) @ t)"

definition repeatCh :: "char \<Rightarrow> int \<Rightarrow> string" where
  "repeatCh c width = replicate (nat width) c"

function groupLoop :: "string \<Rightarrow> string list \<Rightarrow> string list" where
  "groupLoop s parts =
     (if length s > 3 then groupLoop (take (length s - 3) s) (drop (length s - 3) s # parts)
      else s # parts)"
  by pat_completeness auto
termination by (relation "measure (\<lambda>(s, parts). length s)") auto

declare groupLoop.simps [simp del]

definition groupThousands :: "int \<Rightarrow> string" where
  "groupThousands n =
     (let s = itoa n in if length s \<le> 3 then s else joinWith '','' (groupLoop s []))"

definition money :: "int \<Rightarrow> string" where
  "money cents =
     (let neg = cents < 0; c = (if neg then wrap64 (- cents) else cents);
          out = ''KSh '' @ groupThousands (c sdiv 100) @ ''.'' @ pad02 (c smod 100)
      in if neg then ''-'' @ out else out)"

section \<open>Lines\<close>

definition charsForWidth :: "int \<Rightarrow> int" where
  "charsForWidth mm = (if mm = 58 then 32 else 48)"

definition vatLabel :: "int \<Rightarrow> string" where
  "vatLabel rateBps =
     (let whole = rateBps sdiv 100; frac = rateBps smod 100 in
      if frac = 0 then ''VAT ('' @ itoa whole @ ''%)''
      else ''VAT ('' @ trimRight {CHR ''.''} (trimRight {CHR ''0''} (itoa whole @ ''.'' @ pad02 frac)) @ ''%)'')"

definition footerLines :: "string \<Rightarrow> string list" where
  "footerLines footer =
     (if trimSpace footer = [] then []
      else [] # map (trimRight {CHR 0x0D}) (splitAt (CHR 0x0A) footer))"

definition itemLines :: "ReceiptData \<Rightarrow> int \<Rightarrow> line list" where
  "itemLines d w = map (\<lambda>it.
     let name = (if riQty it > 1 then riName it @ '' x'' @ itoa (riQty it) else riName it)
     in plainLine (leftRight name (money (wrap64 (riPriceCents it * riQty it))) w)) (rdItems d)"

definition moneyLines :: "ReceiptData \<Rightarrow> int \<Rightarrow> string \<Rightarrow> bool \<Rightarrow> line list" where
  "moneyLines d w totalLabel totalBold =
     (let incl = (rdTaxMode d = ''inclusive'') in
      (if rdTaxCents d > 0 \<and> \<not> incl
       then [plainLine (leftRight ''Subtotal'' (money (rdSubtotalCents d)) w),
             plainLine (leftRight (vatLabel (rdTaxRateBps d)) (money (rdTaxCents d)) w)] else []) @
      [\<lparr>lnCenter = False, lnBold = totalBold, lnDouble = False,
        lnText = leftRight totalLabel (money (rdTotalCents d)) w\<rparr>] @
      (if rdTaxCents d > 0 \<and> incl
       then [plainLine (leftRight (''Incl. '' @ vatLabel (rdTaxRateBps d)) (money (rdTaxCents d)) w)] else []) @
      [plainLine (leftRight ''Cash'' (money (rdPaidCents d)) w),
       plainLine (leftRight ''Change'' (money (rdChangeCents d)) w)])"

definition headerLines :: "(string \<Rightarrow> line) \<Rightarrow> ReceiptData \<Rightarrow> line list" where
  "headerLines mk d = (let h = trimSpace (rdHeaderLine d) in if h \<noteq> [] then [mk h] else [])"

definition classicLines :: "ReceiptData \<Rightarrow> int \<Rightarrow> line list" where
  "classicLines d w =
     [\<lparr>lnCenter = True, lnBold = True, lnDouble = True, lnText = rdShopName d\<rparr>,
      centerLine (formatReceiptTime (rdWhen d))] @
     headerLines centerLine d @
     [plainLine (repeatCh (CHR ''-'') w)] @ itemLines d w @ [plainLine (repeatCh (CHR ''-'') w)] @
     moneyLines d w ''TOTAL'' True @ map centerLine (footerLines (rdFooter d))"

definition minimalLines :: "ReceiptData \<Rightarrow> int \<Rightarrow> line list" where
  "minimalLines d w =
     [\<lparr>lnCenter = False, lnBold = True, lnDouble = False, lnText = rdShopName d\<rparr>,
      plainLine (formatReceiptTime (rdWhen d))] @
     headerLines plainLine d @
     [plainLine []] @ itemLines d w @ [plainLine []] @
     moneyLines d w ''Total'' False @ map plainLine (footerLines (rdFooter d))"

definition boldLines :: "ReceiptData \<Rightarrow> int \<Rightarrow> line list" where
  "boldLines d w =
     [plainLine (repeatCh (CHR ''='') w),
      \<lparr>lnCenter = True, lnBold = True, lnDouble = True, lnText = rdShopName d\<rparr>,
      centerLine (formatReceiptTime (rdWhen d))] @
     headerLines centerLine d @
     [plainLine (repeatCh (CHR ''='') w)] @ itemLines d w @ [plainLine (repeatCh (CHR ''='') w)] @
     moneyLines d w ''TOTAL'' True @
     map (\<lambda>f. \<lparr>lnCenter = True, lnBold = True, lnDouble = False, lnText = f\<rparr>) (footerLines (rdFooter d))"

definition themeLines :: "ReceiptData \<Rightarrow> int \<Rightarrow> line list" where
  "themeLines d w =
     (if rdTheme d = ''minimal'' then minimalLines d w
      else if rdTheme d = ''bold'' then boldLines d w
      else classicLines d w)"

definition linesToText :: "line list \<Rightarrow> int \<Rightarrow> string" where
  "linesToText ls w =
     concat (map (\<lambda>ln. (if lnCenter ln then center (lnText ln) w else lnText ln) @ [CHR 0x0A]) ls)"

definition PreviewText :: "ReceiptData \<Rightarrow> string" where
  "PreviewText d = (let w = charsForWidth (rdWidthMM d) in linesToText (themeLines d w) w)"

section \<open>Control sequences\<close>

definition escInit :: bytes where "escInit = [CHR 0x1B, CHR 0x40]"
definition alignCenter :: bytes where "alignCenter = [CHR 0x1B, CHR 0x61, CHR 0x01]"
definition alignLeft :: bytes where "alignLeft = [CHR 0x1B, CHR 0x61, CHR 0x00]"
definition boldOn :: bytes where "boldOn = [CHR 0x1B, CHR 0x45, CHR 0x01]"
definition boldOff :: bytes where "boldOff = [CHR 0x1B, CHR 0x45, CHR 0x00]"
definition doubleSize :: bytes where "doubleSize = [CHR 0x1D, CHR 0x21, CHR 0x11]"
definition normalSize :: bytes where "normalSize = [CHR 0x1D, CHR 0x21, CHR 0x00]"
definition feedAndCut :: bytes where "feedAndCut = [CHR 0x1D, CHR 0x56, CHR 0x42, CHR 0x00]"
definition lineFeed :: bytes where "lineFeed = [CHR 0x0A]"

definition testReceipt :: bytes where
  "testReceipt =
     escInit @ alignCenter @ doubleSize @ boldOn @ ''Printer ready'' @ [CHR 0x0A] @ boldOff @ normalSize @
     [CHR 0x0A] @ ''Your receipt printer is set up'' @ [CHR 0x0A] @ ''and working.'' @ [CHR 0x0A] @
     [CHR 0x0A] @ ''You can start selling.'' @ [CHR 0x0A] @ alignLeft @ lineFeed @ feedAndCut"

definition writeLine :: "line \<Rightarrow> bytes" where
  "writeLine ln =
     (if lnCenter ln then alignCenter else alignLeft) @
     (if lnDouble ln then doubleSize else []) @ (if lnBold ln then boldOn else []) @
     lnText ln @ [CHR 0x0A] @
     (if lnBold ln then boldOff else []) @ (if lnDouble ln then normalSize else [])"

definition writeLines :: "line list \<Rightarrow> bytes" where
  "writeLines ls = concat (map writeLine ls)"

section \<open>The logo\<close>

text \<open>A decoded image: its bounds and its pixels as 16-bit red, green, blue and alpha.\<close>

record image =
  imMinX :: int
  imMinY :: int
  imW :: int
  imH :: int
  imAt :: "int \<Rightarrow> int \<Rightarrow> nat \<times> nat \<times> nat \<times> nat"

definition logoMaxWidthDots :: int where "logoMaxWidthDots = 384"
definition logoMaxHeightDots :: int where "logoMaxHeightDots = 320"

definition paperDots :: "int \<Rightarrow> int" where
  "paperDots mm = (if mm = 58 then 384 else 576)"

text \<open>\<^verbatim>\<open>x &^ 7\<close> clears the low three bits, rounding towards minus infinity.\<close>

definition clear7 :: "int \<Rightarrow> int" where
  "clear7 x = x - x mod 8"

definition floorAt :: "int \<Rightarrow> int \<Rightarrow> int" where
  "floorAt m x = (if x < m then m else x)"

definition targetSize :: "int \<Rightarrow> int \<Rightarrow> int \<Rightarrow> int \<times> int" where
  "targetSize srcW srcH maxWidthDots =
     (let maxW = (if maxWidthDots \<le> 0 \<or> maxWidthDots > logoMaxWidthDots then logoMaxWidthDots else maxWidthDots);
          tw0 = floorAt 8 (clear7 (if srcW > maxW then maxW else srcW));
          th0 = wrapI (srcH * tw0) sdiv srcW;
          (tw, th) = (if th0 > logoMaxHeightDots
                      then (floorAt 8 (clear7 (wrapI (srcW * logoMaxHeightDots) sdiv srcH)), logoMaxHeightDots)
                      else (tw0, th0))
      in (tw, floorAt 1 th))"

definition inked :: "image \<Rightarrow> int \<Rightarrow> int \<Rightarrow> int \<Rightarrow> int \<Rightarrow> bool" where
  "inked im tw th y x =
     (let sy = wrapI (imMinY im + wrapI (y * imH im) sdiv th);
          sx = wrapI (imMinX im + wrapI (x * imW im) sdiv tw) in
      case imAt im sx sy of (r, g, bl, a) \<Rightarrow>
        if a < 0x8000 then False
        else (299 * r + 587 * g + 114 * bl) mod 2 ^ 32 div 1000 < 0x8000)"

definition setInk :: "image \<Rightarrow> int \<Rightarrow> int \<Rightarrow> nat list \<Rightarrow> nat \<times> nat \<Rightarrow> nat list" where
  "setInk im tw th bits p = (case p of (y, x) \<Rightarrow>
     if inked im tw th (int y) (int x)
     then let i = y * nat (tw sdiv 8) + x div 8 in bits[i := (bits ! i) OR drop_bit (x mod 8) 0x80]
     else bits)"

definition packBits :: "image \<Rightarrow> int \<Rightarrow> int \<Rightarrow> nat list" where
  "packBits im tw th =
     foldl (setInk im tw th) (replicate (nat (tw sdiv 8) * nat th) 0) (List.product [0..<nat th] [0..<nat tw])"

definition byteOf :: "int \<Rightarrow> char" where
  "byteOf n = char_of (nat (n mod 256))"

definition rasterBytes :: "image \<Rightarrow> int \<Rightarrow> bytes" where
  "rasterBytes im maxWidthDots = (case targetSize (imW im) (imH im) maxWidthDots of (tw, th) \<Rightarrow>
     let bpr = tw sdiv 8 in
     [CHR 0x1D, CHR 0x76, CHR 0x30, CHR 0x00, byteOf bpr, byteOf (bpr div 256), byteOf th, byteOf (th div 256)] @
     map char_of (packBits im tw th))"

definition rasterFromImage :: "(bytes \<Rightarrow> image option) \<Rightarrow> bytes \<Rightarrow> int \<Rightarrow> bytes option" where
  "rasterFromImage decodeImage data maxWidthDots =
     (case decodeImage data of
        None \<Rightarrow> None
      | Some im \<Rightarrow> if imW im \<le> 0 \<or> imH im \<le> 0 then None else Some (rasterBytes im maxWidthDots))"

definition RenderReceipt :: "(bytes \<Rightarrow> image option) \<Rightarrow> ReceiptData \<Rightarrow> bytes" where
  "RenderReceipt decodeImage d =
     (let w = charsForWidth (rdWidthMM d) in
      escInit @
      (if rdLogo d \<noteq> []
       then (case rasterFromImage decodeImage (rdLogo d) (paperDots (rdWidthMM d)) of
               Some raster \<Rightarrow> alignCenter @ raster @ [CHR 0x0A] @ alignLeft
             | None \<Rightarrow> []) else []) @
      writeLines (themeLines d w) @ alignLeft @ lineFeed @ feedAndCut)"

section \<open>Fitting the paper\<close>

lemma length_leftRight:
  "int (length (leftRight l r w)) = (if int (length r) < w then w else int (length r) + 1)"
  by (auto simp: leftRight_def Let_def)

lemma leftRight_ends: "\<exists>p. leftRight l r w = p @ '' '' @ r"
proof -
  obtain q k where q: "leftRight l r w = q @ spaces (nat k) @ r" "1 \<le> k"
    by (force simp: leftRight_def Let_def)
  then obtain n where "nat k = Suc n" by (cases "nat k") auto
  moreover have "spaces (Suc n) = spaces n @ '' ''" by (simp add: spaces_def replicate_append_same)
  ultimately have "leftRight l r w = (q @ spaces n) @ '' '' @ r" using q(1) by simp
  then show ?thesis ..
qed

lemma groupLoop_len:
  "sum_list (map length (groupLoop s ps)) = length s + sum_list (map length ps) \<and>
   length (groupLoop s ps) = length ps + 1 + (length s - 1) div 3"
proof (induction s ps rule: groupLoop.induct)
  case (1 s ps)
  show ?case
  proof (cases "length s > 3")
    case True
    have "(length s - 1) div 3 = Suc ((length s - 3 - 1) div 3)" using True by simp
    then show ?thesis using 1 True by (subst (1 2) groupLoop.simps) simp
  next
    case False
    then have "(length s - 1) div 3 = 0" by simp
    with False show ?thesis by (subst (1 2) groupLoop.simps) simp
  qed
qed

lemma length_groupThousands: "length (groupThousands n) \<le> length (itoa n) + (length (itoa n) - 1) div 3"
proof (cases "length (itoa n) \<le> 3")
  case False
  have "groupLoop (itoa n) [] \<noteq> []" using groupLoop_len [of "itoa n" "[]"] by auto
  then show ?thesis using False groupLoop_len [of "itoa n" "[]"]
    by (simp add: groupThousands_def joinWith_length)
qed (simp add: groupThousands_def)

lemma length_itoa:
  assumes "\<bar>n\<bar> < 10 ^ k" and "0 < k"
  shows "length (itoa n) \<le> k + of_bool (n < 0)"
proof -
  have "nat \<bar>n\<bar> < 10 ^ k" using assms(1) by (simp add: nat_less_iff)
  then have "length (ntoa (nat \<bar>n\<bar>)) \<le> k" using assms(2) by (simp add: length_ntoa)
  then show ?thesis by (cases "n < 0") (simp_all add: itoa_def)
qed

lemma length_pad02: "\<bar>r\<bar> < 100 \<Longrightarrow> - 10 < r \<Longrightarrow> length (pad02 r) \<le> 2"
proof -
  assume r: "\<bar>r\<bar> < 100" "- 10 < r"
  have "\<bar>r\<bar> < 10 ^ (if r < 10 then 1 else 2)" using r by auto
  from length_itoa [OF this] r show ?thesis by (auto simp: pad02_def split: if_splits)
qed

text \<open>The longest amount a 64-bit figure prints has 31 bytes, one less than the narrow paper.\<close>

lemma length_money:
  assumes "fits64 c"
  shows "length (money c) \<le> 31"
proof -
  have body: "length (''KSh '' @ groupThousands q @ ''.'' @ pad02 r) \<le> 29 + of_bool (q < 0)"
    if "\<bar>q\<bar> < 10 ^ 17" "\<bar>r\<bar> < 100" "- 10 < r" for q r
  proof -
    have "length (itoa q) \<le> 17 + of_bool (q < 0)" using length_itoa [OF that(1)] by simp
    moreover have "length (groupThousands q) \<le> length (itoa q) + (length (itoa q) - 1) div 3"
      by (rule length_groupThousands)
    ultimately have "length (groupThousands q) \<le> 22 + of_bool (q < 0)" by (cases "q < 0") auto
    then show ?thesis using length_pad02 [OF that(2,3)] by simp
  qed
  show ?thesis
  proof (cases "c = - (2 ^ 63)")
    case True
    have w: "wrap64 9223372036854775808 = - 9223372036854775808" by (simp add: wrap64_def wrapN_def)
    have "- 9223372036854775808 sdiv 100 = (- 92233720368547758 :: int)"
      "- 9223372036854775808 smod 100 = (- 8 :: int)" by simp_all
    with body [of "- 92233720368547758" "- 8"] show ?thesis by (simp add: money_def Let_def True w)
  next
    case False
    define a where "a = \<bar>c\<bar>"
    have a: "0 \<le> a" "a < 2 ^ 63" using assms False by (auto simp: a_def fits64_def)
    then have "a div 100 < 10 ^ 17" "0 \<le> a div 100" by auto
    then have "length (''KSh '' @ groupThousands (a div 100) @ ''.'' @ pad02 (a mod 100)) \<le> 29"
      using body [of "a div 100" "a mod 100"] by simp
    moreover have "money c = (if c < 0 then ''-'' else []) @ ''KSh '' @ groupThousands (a div 100) @ ''.'' @ pad02 (a mod 100)"
    proof -
      have "(if c < 0 then wrap64 (- c) else c) = a" using a by (auto simp: a_def fits64_def)
      then show ?thesis using a(1) by (cases "c < 0") (simp_all add: money_def Let_def sdiv_nonneg smod_nonneg)
    qed
    ultimately show ?thesis by simp
  qed
qed

definition fitsPaper :: "int \<Rightarrow> line \<Rightarrow> bool" where
  "fitsPaper w ln \<longleftrightarrow> int (length (lnText ln)) = w"


definition demoReceipt :: ReceiptData where
  "demoReceipt = \<lparr>rdShopName = ''Duka'', rdHeaderLine = ''0700'', rdFooter = ''Asante'', rdLogo = [],
     rdWhen = demoTime 5, rdWidthMM = 58, rdTheme = ''classic'',
     rdItems = [\<lparr>riName = ''Bread'', riQty = 2, riPriceCents = 6500\<rparr>], rdSubtotalCents = 13000,
     rdTaxCents = 0, rdTaxRateBps = 0, rdTaxMode = ''none'', rdTotalCents = 13000, rdPaidCents = 20000,
     rdChangeCents = 7000\<rparr>"


section \<open>The raster\<close>

lemma clear7_floor:
  assumes "0 \<le> x" and "x \<le> 384"
  shows "8 \<le> floorAt 8 (clear7 x)" and "floorAt 8 (clear7 x) \<le> 384" and "8 dvd floorAt 8 (clear7 x)"
proof -
  have "clear7 x = 8 * (x div 8)" by (simp add: clear7_def minus_mod_eq_mult_div)
  moreover have "0 \<le> x div 8" "8 * (x div 8) \<le> x" using assms(1) by simp_all
  ultimately show "8 \<le> floorAt 8 (clear7 x)" and "floorAt 8 (clear7 x) \<le> 384" and "8 dvd floorAt 8 (clear7 x)"
    using assms(2) by (auto simp: floorAt_def)
qed

lemma clear7_neg: "x \<le> 384 \<Longrightarrow> 8 \<le> floorAt 8 (clear7 x) \<and> floorAt 8 (clear7 x) \<le> 384 \<and> 8 dvd floorAt 8 (clear7 x)"
proof (cases "0 \<le> x")
  case False
  then have "clear7 x < 8" by (simp add: clear7_def)
  then show ?thesis by (simp add: floorAt_def)
qed (use clear7_floor in auto)

lemma wrapN_le: "0 < w \<Longrightarrow> 0 \<le> x \<Longrightarrow> wrapN w x \<le> x"
proof -
  assume "0 < w" "0 \<le> x"
  have "(x + 2 ^ (w - 1)) mod 2 ^ w \<le> x + 2 ^ (w - 1)"
    using \<open>0 \<le> x\<close> by (intro zmod_le_nonneg_dividend) simp
  then show ?thesis by (simp add: wrapN_def)
qed

lemma wrapI_le: "0 \<le> x \<Longrightarrow> wrapI x \<le> x"
  by (simp add: wrapI_def wrapN_le)

text \<open>
  The raster's size for any image a Go \<^verbatim>\<open>int\<close> can measure, with the products wrapping: whole
  bytes per row, at most 48 of them, and one to 320 rows, so the four size bytes of the
  header hold it exactly.
\<close>

lemma targetSize_bounds:
  assumes "0 < srcW" and "0 < srcH" and "targetSize srcW srcH m = (tw, th)"
  shows "8 \<le> tw \<and> tw \<le> 384 \<and> 8 dvd tw \<and> 1 \<le> th \<and> th \<le> 320"
proof -
  define maxW where "maxW = (if m \<le> 0 \<or> m > logoMaxWidthDots then logoMaxWidthDots else m)"
  define tw0 where "tw0 = floorAt 8 (clear7 (if srcW > maxW then maxW else srcW))"
  define th0 where "th0 = wrapI (srcH * tw0) sdiv srcW"
  have maxW: "0 < maxW" "maxW \<le> 384" by (auto simp: maxW_def logoMaxWidthDots_def)
  have t0: "8 \<le> tw0" "tw0 \<le> 384" "8 dvd tw0"
    using clear7_floor [of "if srcW > maxW then maxW else srcW"] maxW assms(1) by (auto simp: tw0_def)
  have eq: "(tw, th) = (case (if th0 > 320
                      then (floorAt 8 (clear7 (wrapI (srcW * 320) sdiv srcH)), 320)
                      else (tw0, th0)) of (tw, th) \<Rightarrow> (tw, floorAt 1 th))"
    using assms(3) unfolding targetSize_def Let_def maxW_def tw0_def th0_def logoMaxHeightDots_def by (rule sym)
  show ?thesis
  proof (cases "th0 > 320")
    case False
    then show ?thesis using eq t0 by (auto simp: floorAt_def)
  next
    case True
    have pos: "0 \<le> wrapI (srcH * tw0)"
    proof (rule ccontr)
      assume "\<not> 0 \<le> wrapI (srcH * tw0)"
      then have "th0 \<le> 0" using assms(1) by (simp add: th0_def signed_divide_int_def sgn_if div_int_pos_iff)
      with True show False by simp
    qed
    have "th0 * srcW \<le> wrapI (srcH * tw0)"
      using div_bounds(1) [OF assms(1), of "wrapI (srcH * tw0)"] pos assms(1)
      by (simp add: th0_def sdiv_nonneg mult.commute)
    then have "th0 * srcW \<le> srcH * tw0" using wrapI_le [of "srcH * tw0"] assms(2) t0(1) by simp
    moreover have "320 * srcW \<le> th0 * srcW" using True assms(1) by (intro mult_right_mono) simp_all
    ultimately have le: "srcW * 320 \<le> srcH * tw0" by (simp add: mult.commute)
    have "wrapI (srcW * 320) sdiv srcH \<le> 384"
    proof (cases "0 \<le> wrapI (srcW * 320)")
      case True
      have "wrapI (srcW * 320) \<le> srcH * 384"
      proof -
        have "srcH * tw0 \<le> srcH * 384" using assms(2) t0(2) by (intro mult_left_mono) simp_all
        moreover have "wrapI (srcW * 320) \<le> srcW * 320" using assms(1) by (intro wrapI_le) simp
        ultimately show ?thesis using le by linarith
      qed
      then have "wrapI (srcW * 320) div srcH \<le> (srcH * 384) div srcH" using assms(2) by (intro zdiv_mono1)
      then show ?thesis using True assms(2) by (simp add: sdiv_nonneg)
    next
      case False
      then have "wrapI (srcW * 320) sdiv srcH \<le> 0"
        using assms(2) by (simp add: signed_divide_int_def sgn_if div_int_pos_iff)
      then show ?thesis by simp
    qed
    from clear7_neg [OF this] show ?thesis using eq True by (auto simp: floorAt_def)
  qed
qed

lemma length_setInk [simp]: "length (setInk im tw th bits p) = length bits"
  by (simp add: setInk_def Let_def split: prod.split)

lemma length_foldl_setInk [simp]: "length (foldl (setInk im tw th) bits ps) = length bits"
  by (induction ps arbitrary: bits) auto

lemma length_packBits: "length (packBits im tw th) = nat (tw sdiv 8) * nat th"
  by (simp add: packBits_def)

lemma length_rasterBytes:
  "rasterBytes im m = [CHR 0x1D, CHR 0x76, CHR 0x30, CHR 0x00, xl, xh, yl, yh] @ body \<Longrightarrow>
     targetSize (imW im) (imH im) m = (tw, th) \<Longrightarrow>
     xl = byteOf (tw sdiv 8) \<and> xh = byteOf (tw sdiv 8 div 256) \<and> yl = byteOf th \<and> yh = byteOf (th div 256) \<and>
     length body = nat (tw sdiv 8) * nat th"
  by (auto simp: rasterBytes_def Let_def length_packBits)

text \<open>The bit of a pixel: a dot is set exactly where the scaled image is dark and opaque.\<close>

lemma bit_dot: "bit (drop_bit k (0x80 :: nat)) n \<longleftrightarrow> k \<le> 7 \<and> n = 7 - k"
proof -
  have "(0x80 :: nat) = 2 ^ 7" by simp
  then show ?thesis unfolding bit_drop_bit_eq o_apply by (simp only: bit_exp_iff possible_bit_def) auto
qed

lemma pixel_index:
  fixes B :: nat
  assumes "x < 8 * B" and "x' < 8 * B"
  shows "y * B + x div 8 = y' * B + x' div 8 \<and> x mod 8 = x' mod 8 \<longleftrightarrow> y = y' \<and> x = x'"
proof -
  have "x div 8 < B" "x' div 8 < B" using assms by (simp_all add: div_less_iff_less_mult mult.commute)
  then have "y * B + x div 8 = y' * B + x' div 8 \<longleftrightarrow> y = y' \<and> x div 8 = x' div 8"
    by (metis add.commute div_mult_self3 div_less add_0 mod_mult_self3 mod_less not_less_zero)
  then show ?thesis by (metis div_mult_mod_eq)
qed

lemma setInk_bit:
  assumes "x < 8 * B" and "y < T" and "snd p < 8 * B" and "fst p < T"
    and "nat (tw sdiv 8) = B" and "length bits = B * T"
  shows "bit (setInk im tw th bits p ! (y * B + x div 8)) (7 - x mod 8) \<longleftrightarrow>
     bit (bits ! (y * B + x div 8)) (7 - x mod 8) \<or> p = (y, x) \<and> inked im tw th (int y) (int x)"
proof -
  obtain y' x' where p: "p = (y', x')" by (cases p)
  have "x' div 8 < B" using assms(3) by (simp add: p div_less_iff_less_mult mult.commute)
  moreover have "Suc y' * B \<le> T * B" using assms(4) p by (intro mult_le_mono1) simp
  ultimately have i: "y' * B + x' div 8 < length bits" using assms(6) by (simp add: mult.commute)
  have "x mod 8 \<le> 7" "x' mod 8 \<le> 7" by simp_all
  then have "bit (drop_bit (x' mod 8) (0x80 :: nat)) (7 - x mod 8) \<longleftrightarrow> x mod 8 = x' mod 8"
    unfolding bit_dot by linarith
  then show ?thesis
    using pixel_index [OF assms(1), of x' y y'] assms(3) i
    by (cases "y' * B + x' div 8 = y * B + x div 8")
      (auto simp: p setInk_def assms(5) Let_def bit_or_iff nth_list_update)
qed

lemma foldl_setInk_bit:
  assumes "x < 8 * B" and "y < T" and "nat (tw sdiv 8) = B" and "length bits = B * T"
    and "\<forall>p \<in> set ps. snd p < 8 * B \<and> fst p < T"
  shows "bit (foldl (setInk im tw th) bits ps ! (y * B + x div 8)) (7 - x mod 8) \<longleftrightarrow>
     bit (bits ! (y * B + x div 8)) (7 - x mod 8) \<or> (y, x) \<in> set ps \<and> inked im tw th (int y) (int x)"
  using assms(4,5)
proof (induction ps arbitrary: bits)
  case (Cons p ps)
  then have "bit (foldl (setInk im tw th) (setInk im tw th bits p) ps ! (y * B + x div 8)) (7 - x mod 8) \<longleftrightarrow>
      bit (setInk im tw th bits p ! (y * B + x div 8)) (7 - x mod 8) \<or>
      (y, x) \<in> set ps \<and> inked im tw th (int y) (int x)"
    by (intro Cons.IH) auto
  also have "bit (setInk im tw th bits p ! (y * B + x div 8)) (7 - x mod 8) \<longleftrightarrow>
      bit (bits ! (y * B + x div 8)) (7 - x mod 8) \<or> p = (y, x) \<and> inked im tw th (int y) (int x)"
    using Cons.prems by (intro setInk_bit [OF assms(1,2) _ _ assms(3)]) auto
  finally show ?case by auto
qed simp

lemma packBits_bit:
  assumes "0 < tw" and "8 dvd tw" and "x < nat tw" and "y < nat th"
  shows "bit (packBits im tw th ! (y * nat (tw div 8) + x div 8)) (7 - x mod 8) \<longleftrightarrow> inked im tw th (int y) (int x)"
proof -
  obtain k where k: "tw = 8 * k" using assms(2) by (elim dvdE)
  have B: "nat (tw sdiv 8) = nat k" "nat tw = 8 * nat k" "tw div 8 = k"
    using assms(1) k by (simp_all add: sdiv_nonneg nat_mult_distrib)
  have "y * nat k + x div 8 < nat k * nat th"
  proof -
    have "x div 8 < nat k" using assms(3) B(2) by (simp add: div_less_iff_less_mult mult.commute)
    moreover have "Suc y * nat k \<le> nat th * nat k" using assms(4) by (intro mult_le_mono1) simp
    ultimately show ?thesis by (simp add: mult.commute)
  qed
  moreover have "(y, x) \<in> set (List.product [0..<nat th] [0..<nat tw])" using assms(3,4) by simp
  moreover have "\<forall>p \<in> set (List.product [0..<nat th] [0..<nat tw]). snd p < 8 * nat k \<and> fst p < nat th"
    using B(2) by auto
  ultimately show ?thesis
    using foldl_setInk_bit [of x "nat k" y "nat th" tw "replicate (nat k * nat th) 0"
        "List.product [0..<nat th] [0..<nat tw]" im th] assms(3,4) B
    by (simp add: packBits_def)
qed

lemma or_less_256:
  fixes a b :: nat
  assumes "a < 256" and "b < 256"
  shows "a OR b < 256"
proof -
  have "take_bit 8 (a OR b) = take_bit 8 a OR take_bit 8 b" by (rule take_bit_or)
  also have "\<dots> = a OR b" using assms by (simp add: take_bit_nat_eq_self)
  finally have "a OR b = take_bit 8 (a OR b)" by simp
  also have "\<dots> < 2 ^ 8" by (rule take_bit_nat_less_exp)
  finally show ?thesis by simp
qed

lemma dot_less: "drop_bit k (0x80 :: nat) < 256"
proof -
  have "drop_bit k (0x80 :: nat) \<le> 0x80" by (simp add: drop_bit_eq_div)
  then show ?thesis by simp
qed

lemma packBits_bytes: "\<forall>b \<in> set (packBits im tw th). b < 256"
proof -
  have fold: "\<forall>b \<in> set (foldl (setInk im tw th) bits ps). b < 256" if "\<forall>b \<in> set bits. b < 256" for bits ps
    using that
  proof (induction ps arbitrary: bits)
    case (Cons p ps)
    have "\<forall>b \<in> set (setInk im tw th bits p). b < 256"
    proof (cases p)
      case (Pair y x)
      define i where "i = y * nat (tw sdiv 8) + x div 8"
      have "\<forall>b \<in> set (bits[i := bits ! i OR drop_bit (x mod 8) 0x80]). b < 256"
      proof (cases "i < length bits")
        case True
        then have "bits ! i OR drop_bit (x mod 8) 0x80 < 256"
          using Cons.prems by (intro or_less_256 dot_less) simp
        then show ?thesis using Cons.prems set_update_subset_insert [of bits i] by blast
      next
        case False
        then have "bits[i := bits ! i OR drop_bit (x mod 8) 0x80] = bits" by (intro list_update_beyond) simp
        then show ?thesis using Cons.prems by simp
      qed
      then show ?thesis using Cons.prems by (simp add: Pair setInk_def Let_def i_def)
    qed
    then show ?case using Cons.IH by simp
  qed simp
  show ?thesis unfolding packBits_def by (rule fold) simp
qed

lemma of_char_byteOf: "(of_char (byteOf n) :: int) = n mod 256"
proof -
  have "int (of_char (byteOf n)) = n mod 256" unfolding byteOf_def by simp
  then show ?thesis by (simp only: of_nat_of_char)
qed

lemma raster_bit:
  assumes "8 dvd tw" and "x < nat tw" and "y < nat th"
  shows "bit (of_char (map (char_of :: nat \<Rightarrow> char) (packBits im tw th) ! (y * nat (tw div 8) + x div 8)) :: nat) (7 - x mod 8) =
    inked im tw th (int y) (int x)"
proof -
  have tw: "tw sdiv 8 = tw div 8" using assms(2) by (simp add: sdiv_nonneg)
  have "x div 8 < nat (tw div 8)" using assms(1,2) by (auto simp: dvd_def)
  moreover have "Suc y * nat (tw div 8) \<le> nat th * nat (tw div 8)" using assms(3) by (intro mult_le_mono1) simp
  ultimately have n: "y * nat (tw div 8) + x div 8 < length (packBits im tw th)"
    using tw by (simp add: length_packBits mult.commute)
  then have "packBits im tw th ! (y * nat (tw div 8) + x div 8) < 256"
    using packBits_bytes by (metis nth_mem)
  then have "(of_char (map (char_of :: nat \<Rightarrow> char) (packBits im tw th) ! (y * nat (tw div 8) + x div 8)) :: nat) =
      packBits im tw th ! (y * nat (tw div 8) + x div 8)"
    using n by (simp only: nth_map of_char_of mod_less)
  moreover have "0 < tw" using assms(2) by simp
  ultimately show ?thesis using packBits_bit [OF _ assms] by (simp only:)
qed



end
