(* ===== verification/Fake_Printer.thy ===== *)
theory Fake_Printer
  imports Receipt
begin

text \<open>
  \<^verbatim>\<open>cmd/fakeprinter\<close>: the stand-in printer reads a job back. \<open>textPreview\<close> steps over the
  ESC/POS control sequences and keeps the printable text; \<open>features\<close> names the sequences a
  job holds. It runs in the 64-bit container, where the sizes of a raster header, two
  16-bit numbers, multiply without wrapping. The last lemma closes the circle with the
  renderer: what the printer's preview shows of a rendered receipt, logo or not, is the
  receipt's text.
\<close>

section \<open>The code\<close>

definition skipGS :: "bytes \<Rightarrow> nat" where
  "skipGS rest =
     (if length rest \<le> 1 then 1
      else let c = rest ! 1 in
        if c = CHR 0x21 then 3
        else if c = CHR 0x56 then 4
        else if c = CHR 0x76 then
          (if length rest < 8 then length rest
           else let width = of_char (rest ! 4) + of_char (rest ! 5) * 256;
                    height = of_char (rest ! 6) + of_char (rest ! 7) * 256
                in 8 + width * height)
        else 2)"

lemma skipGS_pos: "rest \<noteq> [] \<Longrightarrow> 0 < skipGS rest"
  by (auto simp: skipGS_def Let_def)

text \<open>The loop of \<open>textPreview\<close> over the bytes not yet read; an index past the end is an empty
  rest.\<close>

function previewLoop :: "bytes \<Rightarrow> bytes" where
  "previewLoop [] = []"
| "previewLoop (c # cs) =
     (if c = CHR 0x1B then
        (if cs \<noteq> [] \<and> (hd cs = CHR 0x61 \<or> hd cs = CHR 0x45) then previewLoop (drop 3 (c # cs))
         else previewLoop (drop 2 (c # cs)))
      else if c = CHR 0x1D then previewLoop (drop (skipGS (c # cs)) (c # cs))
      else if c = CHR 0x0A then CHR 0x0A # previewLoop cs
      else if 0x20 \<le> (of_char c :: nat) \<and> (of_char c :: nat) \<le> 0x7E then c # previewLoop cs
      else previewLoop cs)"
  by pat_completeness auto
termination
proof (relation "measure length")
  fix c :: char and cs :: bytes
  show "(drop (skipGS (c # cs)) (c # cs), c # cs) \<in> measure length"
    using skipGS_pos [of "c # cs"] by (cases "skipGS (c # cs)") auto
qed auto

declare previewLoop.simps [simp del]

definition textPreview :: "bytes \<Rightarrow> string" where
  "textPreview data =
     (let out = trimBoth {CHR 0x0A} (previewLoop data) in
      if out = [] then ''(no printable text, image only)'' else out)"

fun containsBytes :: "bytes \<Rightarrow> bytes \<Rightarrow> bool" where
  "containsBytes w [] \<longleftrightarrow> w = []"
| "containsBytes w (c # cs) \<longleftrightarrow> startsWith w (c # cs) \<or> containsBytes w cs"

definition features :: "bytes \<Rightarrow> string" where
  "features data =
     (let f = (if startsWith [CHR 0x1B, CHR 0x40] data then [''init''] else []) @
              (if containsBytes [CHR 0x1D, CHR 0x76, CHR 0x30] data then [''logo raster''] else []) @
              (if containsBytes [CHR 0x1B, CHR 0x61] data then [''alignment''] else []) @
              (if containsBytes [CHR 0x1B, CHR 0x45] data then [''bold''] else []) @
              (if containsBytes [CHR 0x1D, CHR 0x56] data then [''paper cut''] else [])
      in if f = [] then ''raw bytes'' else joinWith '', '' f)"

section \<open>Reading back\<close>

definition printable :: "char \<Rightarrow> bool" where
  "printable c \<longleftrightarrow> 0x20 \<le> (of_char c :: nat) \<and> (of_char c :: nat) \<le> 0x7E"

lemma previewLoop_text:
  "list_all (\<lambda>c. printable c \<or> c = CHR 0x0A) t \<Longrightarrow> previewLoop (t @ r) = t @ previewLoop r"
proof (induction t)
  case (Cons c t)
  then have "c \<noteq> CHR 0x1B" "c \<noteq> CHR 0x1D" by (auto simp: printable_def)
  with Cons show ?case by (auto simp: previewLoop.simps(2) printable_def)
qed simp

lemma previewLoop_esc:
  "previewLoop (escInit @ r) = previewLoop r" "previewLoop (alignCenter @ r) = previewLoop r"
  "previewLoop (alignLeft @ r) = previewLoop r" "previewLoop (boldOn @ r) = previewLoop r"
  "previewLoop (boldOff @ r) = previewLoop r" "previewLoop (doubleSize @ r) = previewLoop r"
  "previewLoop (normalSize @ r) = previewLoop r" "previewLoop (feedAndCut @ r) = previewLoop r"
  "previewLoop (lineFeed @ r) = CHR 0x0A # previewLoop r"
  by (simp_all add: escInit_def alignCenter_def alignLeft_def boldOn_def boldOff_def doubleSize_def
      normalSize_def feedAndCut_def lineFeed_def previewLoop.simps(2) skipGS_def)

lemma previewLoop_raster:
  assumes "0 < imW im" and "0 < imH im"
  shows "previewLoop (rasterBytes im m @ r) = previewLoop r"
proof -
  obtain tw th where t: "targetSize (imW im) (imH im) m = (tw, th)" by fastforce
  note b = targetSize_bounds [OF assms t]
  define body where "body = map (char_of :: nat \<Rightarrow> char) (packBits im tw th)"
  have tw: "tw sdiv 8 = tw div 8" using b by (simp add: sdiv_nonneg)
  have size: "0 \<le> tw div 8" "tw div 8 < 256" "0 \<le> th div 256" "th div 256 < 256" using b by linarith+
  have byte: "(of_char (byteOf n) :: nat) = nat (n mod 256)" for n
    unfolding byteOf_def by (simp add: nat_mod_distrib)
  have len: "length body = nat (tw div 8) * nat th" by (simp add: body_def length_packBits tw)
  let ?all = "rasterBytes im m @ r"
  have all: "?all = CHR 0x1D # CHR 0x76 # CHR 0x30 # CHR 0x00 # byteOf (tw div 8) #
      byteOf (tw div 8 div 256) # byteOf th # byteOf (th div 256) # body @ r"
    by (simp add: rasterBytes_def t Let_def body_def tw)
  have "tw div 8 div 256 = 0" using size by simp
  then have w: "(of_char (?all ! 4) :: nat) + of_char (?all ! 5) * 256 = nat (tw div 8)"
    using size by (simp add: all byte)
  have "th = th mod 256 + th div 256 * 256" by simp
  then have "nat th = nat (th mod 256) + nat (th div 256) * 256" using size(3) by linarith
  moreover have "(of_char (?all ! 6) :: nat) = nat (th mod 256)" by (simp add: all byte)
  moreover have "th div 256 mod 256 = th div 256" using size(3,4) by (intro mod_pos_pos_trivial)
  then have "(of_char (?all ! 7) :: nat) = nat (th div 256)" by (simp add: all byte)
  ultimately have h: "(of_char (?all ! 6) :: nat) + of_char (?all ! 7) * 256 = nat th" by (simp only:)
  have "skipGS ?all = 8 + nat (tw div 8) * nat th"
  proof -
    have "\<not> length ?all < 8" "\<not> length ?all \<le> 1" "?all ! 1 = CHR 0x76" by (simp_all add: all)
    then show ?thesis by (simp add: skipGS_def Let_def w h)
  qed
  moreover have "drop (8 + nat (tw div 8) * nat th) ?all = r"
  proof -
    define h8 where "h8 = [CHR 0x1D, CHR 0x76, CHR 0x30, CHR 0x00, byteOf (tw div 8),
      byteOf (tw div 8 div 256), byteOf th, byteOf (th div 256)]"
    have "?all = (h8 @ body) @ r" by (simp add: all h8_def)
    moreover have "length (h8 @ body) = 8 + nat (tw div 8) * nat th" by (simp add: h8_def len)
    ultimately show ?thesis by (metis append_eq_conv_conj)
  qed
  moreover have "previewLoop ?all = previewLoop (drop (skipGS ?all) ?all)"
    unfolding all by (subst previewLoop.simps(2)) simp
  ultimately show ?thesis by simp
qed

lemma previewLoop_lines:
  assumes "list_all (\<lambda>ln. list_all (\<lambda>c. printable c \<or> c = CHR 0x0A) (lnText ln)) ls"
  shows "previewLoop (writeLines ls @ r) = concat (map (\<lambda>ln. lnText ln @ [CHR 0x0A]) ls) @ previewLoop r"
  using assms
proof (induction ls)
  case (Cons ln ls)
  have nl: "previewLoop (CHR 0x0A # s) = CHR 0x0A # previewLoop s" for s by (simp add: previewLoop.simps(2))
  from Cons show ?case
    by (simp add: writeLines_def writeLine_def previewLoop_esc previewLoop_text nl)
qed (simp add: writeLines_def)

section \<open>Printable receipts\<close>

abbreviation okText :: "string \<Rightarrow> bool" where
  "okText \<equiv> list_all printable"

lemma okText_subset: "set t \<subseteq> set s \<Longrightarrow> okText s \<Longrightarrow> okText t"
  by (auto simp: list_all_iff)

lemma okText_take: "okText s \<Longrightarrow> okText (take n s)"
  by (rule okText_subset [OF set_take_subset])

lemma okText_spaces [simp]: "okText (spaces n)"
  by (simp add: spaces_def list_all_iff printable_def)

lemma okText_ntoa [simp]: "okText (ntoa n)"
proof -
  have "is_digit c \<Longrightarrow> printable c" for c by (simp add: is_digit_def printable_def)
  then show ?thesis using ntoa_digits [of n] by (auto simp: list_all_iff)
qed

lemma okText_itoa [simp]: "okText (itoa n)" "okText (pad02 n)" "okText (padZ w n)"
  by (simp_all add: itoa_def pad02_def padZ_def printable_def list_all_iff [of _ "replicate _ _"])

lemma okText_join: "okText sep \<Longrightarrow> list_all okText xs \<Longrightarrow> okText (joinWith sep xs)"
  by (induction sep xs rule: joinWith.induct) auto

lemma okText_groupLoop: "okText s \<Longrightarrow> list_all okText ps \<Longrightarrow> list_all okText (groupLoop s ps)"
proof (induction s ps rule: groupLoop.induct)
  case (1 s ps)
  have "okText (take n s)" "okText (drop n s)" for n
    using 1(2) by (auto intro: okText_take okText_subset [OF set_drop_subset])
  with 1 show ?case by (subst groupLoop.simps) simp
qed

lemma okText_money [simp]: "okText (money c)"
proof -
  have "okText (groupThousands n)" for n
    by (auto simp: groupThousands_def Let_def printable_def intro!: okText_join okText_groupLoop)
  then show ?thesis by (simp add: money_def Let_def printable_def)
qed

lemma okText_leftRight: "okText l \<Longrightarrow> okText r \<Longrightarrow> okText (leftRight l r w)"
  by (simp add: leftRight_def Let_def okText_take)

lemma okText_vatLabel [simp]: "okText (vatLabel n)"
proof -
  have "okText (trimRight cs s)" if "okText s" for cs s
    using okText_subset [OF set_trimRight that] .
  then show ?thesis by (simp add: vatLabel_def Let_def printable_def)
qed

lemma okText_time [simp]: "okText (formatReceiptTime t)"
proof -
  obtain y m d where c: "civil (localDay t) = (y, m, d)" by (cases "civil (localDay t)")
  have "monthNames ! nat (m - 1) \<in> set monthNames"
    using civil_props(2,3) [OF c] by (intro nth_mem) (simp add: monthNames_def)
  moreover have "\<forall>s \<in> set monthNames. okText s" by (simp add: monthNames_def printable_def)
  ultimately have "okText (monthNames ! nat (m - 1))" by blast
  then show ?thesis by (simp add: formatReceiptTime_def c Let_def printable_def)
qed

text \<open>A receipt whose texts are printable ASCII; the ending message may have several lines.\<close>

definition printableReceipt :: "ReceiptData \<Rightarrow> bool" where
  "printableReceipt d \<longleftrightarrow> okText (rdShopName d) \<and> okText (rdHeaderLine d) \<and>
     list_all (\<lambda>c. printable c \<or> c = CHR 0x0A) (rdFooter d) \<and>
     list_all (\<lambda>it. okText (riName it)) (rdItems d)"

lemma okText_footer:
  assumes "list_all (\<lambda>c. printable c \<or> c = CHR 0x0A) f" and "l \<in> set (footerLines f)"
  shows "okText l"
proof (cases "l = []")
  case False
  then obtain x where x: "x \<in> set (splitAt (CHR 0x0A) f)" "l = trimRight {CHR 0x0D} x"
    using assms(2) by (auto simp: footerLines_def split: if_splits)
  have "set l \<subseteq> set f - {CHR 0x0A}"
    using set_splitAt [OF x(1)] set_trimRight [of "{CHR 0x0D}" x] x(2) by blast
  then show ?thesis using assms(1) by (auto simp: list_all_iff)
qed simp

lemma okText_lines:
  assumes "printableReceipt d"
  shows "list_all (\<lambda>ln. okText (lnText ln)) (themeLines d w)"
proof -
  have items: "list_all (\<lambda>ln. okText (lnText ln)) (itemLines d w)"
    using assms by (auto simp: itemLines_def printableReceipt_def list_all_iff [of _ "rdItems d"]
        list_all_iff [of _ "map _ _"] Let_def printable_def intro!: okText_leftRight)
  have "okText ''Cash''" "okText ''Change''" "okText ''Subtotal''" "okText ''Incl. ''"
    by (simp_all add: printable_def)
  then have totals: "list_all (\<lambda>ln. okText (lnText ln)) (moneyLines d w lab b)" if "okText lab" for lab b
    using that by (auto simp: moneyLines_def Let_def intro!: okText_leftRight)
  have labs: "okText ''TOTAL''" "okText ''Total''" by (simp_all add: printable_def)
  have head: "list_all (\<lambda>ln. okText (lnText ln)) (headerLines mk d)" if "\<And>h. lnText (mk h) = h" for mk
    using assms okText_subset [OF set_trimSpace, of "rdHeaderLine d"] that
    by (simp add: headerLines_def printableReceipt_def Let_def)
  have foot: "list_all (\<lambda>ln. okText (lnText ln)) (map mk (footerLines (rdFooter d)))"
    if "\<And>h. lnText (mk h) = h" for mk
    using assms okText_footer [of "rdFooter d"] that by (auto simp: printableReceipt_def list_all_iff [of _ "map _ _"])
  have rule: "okText (repeatCh (CHR ''-'') w)" "okText (repeatCh (CHR ''='') w)"
    by (simp_all add: repeatCh_def list_all_iff printable_def)
  have name: "okText (rdShopName d)" using assms by (simp add: printableReceipt_def)
  note foots = foot [of centerLine] foot [of plainLine]
    foot [of "\<lambda>f. \<lparr>lnCenter = True, lnBold = True, lnDouble = False, lnText = f\<rparr>"]
  show ?thesis
    using items totals [OF labs(1)] totals [OF labs(2)] head [of centerLine] head [of plainLine] foots rule name
    by (simp add: themeLines_def classicLines_def minimalLines_def boldLines_def)
qed

text \<open>The text of a receipt, line by line, as it is printed.\<close>

definition receiptText :: "ReceiptData \<Rightarrow> string" where
  "receiptText d = concat (map (\<lambda>ln. lnText ln @ [CHR 0x0A]) (themeLines d (charsForWidth (rdWidthMM d))))"

lemma trimRight_NL: "trimRight {c} (s @ [c]) = trimRight {c} s"
  by (simp add: trimRight_def)

lemma trimBoth_NL: "trimBoth {c} (c # s) = trimBoth {c} s" "trimBoth {c} (s @ [c]) = trimBoth {c} s"
proof -
  show "trimBoth {c} (c # s) = trimBoth {c} s" by (simp add: trimBoth_def)
  have "dropWhile (\<lambda>x. x \<in> {c}) (s @ [c]) = dropWhile (\<lambda>x. x \<in> {c}) s @ [c] \<or>
      dropWhile (\<lambda>x. x \<in> {c}) (s @ [c]) = dropWhile (\<lambda>x. x \<in> {c}) s"
    by (induction s) auto
  then show "trimBoth {c} (s @ [c]) = trimBoth {c} s"
    unfolding trimBoth_def by (elim disjE) (simp_all only: trimRight_NL)
qed

lemma in_dropWhile: "x \<in> set s \<Longrightarrow> \<not> P x \<Longrightarrow> x \<in> set (dropWhile P s)"
  by (induction s) auto

lemma trimBoth_ne: "x \<in> set s \<Longrightarrow> x \<noteq> c \<Longrightarrow> trimBoth {c} s \<noteq> []"
  using in_dropWhile [of x "rev (dropWhile (\<lambda>x. x \<in> {c}) s)" "\<lambda>x. x \<in> {c}"]
    in_dropWhile [of x s "\<lambda>x. x \<in> {c}"]
  by (auto simp: trimBoth_def trimRight_def)

lemma previewLoop_render:
  assumes "printableReceipt d"
  shows "trimBoth {CHR 0x0A} (previewLoop (RenderReceipt decodeImage d)) = trimBoth {CHR 0x0A} (receiptText d)"
proof -
  define w where "w = charsForWidth (rdWidthMM d)"
  have ok: "list_all (\<lambda>ln. list_all (\<lambda>c. printable c \<or> c = CHR 0x0A) (lnText ln)) (themeLines d w)"
    using okText_lines [OF assms, of w] by (auto simp: list_all_iff)
  define logo where "logo = (if rdLogo d \<noteq> []
       then (case rasterFromImage decodeImage (rdLogo d) (paperDots (rdWidthMM d)) of
               Some raster \<Rightarrow> alignCenter @ raster @ [CHR 0x0A] @ alignLeft
             | None \<Rightarrow> []) else [])"
  have nl: "previewLoop (CHR 0x0A # s) = CHR 0x0A # previewLoop s" for s by (simp add: previewLoop.simps(2))
  have logo: "previewLoop (logo @ r) = previewLoop r \<or> previewLoop (logo @ r) = CHR 0x0A # previewLoop r" for r
    by (auto simp: logo_def rasterFromImage_def previewLoop_esc previewLoop_raster nl not_le
        split: option.splits if_splits)
  have tail: "previewLoop (writeLines (themeLines d w) @ alignLeft @ lineFeed @ feedAndCut) =
      receiptText d @ [CHR 0x0A]"
    using previewLoop_esc(8) [of "[]"]
    by (simp add: previewLoop_lines [OF ok] previewLoop_esc previewLoop.simps(1)) (simp add: receiptText_def w_def)
  have "RenderReceipt decodeImage d =
      escInit @ logo @ writeLines (themeLines d w) @ alignLeft @ lineFeed @ feedAndCut"
    by (simp add: RenderReceipt_def logo_def w_def Let_def)
  then have "previewLoop (RenderReceipt decodeImage d) = receiptText d @ [CHR 0x0A] \<or>
      previewLoop (RenderReceipt decodeImage d) = CHR 0x0A # receiptText d @ [CHR 0x0A]"
    using logo [of "writeLines (themeLines d w) @ alignLeft @ lineFeed @ feedAndCut"]
    by (simp only: previewLoop_esc(1) tail)
  then show ?thesis by (auto simp: trimBoth_NL)
qed

text \<open>
  The printer shows the receipt. For every theme, width and decoder, with a logo or
  without, the preview the stand-in printer reconstructs from the rendered bytes is the
  receipt's text, line by line: no control byte, size or bitmap byte leaks into it and no
  line is lost (blank lines at the two ends are trimmed).
\<close>

theorem preview_of_receipt:
  assumes "printableReceipt d"
  shows "textPreview (RenderReceipt decodeImage d) = trimBoth {CHR 0x0A} (receiptText d)"
proof -
  let ?w = "charsForWidth (rdWidthMM d)"
  have "\<exists>ln \<in> set (themeLines d ?w). CHR '' '' \<in> set (lnText ln)"
  proof -
    obtain p where "leftRight ''Cash'' (money (rdPaidCents d)) ?w = p @ '' '' @ money (rdPaidCents d)"
      using leftRight_ends by blast
    then have "CHR '' '' \<in> set (leftRight ''Cash'' (money (rdPaidCents d)) ?w)" by simp
    moreover have "plainLine (leftRight ''Cash'' (money (rdPaidCents d)) ?w) \<in> set (themeLines d ?w)"
      by (simp add: themeLines_def classicLines_def minimalLines_def boldLines_def moneyLines_def Let_def)
    ultimately show ?thesis by (metis line.select_convs(4))
  qed
  then have "CHR '' '' \<in> set (receiptText d)" by (auto simp: receiptText_def)
  then have "trimBoth {CHR 0x0A} (receiptText d) \<noteq> []" by (rule trimBoth_ne) simp
  then show ?thesis by (simp add: textPreview_def Let_def previewLoop_render [OF assms])
qed

theorem preview_of_receipt_witness:
  "textPreview (RenderReceipt (\<lambda>_. None) demoReceipt) = trimBoth {CHR 0x0A} (receiptText demoReceipt)"
  by (rule preview_of_receipt) (simp add: demoReceipt_def printableReceipt_def printable_def)

end
