(* ===== verification/Engine_Correct.thy ===== *)
theory Engine_Correct
  imports Till
begin

text \<open>
  What the engine needs of a store, as the locale \<open>outbox_store\<close>: reading the outbox gives the
  marked rows, clearing what was read empties it, and the rest of the cycle leaves the marks
  alone. From these laws alone a successful cycle of a linked device leaves nothing to push
  and a failed one keeps every mark or, when the cloud had accepted the push, clears all of
  them; the interpretation \<open>bolt\<close> discharges the laws for the store the agent runs on.
\<close>

section \<open>The contract\<close>

type_synonym marks = "string set \<times> string set \<times> string set \<times> bool"

definition noMarks :: marks where
  "noMarks = ({}, {}, {}, False)"

text \<open>The client's answers carry keys the database takes.\<close>

definition goodClient :: "'w SyncClient \<Rightarrow> bool" where
  "goodClient C \<longleftrightarrow> (\<forall>base token c w res w'. scPull C base token c w = (Inr res, w') \<longrightarrow> pulledOK (puPulled res))"

lemma goodClientD: "goodClient C \<Longrightarrow> scPull C base token c w = (Inr res, w') \<Longrightarrow> pulledOK (puPulled res)"
  unfolding goodClient_def by blast

locale outbox_store =
  fixes S :: "'s SyncStore"
    and inv :: "'s \<Rightarrow> bool"
    and marks :: "'s \<Rightarrow> marks"
  assumes reads: "inv s \<Longrightarrow> \<exists>ps ss es m. readOutbox S s = Inr (ps, ss, es, m) \<and>
      marks s = (pID ` set ps, saID ` set ss, evID ` set es, m \<noteq> None)"
    and clears: "inv s \<Longrightarrow> readOutbox S s = Inr (ps, ss, es, m) \<Longrightarrow>
      ssClearPushed S e (map pID ps) (map saID ss) (map evID es)
        (case m of Some (_, t) \<Rightarrow> t | None \<Rightarrow> zeroTime) (m \<noteq> None) s = (Inr u, s') \<Longrightarrow>
      inv s' \<and> marks s' = noMarks"
    and clear_fails: "ssClearPushed S e ids is js t b s = (Inl x, s') \<Longrightarrow> s' = s"
    and applies: "inv s \<Longrightarrow> pulledOK pl \<Longrightarrow> ssApplyPulled S e pl s = (r, s') \<Longrightarrow> inv s' \<and> marks s' = marks s"
    and cursor: "inv s \<Longrightarrow> ssSetCursor S e c s = (r, s') \<Longrightarrow> inv s' \<and> marks s' = marks s"
    and outcome: "inv s \<Longrightarrow> ssSetSyncResult S e t msg s = (r, s') \<Longrightarrow> inv s' \<and> marks s' = marks s"
begin

lemma push_marks:
  assumes "inv s" and "push S C e st s w = (r, s', w')"
  shows "inv s' \<and> (case r of None \<Rightarrow> marks s' = noMarks | Some x \<Rightarrow> s' = s)"
proof -
  obtain ps ss es m where ro: "readOutbox S s = Inr (ps, ss, es, m)"
    and mk: "marks s = (pID ` set ps, saID ` set ss, evID ` set es, m \<noteq> None)"
    using reads [OF assms(1)] by blast
  show ?thesis
  proof (cases "ps = [] \<and> ss = [] \<and> es = [] \<and> m = None")
    case True
    then have "r = None" "s' = s" using assms(2) ro by (auto simp: push_def)
    moreover have "marks s = noMarks" using mk True by (auto simp: noMarks_def)
    ultimately show ?thesis using assms(1) by simp
  next
    case False
    obtain pr w1 where sp: "scPush C (syBaseURL st) (syToken st) (payloadOf ps ss es m) w = (pr, w1)" by fastforce
    show ?thesis
    proof (cases pr)
      case (Inl x)
      then show ?thesis using assms ro sp False by (auto simp: push_def)
    next
      case (Inr u)
      obtain cr s1 where cl: "ssClearPushed S e (map pID ps) (map saID ss) (map evID es)
          (case m of Some (_, t) \<Rightarrow> t | None \<Rightarrow> zeroTime) (m \<noteq> None) s = (cr, s1)" by fastforce
      show ?thesis
      proof (cases cr)
        case (Inl x)
        with clear_fails cl have "s1 = s" by blast
        with Inl show ?thesis using assms ro sp False Inr cl by (auto simp: push_def)
      next
        case (Inr v)
        with clears [OF assms(1) ro] cl have "inv s1 \<and> marks s1 = noMarks" by blast
        with Inr show ?thesis using assms ro sp False \<open>pr = Inr u\<close> cl by (auto simp: push_def)
      qed
    qed
  qed
qed

lemma pull_marks:
  assumes "inv s" and "goodClient C" and "pull S C e e' st s w = (r, s', w')"
  shows "inv s' \<and> marks s' = marks s"
proof -
  obtain pr w1 where sp: "scPull C (syBaseURL st) (syToken st) (syCursor st) w = (pr, w1)" by fastforce
  show ?thesis
  proof (cases pr)
    case (Inl x)
    then show ?thesis using assms sp by (auto simp: pull_def)
  next
    case (Inr res)
    have ok: "pulledOK (puPulled res)" using goodClientD [OF assms(2)] sp Inr by blast
    obtain ar s1 where ap: "ssApplyPulled S e (puPulled res) s = (ar, s1)" by fastforce
    have one: "inv s1 \<and> marks s1 = marks s" by (rule applies [OF assms(1) ok ap])
    obtain cr s2 where sc: "ssSetCursor S e' (puCursor res) s1 = (cr, s2)" by fastforce
    have two: "inv s2 \<and> marks s2 = marks s" using cursor [OF _ sc] one by simp
    have "s' = (case ar of Inl _ \<Rightarrow> s1 | Inr _ \<Rightarrow> s2)"
      using assms(3) sp Inr ap sc by (cases ar; cases cr) (auto simp: pull_def)
    then show ?thesis using one two by (cases ar) auto
  qed
qed

lemma record_marks: "inv s \<Longrightarrow> inv (recordOutcome S e err s) \<and> marks (recordOutcome S e err s) = marks s"
  unfolding recordOutcome_def using outcome prod.collapse by metis

text \<open>A cycle that reports success on a linked device leaves an empty outbox.\<close>

lemma cycle_marks:
  assumes "inv s" and "goodClient C" and "ssSyncState S s = Inr st" and "syLinked st"
    and "SyncOnce S C cy s w = (r, s', w')"
  shows "inv s' \<and> (r = None \<longrightarrow> marks s' = noMarks) \<and> (marks s' = marks s \<or> marks s' = noMarks)"
proof -
  obtain r1 s1 w1 where p: "push S C (cyClear cy) st s w = (r1, s1, w1)" using prod_cases3 by blast
  note one = push_marks [OF assms(1) p]
  show ?thesis
  proof (cases r1)
    case (Some x)
    then have "s1 = s" "r = Some x" "s' = recordOutcome S (cyResult cy) (Some x) s1"
      using one assms(3-5) p by (auto simp: SyncOnce_def)
    then show ?thesis using record_marks [OF assms(1)] by simp
  next
    case None
    with one have clean: "inv s1" "marks s1 = noMarks" by simp_all
    show ?thesis
    proof (cases "ssSyncState S s1")
      case (Inl x)
      then have "s' = s1" using assms(3-5) p None by (auto simp: SyncOnce_def)
      with clean show ?thesis by simp
    next
      case (Inr st1)
      obtain r2 s2 w2 where q: "pull S C (cyApply cy) (cyCursor cy) st1 s1 w1 = (r2, s2, w2)"
        using prod_cases3 by blast
      have two: "inv s2" "marks s2 = noMarks" using pull_marks [OF clean(1) assms(2) q] clean(2) by simp_all
      have "s' = recordOutcome S (cyResult cy) r2 s2"
        using assms(3-5) p None Inr q by (cases r2) (auto simp: SyncOnce_def)
      with record_marks [OF two(1)] two(2) show ?thesis by simp
    qed
  qed
qed

end

section \<open>The agent's store keeps the contract\<close>

definition outboxMarks :: "db \<Rightarrow> marks" where
  "outboxMarks D = (fst ` set (bPendingProd D), fst ` set (bPendingSale D), fst ` set (bPendingStock D),
     syncStamp (bSyncState D) kSettingsDue \<noteq> None)"

lemma store_inv_cong:
  assumes "bProducts D' = bProducts D" "bSales D' = bSales D" "bStockEvents D' = bStockEvents D"
    and "bSettings D' = bSettings D" "bBarcodeIdx D' = bBarcodeIdx D" "bRefIdx D' = bRefIdx D"
    and "bPendingProd D' = bPendingProd D" "bPendingSale D' = bPendingSale D" "bPendingStock D' = bPendingStock D"
  shows "store_inv D' = store_inv D"
  using assms by (simp add: store_inv_def catalogue_inv_def sales_inv_def stock_inv_def index_sound_def)

lemma putSync_marks:
  assumes "dbExec e (putSync kvs) D = (r, D')" and "store_inv D" and "kSettingsDue \<notin> fst ` set kvs"
  shows "store_inv D' \<and> outboxMarks D' = outboxMarks D"
proof (cases r)
  case (Inl x)
  with assms show ?thesis by (auto dest: dbExec_err)
next
  case (Inr u)
  then have tx: "putSync kvs D = Inr D'" using assms(1) by (simp add: dbExec_eq_Inr)
  then obtain b where b: "putAll kvs (bSyncState D) = Inr b" "D' = D\<lparr>bSyncState := b\<rparr>"
    by (auto simp: putSync_def result_simps)
  have "putAll kvs b0 = Inr b1 \<Longrightarrow> kSettingsDue \<notin> fst ` set kvs \<Longrightarrow> bGet b1 kSettingsDue = bGet b0 kSettingsDue" for b0 b1 :: "stext bucket"
    by (induction kvs arbitrary: b0) (auto simp: putAll_def result_simps)
  from this [OF b(1) assms(3)] have "syncStamp (bSyncState D') kSettingsDue = syncStamp (bSyncState D) kSettingsDue"
    by (simp add: b(2) syncStamp_def)
  moreover have "store_inv D' = store_inv D" by (rule store_inv_cong) (simp_all add: b(2))
  ultimately show ?thesis using assms(2) by (simp add: outboxMarks_def b(2))
qed

interpretation bolt: outbox_store boltSync store_inv outboxMarks
proof unfold_locales
  fix D :: db
  assume D: "store_inv D"
  show "\<exists>ps ss es m. readOutbox boltSync D = Inr (ps, ss, es, m) \<and>
      outboxMarks D = (pID ` set ps, saID ` set ss, evID ` set es, m \<noteq> None)"
  proof -
    obtain ps ss es where r: "PendingProducts D = Inr ps" "PendingSales D = Inr ss" "PendingStockEvents D = Inr es"
      and ids: "map pID ps = map fst (bPendingProd D)" "map saID ss = map fst (bPendingSale D)"
        "map evID es = map fst (bPendingStock D)"
      using outbox_rows [OF D] by blast
    have sets: "pID ` set ps = fst ` set (bPendingProd D)" "saID ` set ss = fst ` set (bPendingSale D)"
      "evID ` set es = fst ` set (bPendingStock D)"
      using ids by (metis set_map)+
    have "PendingSettings D \<noteq> None \<longleftrightarrow> syncStamp (bSyncState D) kSettingsDue \<noteq> None"
      by (simp add: PendingSettings_def Let_def split: option.split)
    then have "outboxMarks D = (pID ` set ps, saID ` set ss, evID ` set es, PendingSettings D \<noteq> None)"
      by (simp add: outboxMarks_def sets)
    then show ?thesis by (simp add: readOutbox_def r)
  qed
next
  fix D :: db and ps :: "Product list" and ss :: "Sale list" and es :: "StockEvent list" and m e u D'
  assume D: "store_inv D" and ro: "readOutbox boltSync D = Inr (ps, ss, es, m)"
    and cl: "ssClearPushed boltSync e (map pID ps) (map saID ss) (map evID es)
        (case m of Some (_, t) \<Rightarrow> t | None \<Rightarrow> zeroTime) (m \<noteq> None) D = (Inr u, D')"
  show "store_inv D' \<and> outboxMarks D' = noMarks"
  proof -
    have r: "PendingProducts D = Inr ps" "PendingSales D = Inr ss" "PendingStockEvents D = Inr es" "m = PendingSettings D"
      using ro by (auto simp: readOutbox_def result_simps)
    with outbox_rows [OF D] have ids: "map pID ps = map fst (bPendingProd D)" "map saID ss = map fst (bPendingSale D)"
        "map evID es = map fst (bPendingStock D)" by auto
    have run: "clearOf e ps ss es m D = (Inr u, D')" using cl by (simp add: clearOf_def)
    have "eIO e = None" using cl by (simp add: ClearPushed_def dbExec_eq_Inr)
    note c = ClearPushed_ok [OF this]
    have "bPendingProd D' = fold bDelete (map pID ps) (bPendingProd D)"
      "bPendingSale D' = fold bDelete (map saID ss) (bPendingSale D)"
      "bPendingStock D' = fold bDelete (map evID es) (bPendingStock D)"
      and sync: "bSyncState D' = (if m \<noteq> None \<and> (\<exists>t. syncStamp (bSyncState D) kSettingsDue = Some t \<and>
            \<not> tAfter t (case m of Some (_, t) \<Rightarrow> t | None \<Rightarrow> zeroTime))
          then bput kSettingsDue (Text '''') (bSyncState D) else bSyncState D)"
      using cl unfolding boltSync_simps c by auto
    then have "fst ` set (bPendingProd D') = {}" "fst ` set (bPendingSale D') = {}" "fst ` set (bPendingStock D') = {}"
      by (simp_all only: keys_fold_bDelete ids) simp_all
    moreover have "syncStamp (bSyncState D') kSettingsDue = None"
    proof (cases "syncStamp (bSyncState D) kSettingsDue")
      case None
      then show ?thesis using sync by simp
    next
      case (Some t)
      then have "m \<noteq> None" "(case m of Some (_, t) \<Rightarrow> t | None \<Rightarrow> zeroTime) = t"
        by (simp_all add: r(4) PendingSettings_def Let_def)
      then show ?thesis using sync Some by (simp add: tAfter_def) (simp add: syncStamp_def)
    qed
    moreover have "store_inv D'"
      by (rule clearOf_inv [OF run D])
    ultimately show ?thesis by (simp add: outboxMarks_def noMarks_def)
  qed
next
  fix e ids "is" js t b and D D' :: db and x
  assume "ssClearPushed boltSync e ids is js t b D = (Inl x, D')"
  then show "D' = D" by (auto simp: ClearPushed_def dest: dbExec_err)
next
  fix D D' :: db and pl e r
  assume D: "store_inv D" and pl: "pulledOK pl" and ap: "ssApplyPulled boltSync e pl D = (r, D')"
  show "store_inv D' \<and> outboxMarks D' = outboxMarks D"
  proof (cases r)
    case (Inl x)
    with ap D show ?thesis by (auto simp: ApplyPulled_def dest: dbExec_err)
  next
    case (Inr u)
    then have tx: "applyPulledTx pl D = Inr D'" using ap by (simp add: ApplyPulled_def dbExec_eq_Inr)
    then show ?thesis using applyPulledTx_inv [OF D pl tx] applyPulledTx_frame [OF tx]
      by (simp add: frame_def outboxMarks_def)
  qed
next
  fix D D' :: db and e c r
  assume "store_inv D" and "ssSetCursor boltSync e c D = (r, D')"
  then show "store_inv D' \<and> outboxMarks D' = outboxMarks D"
    by (auto simp: SetCursor_def sync_keys elim!: putSync_marks)
next
  fix D D' :: db and e t msg r
  assume "store_inv D" and "ssSetSyncResult boltSync e t msg D = (r, D')"
  then show "store_inv D' \<and> outboxMarks D' = outboxMarks D"
    by (auto simp: SetSyncResult_def sync_keys elim!: putSync_marks)
qed

section \<open>Cycles of the agent\<close>

text \<open>
  C26. A sync that reports success has pushed everything. On a linked device, whatever client
  and store failures there are and with no local operation in between, a whole cycle keeps
  the store's invariant and either leaves every outbox mark in place or clears them all; and
  when it returns no error, nothing is left to push: no product, sale, stock event or
  settings change.
\<close>

theorem SyncOnce_empties_outbox:
  assumes "store_inv D" and "goodClient C" and "syLinked (SyncStateOf D)"
    and "SyncOnce boltSync C cy D w = (r, D', w')"
  shows "store_inv D' \<and> (outboxMarks D' = outboxMarks D \<or> outboxMarks D' = noMarks) \<and>
     (r = None \<longrightarrow> PendingProducts D' = Inr [] \<and> PendingSales D' = Inr [] \<and>
        PendingStockEvents D' = Inr [] \<and> PendingSettings D' = None)"
proof -
  have c: "store_inv D' \<and> (r = None \<longrightarrow> outboxMarks D' = noMarks) \<and>
      (outboxMarks D' = outboxMarks D \<or> outboxMarks D' = noMarks)"
    using bolt.cycle_marks [OF assms(1,2) _ assms(3,4)] by simp
  moreover have "PendingProducts D' = Inr [] \<and> PendingSales D' = Inr [] \<and>
        PendingStockEvents D' = Inr [] \<and> PendingSettings D' = None" if "outboxMarks D' = noMarks"
    using that by (simp add: outboxMarks_def noMarks_def PendingProducts_def PendingSales_def
        PendingStockEvents_def PendingSettings_def)
  ultimately show ?thesis by blast
qed

definition demoLinked :: db where
  "demoLinked = demoQueued\<lparr>bSyncState := [(kLinked, Text ''yes'')]\<rparr>"

theorem SyncOnce_empties_outbox_witness:
  "\<exists>r D' w'. SyncOnce boltSync quietCloud \<lparr>cyClear = demoEnv 5, cyApply = demoEnv 6, cyCursor = demoEnv 7,
      cyResult = demoEnv 8\<rparr> demoLinked 0 = (r, D', w') \<and> store_inv D'"
proof -
  have "store_inv demoLinked = store_inv demoQueued" by (rule store_inv_cong) (simp_all add: demoLinked_def)
  then have inv: "store_inv demoLinked" by simp
  have good: "goodClient quietCloud" by (auto simp: goodClient_def quietCloud_def pulledOK_def)
  have linked: "syLinked (SyncStateOf demoLinked)"
    by (simp add: demoLinked_def SyncStateOf_def syncText_def Let_def)
  obtain r D' w' where "SyncOnce boltSync quietCloud \<lparr>cyClear = demoEnv 5, cyApply = demoEnv 6,
      cyCursor = demoEnv 7, cyResult = demoEnv 8\<rparr> demoLinked 0 = (r, D', w')"
    using prod_cases3 by blast
  with SyncOnce_empties_outbox [OF inv good linked this] show ?thesis by blast
qed

end
