(* ===== verification/Controller.thy ===== *)
theory Controller
  imports Engine_Correct
begin

text \<open>
  \<^verbatim>\<open>internal/cloudsync/controller.go\<close>: the owner of the link. \<open>ctlLink\<close>, \<open>ctlUnlink\<close>,
  \<open>ctlSync\<close>, \<open>Nudge\<close> and \<open>StatusOf\<close> are its methods over any store with the link operations
  and any transport. The background loop \<open>Run\<close> with its \<open>coalesce\<close> window is the step
  relation \<open>loop_step\<close>: the loop's own steps (a tick, a nudge taken or absorbed, the window
  ending, a sync starting and ending, cancellation) interleaved with the web layer's writes,
  nudges and manual syncs. A sync reads the outbox after it starts, so the relation counts
  the writes made, the writes nudged for, and the writes the last sync to start could see.
\<close>

section \<open>The code: methods\<close>

record 's LinkStore = "'s SyncStore" +
  lsLink :: "env \<Rightarrow> string \<Rightarrow> string \<Rightarrow> string \<Rightarrow> string \<Rightarrow> 's \<Rightarrow> (err + unit) \<times> 's"
  lsUnlink :: "env \<Rightarrow> 's \<Rightarrow> (err + unit) \<times> 's"

definition boltLink :: "db LinkStore" where
  "boltLink = SyncStore.extend boltSync \<lparr>lsLink = Link, lsUnlink = Unlink\<rparr>"

text \<open>The flags of a controller; \<open>ctTrigger\<close> says whether the one-slot channel is full.\<close>

record Controller =
  ctTrigger :: bool
  ctSyncing :: bool
  ctOffline :: bool

definition NewController :: Controller where
  "NewController = \<lparr>ctTrigger = False, ctSyncing = False, ctOffline = False\<rparr>"

definition Nudge :: "Controller \<Rightarrow> Controller" where
  "Nudge c = c\<lparr>ctTrigger := True\<rparr>"

definition syncStart :: "Controller \<Rightarrow> Controller" where
  "syncStart c = c\<lparr>ctSyncing := True\<rparr>"

definition syncDone :: "syncErr option \<Rightarrow> Controller \<Rightarrow> Controller" where
  "syncDone err c = c\<lparr>ctSyncing := False, ctOffline := IsOffline err\<rparr>"

definition ctlSync :: "'s LinkStore \<Rightarrow> 'w transport \<Rightarrow> cycle \<Rightarrow> Controller \<Rightarrow> 's \<Rightarrow> 'w \<Rightarrow>
    syncErr option \<times> Controller \<times> 's \<times> 'w" where
  "ctlSync S tr cy c s w =
     (case SyncOnce (SyncStore.truncate S) (httpClient tr) cy s w of
        (err, s', w') \<Rightarrow> (err, syncDone err (syncStart c), s', w'))"

definition ctlLink :: "'s LinkStore \<Rightarrow> 'w transport \<Rightarrow> env \<Rightarrow> cycle \<Rightarrow> string \<Rightarrow> string \<Rightarrow> string \<Rightarrow>
    Controller \<Rightarrow> 's \<Rightarrow> 'w \<Rightarrow> syncErr option \<times> Controller \<times> 's \<times> 'w" where
  "ctlLink S tr e cy baseURL email password c s w =
     (case clientLogin tr baseURL email password w of
        (Inl x, w1) \<Rightarrow> (Some x, c, s, w1)
      | (Inr info, w1) \<Rightarrow>
          (case lsLink S e baseURL (liShopID info) (liEmail info) (liToken info) s of
             (Inl x, s1) \<Rightarrow> (Some (StoreErr x), c, s1, w1)
           | (Inr _, s1) \<Rightarrow> ctlSync S tr cy c s1 w1))"

definition ctlUnlink :: "'s LinkStore \<Rightarrow> env \<Rightarrow> 's \<Rightarrow> (err + unit) \<times> 's" where
  "ctlUnlink S e s = lsUnlink S e s"

record Status =
  stState :: SyncState
  stPendingProducts :: nat
  stPendingSales :: nat
  stPendingSettings :: bool
  stSyncing :: bool
  stOnline :: bool

definition countOf :: "'e + 'a list \<Rightarrow> nat" where
  "countOf r = (case r of Inl _ \<Rightarrow> 0 | Inr xs \<Rightarrow> length xs)"

definition StatusOf :: "'s LinkStore \<Rightarrow> Controller \<Rightarrow> 's \<Rightarrow> err + Status" where
  "StatusOf S c s =
     rbind (ssSyncState S s) (\<lambda>st. Inr
       \<lparr>stState = st, stPendingProducts = countOf (ssPendingProducts S s),
        stPendingSales = countOf (ssPendingSales S s),
        stPendingSettings = (case ssPendingSettings S s of Inl _ \<Rightarrow> False | Inr m \<Rightarrow> m \<noteq> None),
        stSyncing = ctSyncing c, stOnline = (syLinked st \<and> \<not> ctOffline c)\<rparr>)"

section \<open>What the owner sees\<close>

lemma boltLink_simps [simp]:
  "ssSyncState boltLink D = Inr (SyncStateOf D)" "ssPendingProducts boltLink = PendingProducts"
  "ssPendingSales boltLink = PendingSales" "ssPendingSettings boltLink D = Inr (PendingSettings D)"
  "lsLink boltLink = Link" "lsUnlink boltLink = Unlink" "SyncStore.truncate boltLink = boltSync"
  by (simp_all add: boltLink_def boltSync_def SyncStore.defs)

text \<open>
  The status line tells the truth. On a store with the invariant it never fails, its counts
  are the numbers of products and sales waiting to be pushed, it says settings are waiting
  exactly when they are marked, and it claims to be online only when the device is linked
  and the last attempt reached the cloud: an error that got a reply still counts as online.
\<close>

theorem Status_counts:
  assumes "store_inv D" and "goodClient (httpClient tr)"
    and "ctlSync boltLink tr cy c D w = (err, c', D', w')"
  shows "\<exists>st. StatusOf boltLink c' D' = Inr st \<and> stState st = SyncStateOf D' \<and>
     stPendingProducts st = card (fst ` set (bPendingProd D')) \<and>
     stPendingSales st = card (fst ` set (bPendingSale D')) \<and>
     (stPendingSettings st \<longleftrightarrow> PendingSettings D' \<noteq> None) \<and> \<not> stSyncing st \<and>
     (stOnline st \<longleftrightarrow> syLinked (SyncStateOf D') \<and>
        (case err of Some (BadURL _) \<Rightarrow> False | Some (Unreachable _) \<Rightarrow> False
          | Some (BadReply _ net) \<Rightarrow> \<not> net | _ \<Rightarrow> True))"
proof -
  have run: "SyncOnce boltSync (httpClient tr) cy D w = (err, D', w')"
    and c': "c' = syncDone err (syncStart c)"
    using assms(3) by (auto simp: ctlSync_def split: prod.splits)
  have inv: "store_inv D'"
  proof (cases "syLinked (SyncStateOf D)")
    case True
    with bolt.cycle_marks [OF assms(1,2) _ True run] show ?thesis by simp
  next
    case False
    with run assms(1) show ?thesis by (simp add: SyncOnce_def)
  qed
  obtain ps ss where r: "PendingProducts D' = Inr ps" "PendingSales D' = Inr ss"
    and ids: "map pID ps = map fst (bPendingProd D')" "map saID ss = map fst (bPendingSale D')"
    using outbox_rows [OF inv] by blast
  have "bsorted (bPendingProd D')" "bsorted (bPendingSale D')"
    using inv by (simp_all add: store_inv_def catalogue_inv_def sales_inv_def table_inv_def)
  then have "distinct (map fst (bPendingProd D'))" "distinct (map fst (bPendingSale D'))"
    by (simp_all add: bsorted_distinct)
  then have card: "card (fst ` set (bPendingProd D')) = length ps" "card (fst ` set (bPendingSale D')) = length ss"
    using ids by (metis distinct_card length_map set_map)+
  have "ctSyncing c' = False" "ctOffline c' = IsOffline err" by (simp_all add: c' syncDone_def)
  moreover have "IsOffline err \<longleftrightarrow> \<not> (case err of Some (BadURL _) \<Rightarrow> False | Some (Unreachable _) \<Rightarrow> False
          | Some (BadReply _ net) \<Rightarrow> \<not> net | _ \<Rightarrow> True)"
    by (auto simp: IsOffline_def split: option.split syncErr.split)
  ultimately show ?thesis by (simp add: StatusOf_def countOf_def r card)
qed

text \<open>A transport that is down: every request fails in the dial.\<close>

definition deadTransport :: "nat transport" where
  "deadTransport = \<lparr>trLogin = (\<lambda>u e p w. (Inl (DoFailed ''dial''), w + 1)),
     trPull = (\<lambda>u t c w. (Inl (DoFailed ''dial''), w + 1)), trPush = (\<lambda>u t p w. (Inl (DoFailed ''dial''), w + 1))\<rparr>"

theorem Status_counts_witness:
  "\<exists>err c' D' w' st. ctlSync boltLink deadTransport \<lparr>cyClear = demoEnv 5, cyApply = demoEnv 6, cyCursor = demoEnv 7,
      cyResult = demoEnv 8\<rparr> NewController demoQueued 0 = (err, c', D', w') \<and> StatusOf boltLink c' D' = Inr st \<and>
      stPendingProducts st = card (fst ` set (bPendingProd D'))"
proof -
  have good: "goodClient (httpClient deadTransport)"
    by (simp add: goodClient_def httpClient_def deadTransport_def clientPull_def post_def)
  obtain err c' D' w' where run: "ctlSync boltLink deadTransport \<lparr>cyClear = demoEnv 5, cyApply = demoEnv 6,
      cyCursor = demoEnv 7, cyResult = demoEnv 8\<rparr> NewController demoQueued 0 = (err, c', D', w')"
    using prod_cases4 by blast
  with Status_counts [OF demoQueued_inv good run] show ?thesis by blast
qed

section \<open>The code: the background loop\<close>

text \<open>
  Where the loop is: about to sync, inside a sync (holding the mutex), at the \<^verbatim>\<open>select\<close>, in the
  coalescing window, or returned. A manual sync of the web layer holds the same mutex.
\<close>

datatype loopPhase = Due | InSync | Waiting | Coalescing | Returned

record loop =
  lpPhase :: loopPhase
  lpManual :: bool
  lpCtl :: Controller
  lpCancelled :: bool
  lpWrites :: nat
  lpNudged :: nat
  lpSeen :: nat

definition RunStart :: loop where
  "RunStart = \<lparr>lpPhase = Due, lpManual = False, lpCtl = NewController, lpCancelled = False,
     lpWrites = 0, lpNudged = 0, lpSeen = 0\<rparr>"

definition beginSync :: "loop \<Rightarrow> loop" where
  "beginSync L = L\<lparr>lpCtl := syncStart (lpCtl L), lpSeen := lpWrites L\<rparr>"

definition takeTrigger :: "loop \<Rightarrow> loop" where
  "takeTrigger L = L\<lparr>lpCtl := (lpCtl L)\<lparr>ctTrigger := False\<rparr>\<rparr>"

text \<open>The steps of \<open>Run\<close> itself. After the window \<open>coalesce\<close> returns, and \<open>Run\<close> syncs, whether the
  timer fired or the context was cancelled.\<close>

inductive run_step :: "loop \<Rightarrow> loop \<Rightarrow> bool" where
  run_sync: "lpPhase L = Due \<Longrightarrow> \<not> lpManual L \<Longrightarrow> run_step L ((beginSync L)\<lparr>lpPhase := InSync\<rparr>)"
| run_done: "lpPhase L = InSync \<Longrightarrow> run_step L (L\<lparr>lpPhase := Waiting, lpCtl := syncDone err (lpCtl L)\<rparr>)"
| run_tick: "lpPhase L = Waiting \<Longrightarrow> run_step L (L\<lparr>lpPhase := Due\<rparr>)"
| run_take: "lpPhase L = Waiting \<Longrightarrow> ctTrigger (lpCtl L) \<Longrightarrow> run_step L ((takeTrigger L)\<lparr>lpPhase := Coalescing\<rparr>)"
| run_absorb: "lpPhase L = Coalescing \<Longrightarrow> ctTrigger (lpCtl L) \<Longrightarrow> run_step L (takeTrigger L)"
| run_timer: "lpPhase L = Coalescing \<Longrightarrow> run_step L (L\<lparr>lpPhase := Due\<rparr>)"
| run_return: "lpPhase L = Waiting \<Longrightarrow> lpCancelled L \<Longrightarrow> run_step L (L\<lparr>lpPhase := Returned\<rparr>)"

text \<open>The rest of the agent: a write commits, its handler nudges, the owner presses Sync (taking
  the mutex), and the process shuts down.\<close>

inductive loop_step :: "loop \<Rightarrow> loop \<Rightarrow> bool" where
  lp_run: "run_step L L' \<Longrightarrow> loop_step L L'"
| lp_write: "loop_step L (L\<lparr>lpWrites := lpWrites L + 1\<rparr>)"
| lp_nudge: "loop_step L (L\<lparr>lpCtl := Nudge (lpCtl L), lpNudged := lpWrites L\<rparr>)"
| lp_manual: "\<not> lpManual L \<Longrightarrow> lpPhase L \<noteq> InSync \<Longrightarrow> loop_step L ((beginSync L)\<lparr>lpManual := True\<rparr>)"
| lp_manual_done: "lpManual L \<Longrightarrow> loop_step L (L\<lparr>lpManual := False, lpCtl := syncDone err (lpCtl L)\<rparr>)"
| lp_cancel: "loop_step L (L\<lparr>lpCancelled := True\<rparr>)"

inductive_cases run_stepE: "run_step L L'"

section \<open>No nudge is lost\<close>

text \<open>A write the loop owes a sync: it has been nudged for and no sync has started since.\<close>

definition owed :: "loop \<Rightarrow> bool" where
  "owed L \<longleftrightarrow> lpSeen L < lpNudged L"

definition loop_inv :: "loop \<Rightarrow> bool" where
  "loop_inv L \<longleftrightarrow> lpNudged L \<le> lpWrites L \<and> lpSeen L \<le> lpWrites L \<and>
     \<not> (lpManual L \<and> lpPhase L = InSync) \<and>
     (ctSyncing (lpCtl L) \<longleftrightarrow> lpManual L \<or> lpPhase L = InSync) \<and>
     (owed L \<longrightarrow> ctTrigger (lpCtl L) \<or> lpPhase L \<in> {Due, Coalescing})"

lemmas loop_defs = beginSync_def takeTrigger_def syncStart_def syncDone_def Nudge_def owed_def

lemma run_step_inv: "run_step L L' \<Longrightarrow> loop_inv L \<Longrightarrow> loop_inv L'"
  by (induction rule: run_step.induct) (auto simp: loop_inv_def loop_defs)

lemma loop_step_inv: "loop_step L L' \<Longrightarrow> loop_inv L \<Longrightarrow> loop_inv L'"
proof (induction rule: loop_step.induct)
  case (lp_run L L')
  then show ?case by (rule run_step_inv)
qed (auto simp: loop_inv_def loop_defs)

lemma loop_reach_inv: "loop_step\<^sup>*\<^sup>* RunStart L \<Longrightarrow> loop_inv L"
proof (induction rule: rtranclp_induct)
  case base
  show ?case by (simp add: RunStart_def NewController_def loop_inv_def owed_def)
next
  case (step y z)
  then show ?case by (blast intro: loop_step_inv)
qed

lemma owed_kept: "loop_step L L' \<Longrightarrow> loop_inv L \<Longrightarrow> owed L \<Longrightarrow> owed L' \<or> lpSeen L' = lpWrites L'"
proof (induction rule: loop_step.induct)
  case (lp_run L L')
  then show ?case by (induction rule: run_step.induct) (auto simp: loop_defs)
qed (auto simp: loop_defs loop_inv_def)

lemma due_syncs: "lpPhase L = Due \<Longrightarrow> \<not> lpManual L \<Longrightarrow>
    run_step L ((beginSync L)\<lparr>lpPhase := InSync\<rparr>) \<and> lpSeen ((beginSync L)\<lparr>lpPhase := InSync\<rparr>) = lpWrites L"
  by (simp add: run_sync) (simp add: beginSync_def)

lemma coalescing_syncs:
  assumes "lpPhase L = Coalescing" and "\<not> lpManual L"
  shows "\<exists>L'. (run_step ^^ 2) L L' \<and> lpSeen L' = lpWrites L \<and> lpWrites L' = lpWrites L"
proof -
  have "run_step L (L\<lparr>lpPhase := Due\<rparr>)" using assms by (intro run_timer)
  moreover have "run_step (L\<lparr>lpPhase := Due\<rparr>) ((beginSync (L\<lparr>lpPhase := Due\<rparr>))\<lparr>lpPhase := InSync\<rparr>)"
    using assms by (intro run_sync) simp_all
  ultimately have "(run_step ^^ 2) L ((beginSync (L\<lparr>lpPhase := Due\<rparr>))\<lparr>lpPhase := InSync\<rparr>)"
    by (auto simp: numeral_2_eq_2)
  then show ?thesis by (intro exI) (auto simp: beginSync_def)
qed

lemma waiting_syncs:
  assumes "lpPhase L = Waiting" and "ctTrigger (lpCtl L)" and "\<not> lpManual L"
  shows "\<exists>L'. (run_step ^^ 3) L L' \<and> lpSeen L' = lpWrites L \<and> lpWrites L' = lpWrites L"
proof -
  let ?M = "(takeTrigger L)\<lparr>lpPhase := Coalescing\<rparr>"
  have "run_step L ?M" using assms by (intro run_take)
  moreover obtain L' where "(run_step ^^ 2) ?M L'" "lpSeen L' = lpWrites ?M" "lpWrites L' = lpWrites ?M"
    using coalescing_syncs [of ?M] assms(3) by (auto simp: takeTrigger_def)
  ultimately have "(run_step ^^ 3) L L'" by (auto simp: numeral_3_eq_3 numeral_2_eq_2 relcompp.simps)
  moreover have "lpWrites ?M = lpWrites L" by (simp add: takeTrigger_def)
  ultimately show ?thesis using \<open>lpSeen L' = lpWrites ?M\<close> \<open>lpWrites L' = lpWrites ?M\<close> by metis
qed


text \<open>The loop waits after its first sync; a write commits and nudges.\<close>

definition demoLoop :: loop where
  "demoLoop = (let L1 = (beginSync RunStart)\<lparr>lpPhase := InSync\<rparr>;
                   L2 = L1\<lparr>lpPhase := Waiting, lpCtl := syncDone None (lpCtl L1)\<rparr>;
                   L3 = L2\<lparr>lpWrites := lpWrites L2 + 1\<rparr>
               in L3\<lparr>lpCtl := Nudge (lpCtl L3), lpNudged := lpWrites L3\<rparr>)"

lemma demoLoop_reach: "loop_step\<^sup>*\<^sup>* RunStart demoLoop"
proof -
  define L1 where "L1 = (beginSync RunStart)\<lparr>lpPhase := InSync\<rparr>"
  define L2 where "L2 = L1\<lparr>lpPhase := Waiting, lpCtl := syncDone None (lpCtl L1)\<rparr>"
  define L3 where "L3 = L2\<lparr>lpWrites := lpWrites L2 + 1\<rparr>"
  have "loop_step RunStart L1" unfolding L1_def by (intro lp_run run_sync) (simp_all add: RunStart_def)
  moreover have "loop_step L1 L2" unfolding L2_def by (intro lp_run run_done) (simp add: L1_def)
  moreover have "loop_step L2 L3" unfolding L3_def by (rule lp_write)
  moreover have "loop_step L3 (L3\<lparr>lpCtl := Nudge (lpCtl L3), lpNudged := lpWrites L3\<rparr>)" by (rule lp_nudge)
  moreover have "demoLoop = L3\<lparr>lpCtl := Nudge (lpCtl L3), lpNudged := lpWrites L3\<rparr>"
    by (simp add: demoLoop_def L3_def L2_def L1_def Let_def)
  ultimately show ?thesis by (metis converse_rtranclp_into_rtranclp r_into_rtranclp)
qed


end
