(* ===== verification/Scan.thy ===== *)
theory Scan
  imports GoText "HOL-Library.Multiset" "HOL-Library.Product_Lexorder" "HOL-Library.Word"
begin

unbundle bit_operations_syntax

text \<open>
  \<^verbatim>\<open>internal/scan/scan.go\<close>: finding receipt printers. \<open>localHosts\<close> lists the addresses to try,
  from the machine's interfaces (an argument: \<^verbatim>\<open>net.Interfaces\<close>). \<^verbatim>\<open>Scan\<close> starts one goroutine per
  address and port; \<open>scan_step\<close> is one of them finishing, in any order, with the context's
  deadline able to pass at any moment, \<open>devicesOf\<close> is what the collecting loop returns, and \<open>scan_outcome\<close> is the whole.
  Whether a port answers is the argument \<open>probe\<close>. The semaphore only bounds how many run at
  once and has no counterpart. A Go map iterates in any order: \<open>byIP\<close> is a list in the order of
  first arrival, and \<open>Scan_exact\<close> shows that no order matters.
\<close>

section \<open>Devices\<close>

definition printerPorts :: "int list" where
  "printerPorts = [9100, 515, 631]"

record Device =
  dvIP :: string
  dvPorts :: "int list"
  dvLikely :: bool

text \<open>\<^verbatim>\<open>net.JoinHostPort\<close> puts an address with a colon in brackets.\<close>

definition JoinHostPort :: "string \<Rightarrow> string \<Rightarrow> string" where
  "JoinHostPort host port =
     (if CHR '':'' \<in> set host then ''['' @ host @ '']:'' @ port else host @ '':'' @ port)"

text \<open>The port to print to; \<open>None\<close> is the panic on a device without ports.\<close>

fun preferRaw :: "int list \<Rightarrow> int \<Rightarrow> int" where
  "preferRaw [] port = port"
| "preferRaw (p # ps) port = (if p = 9100 then 9100 else preferRaw ps port)"

definition Addr :: "Device \<Rightarrow> string option" where
  "Addr d = (case dvPorts d of [] \<Rightarrow> None
     | p # ps \<Rightarrow> Some (JoinHostPort (dvIP d) (itoa (preferRaw (p # ps) p))))"

fun addHit :: "Device list \<Rightarrow> string \<times> int \<Rightarrow> Device list" where
  "addHit [] (ip, port) = [\<lparr>dvIP = ip, dvPorts = [port], dvLikely = (port = 9100)\<rparr>]"
| "addHit (d # ds) (ip, port) =
     (if dvIP d = ip
      then d\<lparr>dvPorts := dvPorts d @ [port], dvLikely := (dvLikely d \<or> port = 9100)\<rparr> # ds
      else d # addHit ds (ip, port))"

definition devicesOf :: "Device list \<Rightarrow> Device list" where
  "devicesOf byIP =
     sort_key (\<lambda>d. (\<not> dvLikely d, dvIP d)) (map (\<lambda>d. d\<lparr>dvPorts := sort (dvPorts d)\<rparr>) byIP)"

section \<open>The sweep\<close>

text \<open>The goroutines still running, the devices collected so far, and whether the deadline has
  passed. A goroutine that gives up delivers nothing.\<close>

type_synonym sweep = "(string \<times> int) multiset \<times> Device list \<times> bool"

definition sweepStart :: "string list \<Rightarrow> sweep" where
  "sweepStart hosts = (mset (List.product hosts printerPorts), [], False)"

inductive scan_step :: "(string \<Rightarrow> int \<Rightarrow> bool) \<Rightarrow> sweep \<Rightarrow> sweep \<Rightarrow> bool" for probe where
  scan_hit: "(h, p) \<in># todo \<Longrightarrow> probe h p \<Longrightarrow>
     scan_step probe (todo, ds, c) (todo - {#(h, p)#}, addHit ds (h, p), c)"
| scan_miss: "(h, p) \<in># todo \<Longrightarrow> \<not> probe h p \<Longrightarrow> scan_step probe (todo, ds, c) (todo - {#(h, p)#}, ds, c)"
| scan_give_up: "(h, p) \<in># todo \<Longrightarrow> scan_step probe (todo, ds, True) (todo - {#(h, p)#}, ds, True)"
| scan_deadline: "scan_step probe (todo, ds, c) (todo, ds, True)"

section \<open>The addresses to try\<close>

type_synonym ip4 = "8 word \<times> 8 word \<times> 8 word \<times> 8 word"

definition isPrivate :: "ip4 \<Rightarrow> bool" where
  "isPrivate ip = (case ip of (a, b, c, d) \<Rightarrow>
     a = 10 \<or> (a = 172 \<and> b AND 0xF0 = 16) \<or> (a = 192 \<and> b = 168))"

definition dotted :: "ip4 \<Rightarrow> string" where
  "dotted ip = (case ip of (a, b, c, d) \<Rightarrow> joinWith ''.'' (map (\<lambda>x. ntoa (unat x)) [a, b, c, d]))"

text \<open>Byte \<open>j\<close> of the mask with \<open>ones\<close> leading ones.\<close>

definition maskByte :: "nat \<Rightarrow> nat \<Rightarrow> 8 word" where
  "maskByte ones j = (if 8 * j + 8 \<le> ones then 255 else of_nat (256 - 2 ^ (8 - (ones - 8 * j))))"

definition ipMask :: "nat \<Rightarrow> ip4 \<Rightarrow> ip4" where
  "ipMask ones ip = (case ip of (a, b, c, d) \<Rightarrow>
     (a AND maskByte ones 0, b AND maskByte ones 1, c AND maskByte ones 2, d AND maskByte ones 3))"

text \<open>An interface address: whether it is an \<^verbatim>\<open>*net.IPNet\<close>, \<^verbatim>\<open>IP.To4()\<close> and \<^verbatim>\<open>Mask.Size()\<close>.\<close>

record ifaceAddr =
  iaIsNet :: bool
  iaIP4 :: "ip4 option"
  iaOnes :: nat
  iaBits :: nat

record iface =
  ifUp :: bool
  ifLoopback :: bool
  ifAddrs :: "ifaceAddr list option"

text \<open>\<^verbatim>\<open>seen\<close> holds the strings of \<^verbatim>\<open>hosts\<close>.\<close>

definition addHost :: "string \<Rightarrow> string list \<Rightarrow> string \<Rightarrow> string list" where
  "addHost own hosts h = (if h = own \<or> h \<in> set hosts then hosts else hosts @ [h])"

definition subnetHosts :: "nat \<Rightarrow> ip4 \<Rightarrow> string list" where
  "subnetHosts ones ip = (case ipMask ones ip of (a, b, c, d) \<Rightarrow> map (\<lambda>i. dotted (a, b, c, of_nat i)) [1..<255])"

definition sweepAddr :: "string list \<Rightarrow> ifaceAddr \<Rightarrow> string list" where
  "sweepAddr hosts addr =
     (if \<not> iaIsNet addr then hosts
      else case iaIP4 addr of None \<Rightarrow> hosts
      | Some ip \<Rightarrow>
          if \<not> isPrivate ip then hosts
          else if iaBits addr \<noteq> 32 \<or> iaOnes addr < 24 then hosts
          else foldl (addHost (dotted ip)) hosts (subnetHosts (iaOnes addr) ip))"

definition sweepIface :: "string list \<Rightarrow> iface \<Rightarrow> string list" where
  "sweepIface hosts f =
     (if \<not> ifUp f \<or> ifLoopback f then hosts
      else case ifAddrs f of None \<Rightarrow> hosts | Some addrs \<Rightarrow> foldl sweepAddr hosts addrs)"

text \<open>\<open>None\<close> is the error of \<^verbatim>\<open>net.Interfaces\<close>.\<close>

definition localHosts :: "iface list option \<Rightarrow> string list option" where
  "localHosts ifaces = (case ifaces of None \<Rightarrow> None | Some fs \<Rightarrow> Some (foldl sweepIface [] fs))"

text \<open>\<^verbatim>\<open>Scan\<close> as a whole: \<open>c\<close> tells whether the deadline has passed when the last goroutine ends.\<close>

inductive scan_outcome :: "(string \<Rightarrow> int \<Rightarrow> bool) \<Rightarrow> iface list option \<Rightarrow> bool \<Rightarrow> Device list option \<Rightarrow> bool" for probe where
  scan_no_interfaces: "localHosts ifaces = None \<Longrightarrow> scan_outcome probe ifaces c None"
| scan_done: "localHosts ifaces = Some hosts \<Longrightarrow> (scan_step probe)\<^sup>*\<^sup>* (sweepStart hosts) ({#}, ds, c) \<Longrightarrow>
    scan_outcome probe ifaces c (Some (devicesOf ds))"

inductive_cases scan_outcomeE: "scan_outcome probe ifaces c found"

section \<open>The result does not depend on the order of arrival\<close>

definition portsOf :: "string \<Rightarrow> Device list \<Rightarrow> int list" where
  "portsOf ip ds = concat (map dvPorts (filter (\<lambda>d. dvIP d = ip) ds))"

definition devs_inv :: "Device list \<Rightarrow> bool" where
  "devs_inv ds \<longleftrightarrow> distinct (map dvIP ds) \<and> (\<forall>d \<in> set ds. dvPorts d \<noteq> [] \<and> (dvLikely d \<longleftrightarrow> 9100 \<in> set (dvPorts d)))"

lemma addHit_ips: "set (map dvIP (addHit ds (ip, port))) = insert ip (set (map dvIP ds))"
  by (induction ds "(ip, port)" rule: addHit.induct) auto

lemma addHit_inv: "devs_inv ds \<Longrightarrow> devs_inv (addHit ds (ip, port))"
proof (induction ds "(ip, port)" rule: addHit.induct)
  case (2 d ds)
  then have "devs_inv ds" "dvIP d \<notin> set (map dvIP ds)" by (auto simp: devs_inv_def)
  with 2 show ?case using addHit_ips [of ds ip port] by (auto simp: devs_inv_def)
qed (simp add: devs_inv_def)

lemma portsOf_none: "ip \<notin> set (map dvIP ds) \<Longrightarrow> portsOf ip ds = []"
  by (induction ds) (auto simp: portsOf_def)

lemma portsOf_Cons: "portsOf ip (d # ds) = (if dvIP d = ip then dvPorts d @ portsOf ip ds else portsOf ip ds)"
  by (simp add: portsOf_def)

lemma portsOf_addHit:
  "distinct (map dvIP ds) \<Longrightarrow>
   portsOf i (addHit ds (ip, port)) = (if i = ip then portsOf i ds @ [port] else portsOf i ds)"
proof (induction ds "(ip, port)" rule: addHit.induct)
  case (2 d ds)
  then have "portsOf (dvIP d) ds = []" by (intro portsOf_none) simp
  with 2 show ?case by (auto simp: portsOf_Cons)
qed (simp add: portsOf_def)

lemma portsOf_device:
  "distinct (map dvIP ds) \<Longrightarrow> d \<in> set ds \<Longrightarrow> portsOf (dvIP d) ds = dvPorts d"
proof (induction ds)
  case (Cons e ds)
  show ?case
  proof (cases "d = e")
    case True
    with Cons.prems have "portsOf (dvIP d) ds = []" by (intro portsOf_none) simp
    with True show ?thesis by (simp add: portsOf_Cons)
  next
    case False
    with Cons.prems have "d \<in> set ds" "dvIP e \<noteq> dvIP d" by auto
    with Cons show ?thesis by (simp add: portsOf_Cons)
  qed
qed simp

text \<open>What has arrived and what is still running make up the answers.\<close>

definition answers :: "(string \<Rightarrow> int \<Rightarrow> bool) \<Rightarrow> (string \<times> int) multiset \<Rightarrow> string \<Rightarrow> int multiset" where
  "answers probe todo ip = image_mset snd (filter_mset (\<lambda>(h, p). h = ip \<and> probe h p) todo)"

lemma answers_remove:
  "(h, p) \<in># todo \<Longrightarrow>
   answers probe todo ip = answers probe (todo - {#(h, p)#}) ip + (if h = ip \<and> probe h p then {#p#} else {#})"
proof -
  assume "(h, p) \<in># todo"
  then obtain rest where "todo = add_mset (h, p) rest" by (blast dest: multi_member_split)
  then show ?thesis by (auto simp: answers_def)
qed

definition sweep_ok :: "(string \<Rightarrow> int \<Rightarrow> bool) \<Rightarrow> string list \<Rightarrow> sweep \<Rightarrow> bool" where
  "sweep_ok probe hosts s = (case s of (todo, ds, c) \<Rightarrow>
     devs_inv ds \<and>
     (\<not> c \<longrightarrow> (\<forall>ip. mset (portsOf ip ds) + answers probe todo ip
                 = answers probe (mset (List.product hosts printerPorts)) ip)))"

lemma scan_step_ok: "scan_step probe s s' \<Longrightarrow> sweep_ok probe hosts s \<Longrightarrow> sweep_ok probe hosts s'"
proof (induction rule: scan_step.induct)
  case (scan_hit h p todo ds c)
  then have inv: "devs_inv ds" by (simp add: sweep_ok_def)
  then have "distinct (map dvIP ds)" by (simp add: devs_inv_def)
  then have "mset (portsOf ip (addHit ds (h, p))) + answers probe (todo - {#(h, p)#}) ip =
      mset (portsOf ip ds) + answers probe todo ip" for ip
    using scan_hit(2) answers_remove [OF scan_hit(1), of probe ip] by (simp add: portsOf_addHit)
  then show ?case using scan_hit(3) inv by (simp add: sweep_ok_def addHit_inv)
next
  case (scan_miss h p todo ds c)
  then show ?case using answers_remove [OF scan_miss(1), of probe] by (simp add: sweep_ok_def)
qed (simp_all add: sweep_ok_def)

lemma sweep_runs_ok: "(scan_step probe)\<^sup>*\<^sup>* (sweepStart hosts) s \<Longrightarrow> sweep_ok probe hosts s"
proof (induction rule: rtranclp_induct)
  case base
  show ?case by (simp add: sweep_ok_def sweepStart_def devs_inv_def portsOf_def)
qed (rule scan_step_ok)

text \<open>The devices a sweep should find.\<close>

definition expectedDevice :: "(string \<Rightarrow> int \<Rightarrow> bool) \<Rightarrow> string \<Rightarrow> Device" where
  "expectedDevice probe h = \<lparr>dvIP = h, dvPorts = filter (probe h) [515, 631, 9100], dvLikely = probe h 9100\<rparr>"

definition expectedDevices :: "(string \<Rightarrow> int \<Rightarrow> bool) \<Rightarrow> string list \<Rightarrow> Device list" where
  "expectedDevices probe hosts =
     (let found = filter (\<lambda>h. list_ex (probe h) printerPorts) hosts in
      map (expectedDevice probe) (sort (filter (\<lambda>h. probe h 9100) found) @ sort (filter (\<lambda>h. \<not> probe h 9100) found)))"

lemma answers_all:
  "distinct hosts \<Longrightarrow> answers probe (mset (List.product hosts printerPorts)) ip =
     (if ip \<in> set hosts then mset (filter (probe ip) printerPorts) else {#})"
  by (induction hosts) (auto simp: answers_def printerPorts_def)

lemma found_devices:
  assumes "distinct hosts" and "sweep_ok probe hosts ({#}, ds, False)"
  shows "distinct (map dvIP ds)"
    and "d \<in> set ds \<Longrightarrow> dvIP d \<in> set hosts \<and> list_ex (probe (dvIP d)) printerPorts \<and>
           d\<lparr>dvPorts := sort (dvPorts d)\<rparr> = expectedDevice probe (dvIP d)"
    and "h \<in> set hosts \<Longrightarrow> list_ex (probe h) printerPorts \<Longrightarrow> h \<in> dvIP ` set ds"
proof -
  have inv: "devs_inv ds" and all: "mset (portsOf ip ds) =
      (if ip \<in> set hosts then mset (filter (probe ip) printerPorts) else {#})" for ip
    using assms answers_all [OF assms(1)] by (auto simp: sweep_ok_def answers_def)
  show dist: "distinct (map dvIP ds)" using inv by (simp add: devs_inv_def)
  show "dvIP d \<in> set hosts \<and> list_ex (probe (dvIP d)) printerPorts \<and>
           d\<lparr>dvPorts := sort (dvPorts d)\<rparr> = expectedDevice probe (dvIP d)" if "d \<in> set ds" for d
  proof -
    have ports: "portsOf (dvIP d) ds = dvPorts d" and ne: "dvPorts d \<noteq> []"
      and likely: "dvLikely d \<longleftrightarrow> 9100 \<in> set (dvPorts d)"
      using portsOf_device [OF dist that] inv that by (simp_all add: devs_inv_def)
    have host: "dvIP d \<in> set hosts" using all [of "dvIP d"] ports ne by (auto split: if_splits)
    with all [of "dvIP d"] ports have m: "mset (dvPorts d) = mset (filter (probe (dvIP d)) printerPorts)" by simp
    then have "set (dvPorts d) = set (filter (probe (dvIP d)) printerPorts)" by (rule mset_eq_setD)
    then have "list_ex (probe (dvIP d)) printerPorts" "dvLikely d = probe (dvIP d) 9100"
      using ne likely by (auto simp: list_ex_iff printerPorts_def filter_empty_conv split: if_splits)
    moreover have "sort (dvPorts d) = filter (probe (dvIP d)) [515, 631, 9100]"
      using m by (intro properties_for_sort) (auto simp: printerPorts_def)
    ultimately show ?thesis using host by (simp add: expectedDevice_def)
  qed
  show "h \<in> dvIP ` set ds" if "h \<in> set hosts" "list_ex (probe h) printerPorts"
  proof (rule ccontr)
    assume "h \<notin> dvIP ` set ds"
    then have "portsOf h ds = []" by (intro portsOf_none) simp
    with all [of h] that show False by (auto simp: list_ex_iff filter_empty_conv)
  qed
qed

text \<open>Whatever order the probes finish in, a sweep that ends before its deadline returns the
  same list.\<close>

lemma sweep_exact:
  assumes "distinct hosts" and "(scan_step probe)\<^sup>*\<^sup>* (sweepStart hosts) ({#}, ds, False)"
  shows "devicesOf ds = expectedDevices probe hosts"
proof -
  let ?f = "\<lambda>d. d\<lparr>dvPorts := sort (dvPorts d)\<rparr>" and ?key = "\<lambda>d. (\<not> dvLikely d, dvIP d)"
  let ?found = "filter (\<lambda>h. list_ex (probe h) printerPorts) hosts"
  let ?es = "expectedDevices probe hosts"
  have ok: "sweep_ok probe hosts ({#}, ds, False)" using sweep_runs_ok [OF assms(2)] .
  note d = found_devices [OF assms(1) ok]
  have sim: "?f d = expectedDevice probe (dvIP d)" if "d \<in> set ds" for d using d(2) [OF that] by blast
  have "dvIP ` set ds = set ?found" using d(2,3) by auto
  moreover have "set (map ?f ds) = expectedDevice probe ` dvIP ` set ds" using sim by force
  ultimately have "set (map ?f ds) = set ?es" by (auto simp: expectedDevices_def Let_def)
  moreover have "map dvIP (map ?f ds) = map dvIP ds" by simp
  then have "distinct (map dvIP (map ?f ds))" using d(1) by (simp only:)
  then have "distinct (map ?f ds)" by (simp only: distinct_map)
  moreover have "distinct ?es"
  proof -
    have "inj_on (expectedDevice probe) hs" for hs
      by (rule inj_onI) (simp only: expectedDevice_def Device.iffs)
    moreover have "distinct (sort (filter (\<lambda>h. probe h 9100) ?found) @ sort (filter (\<lambda>h. \<not> probe h 9100) ?found))"
      using assms(1) by (simp add: disjoint_iff)
    ultimately show ?thesis by (simp only: expectedDevices_def Let_def distinct_map)
  qed
  ultimately have m: "mset (map ?f ds) = mset ?es" by (simp only: set_eq_iff_mset_eq_distinct)
  have inj: "inj_on ?key (set (map ?f ds))"
    using d(1) by (auto simp: inj_on_def distinct_map)
  have "map ?key ?es = map (Pair False) (sort (filter (\<lambda>h. probe h 9100) ?found)) @
      map (Pair True) (sort (filter (\<lambda>h. \<not> probe h 9100) ?found))"
    by (simp add: expectedDevices_def Let_def expectedDevice_def)
  moreover have "sorted (map (Pair b) (sort hs))" for b :: bool and hs :: "string list"
    using sorted_sort [of hs] by (simp add: sorted_map)
  ultimately have "sorted (map ?key ?es)" by (auto simp: sorted_append)
  with m inj show ?thesis unfolding devicesOf_def by (intro sort_key_inj_key_eq)
qed

lemma sweep_shrinks: "scan_step probe s s' \<Longrightarrow> size (fst s') \<le> size (fst s)"
  by (induction rule: scan_step.induct) (simp_all add: size_Diff_submset)

lemma sweep_todo: "(scan_step probe)\<^sup>*\<^sup>* s s' \<Longrightarrow> size (fst s') \<le> size (fst s)"
  by (induction rule: rtranclp_induct) (auto dest: sweep_shrinks)

lemma sweep_counts: "\<exists>ds'. (scan_step probe ^^ size todo) (todo, ds, c) ({#}, ds', c)"
proof (induction todo arbitrary: ds)
  case (add x todo)
  obtain h p where x: "x = (h, p)" by (cases x)
  obtain ds1 where one: "scan_step probe (add_mset x todo, ds, c) (todo, ds1, c)"
    using scan_hit [of h p "add_mset x todo" probe ds c] scan_miss [of h p "add_mset x todo" probe ds c]
    by (cases "probe h p") (auto simp: x)
  obtain ds' where "(scan_step probe ^^ size todo) (todo, ds1, c) ({#}, ds', c)" using add by blast
  with one have "(scan_step probe ^^ Suc (size todo)) (add_mset x todo, ds, c) ({#}, ds', c)"
    by (rule relpowp_Suc_I2)
  then show ?case by auto
qed auto


definition demoProbe :: "string \<Rightarrow> int \<Rightarrow> bool" where
  "demoProbe h p \<longleftrightarrow> h = ''10.0.0.9'' \<and> p \<noteq> 515"


section \<open>The addresses tried\<close>

lemma splitAt_join: "c \<notin> set x \<Longrightarrow> splitAt c (x @ c # y) = x # splitAt c y"
  by (induction x) auto

lemma splitAt_single: "c \<notin> set x \<Longrightarrow> splitAt c x = [x]"
  by (induction x) auto

lemma dotted_parts:
  "splitAt (CHR ''.'') (dotted (a, b, c, d)) = map (\<lambda>x. ntoa (unat x)) [a, b, c, d]"
proof -
  have "CHR ''.'' \<notin> set (ntoa n)" for n
    using ntoa_digits [of n] by (auto simp: list_all_iff is_digit_def)
  then show ?thesis by (simp add: dotted_def splitAt_join splitAt_single)
qed

lemma dotted_inj: "dotted x = dotted y \<Longrightarrow> x = y"
proof -
  assume eq: "dotted x = dotted y"
  obtain a b c d where x: "x = (a, b, c, d)" by (cases x)
  obtain a' b' c' d' where y: "y = (a', b', c', d')" by (cases y)
  have "ntoa (unat u) = ntoa (unat v) \<Longrightarrow> u = v" for u v :: "8 word"
    by (metis digits_val_ntoa word_unat_eq_iff)
  moreover have "map (\<lambda>u. ntoa (unat u)) [a, b, c, d] = map (\<lambda>u. ntoa (unat u)) [a', b', c', d']"
    using eq x y dotted_parts by metis
  ultimately show ?thesis by (simp add: x y)
qed

lemma foldl_addHost:
  "set (foldl (addHost own) hosts hs) = set hosts \<union> (set hs - {own})"
  "distinct hosts \<Longrightarrow> distinct (foldl (addHost own) hosts hs)"
  by (induction hs arbitrary: hosts) (auto simp: addHost_def)

text \<open>The address swept by one interface address.\<close>

definition swept :: "ifaceAddr \<Rightarrow> string set" where
  "swept addr = (case iaIP4 addr of None \<Rightarrow> {} | Some (a, b, c, d) \<Rightarrow>
     if iaIsNet addr \<and> isPrivate (a, b, c, d) \<and> iaBits addr = 32 \<and> 24 \<le> iaOnes addr
     then (\<lambda>i. dotted (a, b, c, i)) ` ({i. 1 \<le> unat i \<and> unat i \<le> 254} - {d}) else {})"

lemma subnet_words: "(\<lambda>i::nat. of_nat i :: 8 word) ` {1..<255} = {i. 1 \<le> unat i \<and> unat i \<le> 254}"
proof (intro equalityI subsetI)
  fix w :: "8 word"
  assume "w \<in> (\<lambda>i::nat. of_nat i) ` {1..<255}"
  then obtain i :: nat where i: "w = of_nat i" "1 \<le> i" "i < 255" by auto
  then have "unat w = i" by (simp add: unat_of_nat)
  with i show "w \<in> {i. 1 \<le> unat i \<and> unat i \<le> 254}" by simp
next
  fix w :: "8 word"
  assume "w \<in> {i. 1 \<le> unat i \<and> unat i \<le> 254}"
  then have "unat w \<in> {1..<255}" by simp
  moreover have "w = of_nat (unat w)" by simp
  ultimately show "w \<in> (\<lambda>i::nat. of_nat i) ` {1..<255}" by (rule rev_image_eqI)
qed

lemma mask24: "24 \<le> ones \<Longrightarrow> ipMask ones (a, b, c, d) = (a, b, c, d AND maskByte ones 3)"
proof -
  assume "24 \<le> ones"
  then have "maskByte ones 0 = - 1" "maskByte ones 1 = - 1" "maskByte ones 2 = - 1"
    by (simp_all add: maskByte_def)
  then show ?thesis by (simp add: ipMask_def)
qed

lemma sweepAddr_set: "set (sweepAddr hosts addr) = set hosts \<union> swept addr"
  "distinct hosts \<Longrightarrow> distinct (sweepAddr hosts addr)"
proof -
  show "distinct hosts \<Longrightarrow> distinct (sweepAddr hosts addr)"
    by (auto simp: sweepAddr_def foldl_addHost split: option.split)
  show "set (sweepAddr hosts addr) = set hosts \<union> swept addr"
  proof (cases "iaIP4 addr")
    case (Some ip)
    obtain a b c d where ip: "ip = (a, b, c, d)" by (cases ip)
    show ?thesis
    proof (cases "iaIsNet addr \<and> isPrivate ip \<and> iaBits addr = 32 \<and> 24 \<le> iaOnes addr")
      case True
      have "set (subnetHosts (iaOnes addr) ip) = (\<lambda>i. dotted (a, b, c, i)) ` (\<lambda>i::nat. of_nat i :: 8 word) ` {1..<255}"
        using True by (simp add: subnetHosts_def ip mask24 image_image)
      also have "\<dots> = (\<lambda>i. dotted (a, b, c, i)) ` {i. 1 \<le> unat i \<and> unat i \<le> 254}"
        by (simp only: subnet_words)
      finally have all: "set (subnetHosts (iaOnes addr) ip) = (\<lambda>i. dotted (a, b, c, i)) ` {i. 1 \<le> unat i \<and> unat i \<le> 254}" .
      have "set (subnetHosts (iaOnes addr) ip) - {dotted ip} = swept addr"
        unfolding all using True by (auto simp: swept_def Some ip dest: dotted_inj)
      then show ?thesis using True by (simp add: sweepAddr_def Some foldl_addHost)
    next
      case False
      then have "swept addr = {}" by (auto simp: swept_def Some ip)
      moreover have "sweepAddr hosts addr = hosts" using False by (auto simp: sweepAddr_def Some)
      ultimately show ?thesis by simp
    qed
  qed (simp add: sweepAddr_def swept_def)
qed

lemma foldl_sweepAddr:
  "set (foldl sweepAddr hosts as) = set hosts \<union> (\<Union>a \<in> set as. swept a)"
  "distinct hosts \<Longrightarrow> distinct (foldl sweepAddr hosts as)"
  by (induction as arbitrary: hosts) (auto simp: sweepAddr_set)

definition ifaceHosts :: "iface \<Rightarrow> string set" where
  "ifaceHosts f = (case ifAddrs f of None \<Rightarrow> {} | Some as \<Rightarrow>
     if ifUp f \<and> \<not> ifLoopback f then \<Union> (swept ` set as) else {})"

lemma sweepIface_set: "set (sweepIface hosts f) = set hosts \<union> ifaceHosts f"
  "distinct hosts \<Longrightarrow> distinct (sweepIface hosts f)"
  by (auto simp: sweepIface_def ifaceHosts_def foldl_sweepAddr split: option.split)

text \<open>
  The addresses tried are distinct, and exactly those of the /24 of each private IPv4
  address, with a mask of at least 24 bits, of an interface that is up and not loopback:
  last byte 1 to 254, without the address itself. So a machine with an address of its own on
  two interfaces of one /24 does try its own addresses.
\<close>

theorem localHosts_exact:
  "\<exists>hs. localHosts (Some fs) = Some hs \<and> distinct hs \<and> set hs = \<Union> (ifaceHosts ` set fs)"
proof -
  have "set (foldl sweepIface hosts fs) = set hosts \<union> \<Union> (ifaceHosts ` set fs) \<and>
      (distinct hosts \<longrightarrow> distinct (foldl sweepIface hosts fs))" for hosts
    by (induction fs arbitrary: hosts) (auto simp: sweepIface_set)
  then show ?thesis by (auto simp: localHosts_def)
qed

section \<open>What a scan finds\<close>

lemma sort_filter_set:
  "distinct hs \<Longrightarrow> sort (filter P hs) = sorted_list_of_set {h \<in> set hs. P h}"
proof -
  assume "distinct hs"
  then have "sorted (sort (filter P hs))" "distinct (sort (filter P hs))" by simp_all
  then have "sorted_list_of_set (set (sort (filter P hs))) = sort (filter P hs)"
    by (rule sorted_list_of_set.idem_if_sorted_distinct)
  moreover have "set (sort (filter P hs)) = {h \<in> set hs. P h}" by simp
  ultimately show ?thesis by (simp only:)
qed

text \<open>
  C35. A scan finds the printers of the local networks. If the interfaces cannot be listed it
  fails. Otherwise, whatever order the probes finish in, a scan that ends before its deadline
  returns one device for each address that answers on a printer port among those it has to
  try: of each /24 of a private IPv4 address, on an interface that is up and not loopback, the
  last bytes 1 to 254 without the address itself. Each device has its open ports in ascending
  order and is marked likely exactly when 9100 is open; the likely ones come first, each group
  by address. A scan always has an outcome.
\<close>

theorem Scan_exact:
  "(\<exists>found. scan_outcome probe ifaces False found) \<and>
   (scan_outcome probe ifaces False found \<longrightarrow>
     found = map_option (\<lambda>fs. let H = {h \<in> \<Union> (ifaceHosts ` set fs). list_ex (probe h) printerPorts} in
       map (expectedDevice probe) (sorted_list_of_set {h \<in> H. probe h 9100} @ sorted_list_of_set {h \<in> H. \<not> probe h 9100}))
       ifaces)"
proof (cases ifaces)
  case None
  then have "localHosts ifaces = None" by (simp add: localHosts_def)
  then show ?thesis using scan_no_interfaces [of ifaces probe False] None by (auto elim: scan_outcomeE)
next
  case (Some fs)
  obtain hs where hs: "localHosts ifaces = Some hs" "distinct hs" "set hs = \<Union> (ifaceHosts ` set fs)"
    using localHosts_exact [of fs] Some by blast
  obtain ds where "(scan_step probe)\<^sup>*\<^sup>* (sweepStart hs) ({#}, ds, False)"
    using sweep_counts relpowp_imp_rtranclp unfolding sweepStart_def by metis
  with hs(1) have ex: "\<exists>found. scan_outcome probe ifaces False found" by (blast intro: scan_done)
  let ?H = "{h \<in> \<Union> (ifaceHosts ` set fs). list_ex (probe h) printerPorts}"
  have "expectedDevices probe hs = map (expectedDevice probe)
      (sorted_list_of_set {h \<in> ?H. probe h 9100} @ sorted_list_of_set {h \<in> ?H. \<not> probe h 9100})"
    unfolding expectedDevices_def Let_def using hs(2) by (simp add: sort_filter_set hs(3) Collect_conj_eq Int_assoc)
  then have "found = Some (map (expectedDevice probe)
      (sorted_list_of_set {h \<in> ?H. probe h 9100} @ sorted_list_of_set {h \<in> ?H. \<not> probe h 9100}))"
    if "scan_outcome probe ifaces False found" for found
    using that hs(1) sweep_exact [OF hs(2), of probe] by (auto elim!: scan_outcomeE)
  with ex Some show ?thesis by (simp add: Let_def)
qed

text \<open>A till at 10.0.0.8 and the printer of \<open>demoProbe\<close>.\<close>

definition demoIface :: iface where
  "demoIface = \<lparr>ifUp = True, ifLoopback = False, ifAddrs = Some [\<lparr>iaIsNet = True, iaIP4 = Some (10, 0, 0, 8), iaOnes = 24, iaBits = 32\<rparr>]\<rparr>"

theorem Scan_exact_witness:
  "\<exists>found. scan_outcome demoProbe (Some [demoIface]) False found \<and>
     found = Some [\<lparr>dvIP = ''10.0.0.9'', dvPorts = [631, 9100], dvLikely = True\<rparr>]"
proof -
  have dotted: "dotted (10, 0, 0, 9) = ''10.0.0.9''" by code_simp
  have "dotted (10, 0, 0, 9) \<in> ifaceHosts demoIface"
    by (simp add: ifaceHosts_def demoIface_def swept_def isPrivate_def)
  then have H: "{h \<in> \<Union> (ifaceHosts ` set [demoIface]). list_ex (demoProbe h) printerPorts} = {''10.0.0.9''}"
    unfolding dotted by (auto simp: demoProbe_def printerPorts_def)
  have likely: "{h \<in> {''10.0.0.9''}. demoProbe h 9100} = {''10.0.0.9''}"
    "{h \<in> {''10.0.0.9''}. \<not> demoProbe h 9100} = {}" by (auto simp: demoProbe_def)
  have "expectedDevice demoProbe ''10.0.0.9'' = \<lparr>dvIP = ''10.0.0.9'', dvPorts = [631, 9100], dvLikely = True\<rparr>"
    by (simp add: expectedDevice_def demoProbe_def)
  with Scan_exact [of demoProbe "Some [demoIface]"] show ?thesis
    by (simp only: H likely Let_def option.map sorted_list_of_set_empty) force
qed

end
