(* ===== verification/Export.thy ===== *)
theory Export
  imports GoText Search Calendar
begin

text \<open>
  \<^verbatim>\<open>internal/web/export.go\<close>: the tables a shop downloads and their CSV form. The table of
  the sales ledger and of the activity log is built once (\<open>salesTable\<close>, \<open>auditTable\<close>) and rendered
  three ways; this theory holds the table and the CSV, \<open>Xlsx\<close> and \<open>Pdf\<close> the other two. \<open>csvLine\<close>
  is \<^verbatim>\<open>encoding/csv\<close>'s writer. The system's zone is the parameter \<open>loc\<close> (the offset at an
  instant), RFC 3339 parsing the parameter \<open>rfc3339\<close>.
\<close>

section \<open>Cells\<close>

record exportTable =
  etTitle :: string
  etBase :: string
  etHeaders :: "string list"
  etNumeric :: "bool list"
  etRows :: "string list list"

definition itemsSummary :: "SaleItem list \<Rightarrow> string" where
  "itemsSummary items = joinWith ''; '' (map (\<lambda>it. itName it @ '' x'' @ itoa (itQty it)) items)"

definition paymentLabel :: "string \<Rightarrow> string" where
  "paymentLabel payMethod =
     (if payMethod = PaymentMpesa then ''M-Pesa''
      else if payMethod = PaymentCash \<or> payMethod = '''' then ''Cash'' else payMethod)"

definition exportCents :: "int \<Rightarrow> string" where
  "exportCents cents =
     (let neg = cents < 0; c = (if neg then wrap64 (- cents) else cents);
          s = itoa (c sdiv 100) @ ''.'' @ pad02 (c smod 100)
      in if neg then ''-'' @ s else s)"

definition csvSafe :: "string \<Rightarrow> string" where
  "csvSafe v = (case v of [] \<Rightarrow> v
     | c # _ \<Rightarrow> if c \<in> set ''=+-@'' then CHR 0x27 # v else v)"

section \<open>Tables\<close>

definition isNumericCol :: "bool list \<Rightarrow> nat \<Rightarrow> bool" where
  "isNumericCol numeric c \<longleftrightarrow> c < length numeric \<and> numeric ! c"

text \<open>\<^verbatim>\<open>t.Local()\<close> shows the same instant in the system's zone.\<close>

definition toLocal :: "(int \<Rightarrow> int) \<Rightarrow> gotime \<Rightarrow> gotime" where
  "toLocal loc t = t\<lparr>offset := loc (instant t)\<rparr>"

definition saleRow :: "(int \<Rightarrow> int) \<Rightarrow> Sale \<Rightarrow> string list" where
  "saleRow loc s = (let st = toLocal loc (saCreatedAt s) in
     [formatDate st, formatClock st, itemsSummary (saItems s), exportCents (saSubtotalCents s),
      exportCents (saTaxCents s), exportCents (saTotalCents s), paymentLabel (saPaymentMethod s), saReference s])"

definition ledger :: "gotime \<Rightarrow> gotime \<Rightarrow> db \<Rightarrow> err + Sale list" where
  "ledger from to D =
     rbind (SalesSince from D) (\<lambda>sales. Inr
       (sort_key (\<lambda>s. instant (saCreatedAt s))
         (filter (\<lambda>s. tIsZero to \<or> tBefore (saCreatedAt s) to) sales)))"

definition salesTable :: "(int \<Rightarrow> int) \<Rightarrow> Sale list \<Rightarrow> exportTable" where
  "salesTable loc rows = \<lparr>etTitle = ''Transactions'', etBase = ''transactions'',
     etHeaders = [''Date'', ''Time'', ''Items'', ''Subtotal'', ''Tax'', ''Total'', ''Payment'', ''Reference''],
     etNumeric = [False, False, False, True, True, True, False, False], etRows = map (saleRow loc) rows\<rparr>"

definition auditRow :: "(int \<Rightarrow> int) \<Rightarrow> AuditEntry \<Rightarrow> string list" where
  "auditRow loc e = (let et = toLocal loc (auAt e) in
     [formatDate et, formatClock et, auAction e, auDetail e])"

definition auditTable :: "(int \<Rightarrow> int) \<Rightarrow> AuditEntry list \<Rightarrow> exportTable" where
  "auditTable loc entries = \<lparr>etTitle = ''Activity log'', etBase = ''activity-log'',
     etHeaders = [''Date'', ''Time'', ''Action'', ''Detail''],
     etNumeric = [False, False, False, False], etRows = map (auditRow loc) entries\<rparr>"

section \<open>Dates of a request\<close>

text \<open>\<open>parseSearchTime\<close> of \<^verbatim>\<open>search.go\<close>: a timestamp, or a plain date whose end bound is the next
  midnight.\<close>

definition parseSearchTime :: "(string \<Rightarrow> gotime option) \<Rightarrow> string \<Rightarrow> bool \<Rightarrow> gotime option" where
  "parseSearchTime rfc3339 v endOfDay =
     (if v = '''' then None
      else case rfc3339 v of
        Some t \<Rightarrow> Some t
      | None \<Rightarrow> (case parseDate v of
          Some d \<Rightarrow> Some (if endOfDay then addDays 1 d else d)
        | None \<Rightarrow> None))"

definition orZero :: "gotime option \<Rightarrow> gotime" where
  "orZero t = (case t of Some x \<Rightarrow> x | None \<Rightarrow> zeroTime)"

definition exportRange :: "(string \<Rightarrow> gotime option) \<Rightarrow> string \<Rightarrow> string \<Rightarrow> gotime \<times> gotime" where
  "exportRange rfc3339 fromText toText =
     (orZero (parseSearchTime rfc3339 fromText False), orZero (parseSearchTime rfc3339 toText True))"

section \<open>CSV\<close>

text \<open>\<^verbatim>\<open>csv.Writer\<close>: a field is quoted when it is \<open>\.\<close>, holds a comma, a quote or a line break, or
  starts with a space; quotes inside are doubled.\<close>

definition csvQuoted :: "string \<Rightarrow> bool" where
  "csvQuoted f \<longleftrightarrow> f \<noteq> [] \<and>
     (f = [CHR 0x5C, CHR ''.''] \<or> list_ex (\<lambda>c. c \<in> {CHR '','', CHR 0x22, CHR 0x0D, CHR 0x0A}) f \<or>
      list_ex (\<lambda>w. startsWith w f) utf8Spaces)"

definition csvField :: "string \<Rightarrow> string" where
  "csvField f =
     (if csvQuoted f
      then [CHR 0x22] @ concat (map (\<lambda>c. if c = CHR 0x22 then [CHR 0x22, CHR 0x22] else [c]) f) @ [CHR 0x22]
      else f)"

definition csvLine :: "string list \<Rightarrow> string" where
  "csvLine fs = joinWith '','' (map csvField fs) @ [CHR 0x0A]"

definition csvRow :: "bool list \<Rightarrow> string list \<Rightarrow> string list" where
  "csvRow numeric row =
     map (\<lambda>(i, v). if isNumericCol numeric i then v else csvSafe v) (zip [0..<length row] row)"

definition writeCSV :: "exportTable \<Rightarrow> string" where
  "writeCSV t = csvLine (etHeaders t) @ concat (map (\<lambda>r. csvLine (csvRow (etNumeric t) r)) (etRows t))"

section \<open>The file reads back\<close>

text \<open>A reader of RFC 4180, as a spreadsheet has: the cells of each record.\<close>

datatype csvMode = FieldStart | Plain | Quoted | QuoteSeen

fun readCSV :: "csvMode \<Rightarrow> string \<Rightarrow> string list \<Rightarrow> string \<Rightarrow> string list list" where
  "readCSV m f r [] = (if m = FieldStart \<and> r = [] then [] else [r @ [f]])"
| "readCSV m f r (c # cs) =
     (if m = Quoted then (if c = CHR 0x22 then readCSV QuoteSeen f r cs else readCSV Quoted (f @ [c]) r cs)
      else if c = CHR '','' then readCSV FieldStart [] (r @ [f]) cs
      else if c = CHR 0x0A then (r @ [f]) # readCSV FieldStart [] [] cs
      else if c = CHR 0x22 \<and> m = FieldStart then readCSV Quoted f r cs
      else if c = CHR 0x22 \<and> m = QuoteSeen then readCSV Quoted (f @ [c]) r cs
      else readCSV Plain (f @ [c]) r cs)"

lemma readCSV_quoted:
  "readCSV Quoted g r (concat (map (\<lambda>c. if c = CHR 0x22 then [CHR 0x22, CHR 0x22] else [c]) f) @ CHR 0x22 # cs) =
     readCSV QuoteSeen (g @ f) r cs"
  by (induction f arbitrary: g) auto

lemma readCSV_plain:
  assumes "list_all (\<lambda>c. c \<notin> {CHR '','', CHR 0x22, CHR 0x0D, CHR 0x0A}) f" and "m \<in> {FieldStart, Plain}"
  shows "readCSV m g r (f @ cs) = readCSV (if f = [] then m else Plain) (g @ f) r cs"
  using assms
proof (induction f arbitrary: g m)
  case (Cons c f)
  then have "readCSV m g r ((c # f) @ cs) = readCSV Plain (g @ [c]) r (f @ cs)" by auto
  also have "\<dots> = readCSV (if f = [] then Plain else Plain) ((g @ [c]) @ f) r cs"
    using Cons.prems by (intro Cons.IH) auto
  finally show ?case by simp
qed simp

lemma readCSV_field:
  shows "readCSV FieldStart [] r (csvField f @ CHR '','' # cs) = readCSV FieldStart [] (r @ [f]) cs"
    and "readCSV FieldStart [] r (csvField f @ CHR 0x0A # cs) = (r @ [f]) # readCSV FieldStart [] [] cs"
proof -
  have "readCSV FieldStart [] r (csvField f @ c # cs) =
      readCSV (if csvQuoted f then QuoteSeen else if f = [] then FieldStart else Plain) f r (c # cs)" for c
  proof (cases "csvQuoted f")
    case True
    then show ?thesis by (simp add: csvField_def readCSV_quoted)
  next
    case False
    then have "list_all (\<lambda>c. c \<notin> {CHR '','', CHR 0x22, CHR 0x0D, CHR 0x0A}) f"
      by (auto simp: csvQuoted_def list_all_iff list_ex_iff)
    from readCSV_plain [OF this, of FieldStart "[]" r "c # cs"] False show ?thesis
      by (simp add: csvField_def)
  qed
  then show "readCSV FieldStart [] r (csvField f @ CHR '','' # cs) = readCSV FieldStart [] (r @ [f]) cs"
    and "readCSV FieldStart [] r (csvField f @ CHR 0x0A # cs) = (r @ [f]) # readCSV FieldStart [] [] cs"
    by simp_all
qed

lemma readCSV_line:
  "fs \<noteq> [] \<Longrightarrow> readCSV FieldStart [] r (csvLine fs @ cs) = (r @ fs) # readCSV FieldStart [] [] cs"
proof (induction fs arbitrary: r)
  case (Cons f fs)
  show ?case
  proof (cases fs)
    case Nil
    then show ?thesis by (simp add: csvLine_def readCSV_field)
  next
    case (Cons g gs)
    then have "csvLine (f # fs) = csvField f @ CHR '','' # csvLine fs" by (simp add: csvLine_def)
    then show ?thesis using Cons.IH [of "r @ [f]"] Cons by (simp add: readCSV_field)
  qed
qed simp

lemma readCSV_lines:
  "list_all (\<lambda>r. r \<noteq> []) rs \<Longrightarrow> readCSV FieldStart [] [] (concat (map csvLine rs)) = rs"
  by (induction rs) (simp_all add: readCSV_line)

lemma csvSafe_props:
  "csvSafe v \<in> {v, CHR 0x27 # v} \<and> (csvSafe v = [] \<or> hd (csvSafe v) \<notin> set ''=+-@'')"
  by (cases v) (simp_all add: csvSafe_def)

lemma length_csvRow [simp]: "length (csvRow ns r) = length r"
  by (simp add: csvRow_def)

lemma csvRow_nth:
  "i < length r \<Longrightarrow> csvRow ns r ! i = (if isNumericCol ns i then r ! i else csvSafe (r ! i))"
  by (simp add: csvRow_def)

text \<open>
  C32. The CSV export reads back and cannot carry a formula. Whatever the item names, notes and
  references hold (commas, quotes, line breaks), a reader gets the headings and then, row
  by row, the cells of the table: a money cell as it is, a text cell as it is or with one
  apostrophe in front, and no text cell starts with a character a spreadsheet takes for a
  formula.
\<close>

theorem csv_reads_back:
  assumes "etHeaders t \<noteq> []" and "list_all (\<lambda>r. r \<noteq> []) (etRows t)"
  shows "\<exists>rows. readCSV FieldStart [] [] (writeCSV t) = etHeaders t # rows \<and> length rows = length (etRows t) \<and>
     (\<forall>k < length rows. length (rows ! k) = length (etRows t ! k) \<and>
        (\<forall>i < length (rows ! k).
           if isNumericCol (etNumeric t) i then rows ! k ! i = etRows t ! k ! i
           else rows ! k ! i \<in> {etRows t ! k ! i, CHR 0x27 # etRows t ! k ! i} \<and>
                (rows ! k ! i = [] \<or> hd (rows ! k ! i) \<notin> set ''=+-@'')))"
proof -
  let ?rows = "map (csvRow (etNumeric t)) (etRows t)"
  have "csvRow ns r = [] \<longleftrightarrow> r = []" for ns r by (metis length_0_conv length_csvRow)
  then have "list_all (\<lambda>r. r \<noteq> []) ?rows" using assms(2) by (simp add: list_all_iff)
  then have "readCSV FieldStart [] [] (writeCSV t) = etHeaders t # ?rows"
    using assms(1) readCSV_lines [of ?rows] by (simp add: writeCSV_def readCSV_line o_def)
  then show ?thesis using csvSafe_props
    by (intro exI [of _ ?rows] conjI allI impI) (simp_all add: csvRow_nth del: insert_iff)
qed

theorem csv_reads_back_witness:
  "\<exists>rows. readCSV FieldStart [] [] (writeCSV (salesTable (\<lambda>_. 0) [demoRow])) = etHeaders (salesTable (\<lambda>_. 0) [demoRow]) # rows \<and>
     length rows = 1"
proof -
  have "etHeaders (salesTable (\<lambda>_. 0) [demoRow]) \<noteq> []" by (simp add: salesTable_def)
  moreover have "list_all (\<lambda>r. r \<noteq> []) (etRows (salesTable (\<lambda>_. 0) [demoRow]))"
    by (simp add: salesTable_def saleRow_def Let_def)
  ultimately obtain rows where "readCSV FieldStart [] [] (writeCSV (salesTable (\<lambda>_. 0) [demoRow])) =
      etHeaders (salesTable (\<lambda>_. 0) [demoRow]) # rows" "length rows = length (etRows (salesTable (\<lambda>_. 0) [demoRow]))"
    using csv_reads_back by blast
  moreover have "length (etRows (salesTable (\<lambda>_. 0) [demoRow])) = 1" by (simp add: salesTable_def)
  ultimately show ?thesis by (intro exI [of _ rows]) (simp only:)
qed

text \<open>The export's own copy of the money text is the store's.\<close>

lemma exportCents_eq: "exportCents = decimalCents"
  by (simp add: fun_eq_iff exportCents_def decimalCents_def)

section \<open>The ledger\<close>

text \<open>
  The exported ledger is the shop's books: exactly the stored sales made at or after the
  start and before the end (a bound left out, or one that does not parse, is open), each
  once, oldest first; and a plain end date covers its whole day, so a range of one date is
  the sales of that day in UTC.
\<close>

theorem ledger_exact:
  assumes "sales_inv D" and "rfc3339 d = None" and "parseDate d = Some t"
  shows "\<exists>ss. ledger from to D = Inr ss \<and>
     set ss = {s. \<exists>i. bGet (bSales D) i = Some (Json s) \<and> instant from \<le> instant (saCreatedAt s) \<and>
                     (tIsZero to \<or> instant (saCreatedAt s) < instant to)} \<and>
     distinct (map saID ss) \<and> sorted (map (\<lambda>s. instant (saCreatedAt s)) ss) \<and>
     exportRange rfc3339 d d = (t, addDays 1 t)"
proof -
  have b: "readable (bSales D)" "bsorted (bSales D)" "keyed saID (bSales D)"
    using assms(1) by (simp_all add: sales_inv_def table_inv_def)
  let ?P = "\<lambda>s. tIsZero to \<or> tBefore (saCreatedAt s) to"
  let ?since = "newestFirst (filter (\<lambda>s. \<not> tBefore (saCreatedAt s) from) (cellVals (bSales D)))"
  let ?ss = "sort_key (\<lambda>s. instant (saCreatedAt s)) (filter ?P ?since)"
  have run: "ledger from to D = Inr ?ss" using b(1) by (simp add: ledger_def SalesSince_def)
  have "distinct (map saID ?since)"
    using distinct_map_filter [OF distinct_keys_cellVals [OF b]]
    by (metis newestFirst_props(2) mset_map mset_eq_imp_distinct_iff)
  then have "distinct (map saID (filter ?P ?since))" by (rule distinct_map_filter)
  moreover have "mset (map saID ?ss) = mset (map saID (filter ?P ?since))" by simp
  ultimately have "distinct (map saID ?ss)" by (metis mset_eq_imp_distinct_iff)
  moreover have "set ?ss = {s. \<exists>i. bGet (bSales D) i = Some (Json s) \<and> instant from \<le> instant (saCreatedAt s) \<and>
                     (tIsZero to \<or> instant (saCreatedAt s) < instant to)}"
    by (auto simp: set_cellVals bGet_iff [OF b(2)] tBefore_def not_less newestFirst_def)
  moreover have "exportRange rfc3339 d d = (t, addDays 1 t)"
  proof -
    have "d \<noteq> ''''" using assms(3) by (auto simp: parseDate_def)
    then show ?thesis by (simp add: exportRange_def parseSearchTime_def orZero_def assms(2,3))
  qed
  ultimately show ?thesis using run sorted_sort_key by blast
qed

text \<open>The shop's one sale, exported for a day: the demo shop's clock starts on the first day of year 1.\<close>

definition firstDay :: gotime where
  "firstDay = \<lparr>instant = 0, offset = 0\<rparr>"

lemma parseDate_firstDay: "parseDate (dateText 0) = Some firstDay"
  using parseDate_day [of 0] by (simp add: firstDay_def)

theorem ledger_exact_witness:
  "\<exists>ss. ledger firstDay (addDays 1 firstDay) demoSold = Inr ss \<and> set ss = {demoRow} \<and>
     exportRange (\<lambda>_. None) (dateText 0) (dateText 0) = (firstDay, addDays 1 firstDay)"
proof -
  obtain ss where "ledger firstDay (addDays 1 firstDay) demoSold = Inr ss"
    and s: "set ss = {s. \<exists>i. bGet (bSales demoSold) i = Some (Json s) \<and> instant firstDay \<le> instant (saCreatedAt s) \<and>
                     (tIsZero (addDays 1 firstDay) \<or> instant (saCreatedAt s) < instant (addDays 1 firstDay))}"
    and "exportRange (\<lambda>_. None) (dateText 0) (dateText 0) = (firstDay, addDays 1 firstDay)"
    using ledger_exact [OF demoSold_inv _ parseDate_firstDay, of "\<lambda>_. None"] by blast
  moreover have "set ss = {demoRow}"
    unfolding s by (auto simp: firstDay_def demoTime_def addDays_def)
  ultimately show ?thesis by blast
qed

end
