(* ===== verification/Xlsx.thy ===== *)
theory Xlsx
  imports Export
begin

text \<open>
  \<^verbatim>\<open>internal/web/xlsx.go\<close>: an export table as a workbook. A workbook is a zip of five XML parts;
  the zip writer is the parameter \<open>zipWriter\<close>, the parts are \<open>xlsxParts\<close>. Ranging over a Go string
  decodes UTF-8: \<open>mapRunes\<close> handles an ASCII byte by itself, copies a well-formed longer
  sequence and puts U+FFFD for a byte that begins none. The double quotes of the XML are
  written as backquotes and turned by \<open>dq\<close>.
\<close>

section \<open>Runes\<close>

definition inRange :: "nat \<Rightarrow> nat \<Rightarrow> char \<Rightarrow> bool" where
  "inRange lo hi c \<longleftrightarrow> lo \<le> of_char c \<and> of_char c \<le> hi"

definition contByte :: "char \<Rightarrow> bool" where
  "contByte = inRange 0x80 0xBF"

text \<open>The second byte allowed after a first byte of a sequence of three or four.\<close>

definition secondByte :: "char \<Rightarrow> char \<Rightarrow> bool" where
  "secondByte a b \<longleftrightarrow>
     inRange (if a = CHR 0xE0 then 0xA0 else if a = CHR 0xF0 then 0x90 else 0x80)
             (if a = CHR 0xED then 0x9F else if a = CHR 0xF4 then 0x8F else 0xBF) b"

text \<open>The length of the UTF-8 sequence a string starts with; 0 for an invalid one.\<close>

fun runeLen :: "string \<Rightarrow> nat" where
  "runeLen [] = 0"
| "runeLen (a # s) =
     (if inRange 0x00 0x7F a then 1
      else (case s of [] \<Rightarrow> 0 | b # s' \<Rightarrow>
        if inRange 0xC2 0xDF a then (if contByte b then 2 else 0)
        else (case s' of [] \<Rightarrow> 0 | c # s'' \<Rightarrow>
          if inRange 0xE0 0xEF a then (if secondByte a b \<and> contByte c then 3 else 0)
          else (case s'' of [] \<Rightarrow> 0 | d # _ \<Rightarrow>
            if inRange 0xF0 0xF4 a \<and> secondByte a b \<and> contByte c \<and> contByte d then 4 else 0))))"

declare runeLen.simps [simp del]

definition replacement :: string where
  "replacement = map char_of [0xEF, 0xBF, 0xBD :: nat]"

function mapRunes :: "(char \<Rightarrow> string) \<Rightarrow> string \<Rightarrow> string" where
  "mapRunes f s = (case s of [] \<Rightarrow> [] | a # rest \<Rightarrow>
     if runeLen s = 0 then replacement @ mapRunes f rest
     else if runeLen s = 1 then f a @ mapRunes f rest
     else take (runeLen s) s @ mapRunes f (drop (runeLen s) s))"
  by pat_completeness auto
termination by (relation "measure (\<lambda>(f, s). length s)") auto

declare mapRunes.simps [simp del]

section \<open>Cells\<close>

definition dq :: "string \<Rightarrow> string" where
  "dq s = map (\<lambda>c. if c = CHR 0x60 then CHR 0x22 else c) s"

definition xmlChar :: "char \<Rightarrow> string" where
  "xmlChar c =
     (if c = CHR ''&'' then ''&amp;'' else if c = CHR ''<'' then ''&lt;'' else if c = CHR ''>'' then ''&gt;''
      else if c = CHR 0x22 then ''&quot;'' else if c = CHR 0x27 then ''&apos;''
      else if c = CHR 0x09 \<or> c = CHR 0x0A \<or> c = CHR 0x0D then [c]
      else if of_char c < (0x20 :: nat) then [] else [c])"

definition xmlEscape :: "string \<Rightarrow> string" where
  "xmlEscape = mapRunes xmlChar"

function colLoop :: "int \<Rightarrow> string \<Rightarrow> string" where
  "colLoop i name =
     (if 0 \<le> i then colLoop (i sdiv 26 - 1) (char_of (nat (65 + i smod 26)) # name) else name)"
  by pat_completeness auto
termination by (relation "measure (\<lambda>(i, name). nat (i + 1))") (auto simp: sdiv_nonneg)

declare colLoop.simps [simp del]

definition colName :: "int \<Rightarrow> string" where
  "colName i = colLoop i ''''"

text \<open>The loop of \<open>isNumeric\<close> after the sign: whether the rest is digits with at most one dot, at
  least one digit overall.\<close>

fun numericLoop :: "bool \<Rightarrow> bool \<Rightarrow> string \<Rightarrow> bool" where
  "numericLoop digits dot [] = digits"
| "numericLoop digits dot (c # cs) =
     (if is_digit c then numericLoop True dot cs
      else if c = CHR ''.'' \<and> \<not> dot then numericLoop digits True cs
      else False)"

definition isNumeric :: "string \<Rightarrow> bool" where
  "isNumeric s = (case s of [] \<Rightarrow> False
     | c # cs \<Rightarrow> if c = CHR ''-'' then (if cs = [] then False else numericLoop False False cs)
                else numericLoop False False s)"

definition writeInlineCell :: "string \<Rightarrow> string \<Rightarrow> string" where
  "writeInlineCell ref txt =
     dq ''<c r=`'' @ ref @ dq ''` t=`inlineStr`><is><t xml:space=`preserve`>'' @ xmlEscape txt @ ''</t></is></c>''"

definition writeNumberCell :: "string \<Rightarrow> string \<Rightarrow> string" where
  "writeNumberCell ref v =
     (if \<not> isNumeric v then writeInlineCell ref v
      else dq ''<c r=`'' @ ref @ dq ''`><v>'' @ v @ ''</v></c>'')"

definition cellRef :: "nat \<Rightarrow> nat \<Rightarrow> string" where
  "cellRef c rn = colName (int c) @ itoa (int rn)"

section \<open>Parts\<close>

definition xmlHead :: string where
  "xmlHead = dq ''<?xml version=`1.0` encoding=`UTF-8` standalone=`yes`?>''"

definition headerRow :: "string list \<Rightarrow> string" where
  "headerRow hs = dq ''<row r=`1`>'' @
     concat (map (\<lambda>(c, h). writeInlineCell (colName (int c) @ ''1'') h) (zip [0..<length hs] hs)) @ ''</row>''"

definition dataRow :: "bool list \<Rightarrow> nat \<Rightarrow> string list \<Rightarrow> string" where
  "dataRow numeric i row = (let rn = i + 2 in
     dq ''<row r=`'' @ itoa (int rn) @ dq ''`>'' @
     concat (map (\<lambda>(c, cell). if isNumericCol numeric c then writeNumberCell (cellRef c rn) cell
                             else writeInlineCell (cellRef c rn) cell) (zip [0..<length row] row)) @ ''</row>'')"

definition sheetXML :: "exportTable \<Rightarrow> string" where
  "sheetXML t = xmlHead @
     dq ''<worksheet xmlns=`http://schemas.openxmlformats.org/spreadsheetml/2006/main`><sheetData>'' @
     headerRow (etHeaders t) @
     concat (map (\<lambda>(i, row). dataRow (etNumeric t) i row) (zip [0..<length (etRows t)] (etRows t))) @
     ''</sheetData></worksheet>''"

definition tabChar :: "char \<Rightarrow> string" where
  "tabChar c = (if c = CHR 0x5C \<or> c \<in> set ''/?*[]:'' then ''-'' else [c])"

definition sheetTab :: "string \<Rightarrow> string" where
  "sheetTab s =
     (let s1 = mapRunes tabChar s;
          s2 = (if length s1 > 31 then take 31 s1 else s1)
      in if s2 = '''' then ''Sheet1'' else s2)"

definition workbookXML :: "string \<Rightarrow> string" where
  "workbookXML sheetName = xmlHead @
     dq ''<workbook xmlns=`http://schemas.openxmlformats.org/spreadsheetml/2006/main` '' @
     dq ''xmlns:r=`http://schemas.openxmlformats.org/officeDocument/2006/relationships`>'' @
     dq ''<sheets><sheet name=`'' @ xmlEscape (sheetTab sheetName) @ dq ''` sheetId=`1` r:id=`rId1`/></sheets>'' @
     ''</workbook>''"

definition contentTypesXML :: string where
  "contentTypesXML = xmlHead @
     dq ''<Types xmlns=`http://schemas.openxmlformats.org/package/2006/content-types`>'' @
     dq ''<Default Extension=`rels` ContentType=`application/vnd.openxmlformats-package.relationships+xml`/>'' @
     dq ''<Default Extension=`xml` ContentType=`application/xml`/>'' @
     dq ''<Override PartName=`/xl/workbook.xml` ContentType=`application/vnd.openxmlformats-officedocument.spreadsheetml.sheet.main+xml`/>'' @
     dq ''<Override PartName=`/xl/worksheets/sheet1.xml` ContentType=`application/vnd.openxmlformats-officedocument.spreadsheetml.worksheet+xml`/>'' @
     ''</Types>''"

definition rootRelsXML :: string where
  "rootRelsXML = xmlHead @
     dq ''<Relationships xmlns=`http://schemas.openxmlformats.org/package/2006/relationships`>'' @
     dq ''<Relationship Id=`rId1` Type=`http://schemas.openxmlformats.org/officeDocument/2006/relationships/officeDocument` Target=`xl/workbook.xml`/>'' @
     ''</Relationships>''"

definition workbookRelsXML :: string where
  "workbookRelsXML = xmlHead @
     dq ''<Relationships xmlns=`http://schemas.openxmlformats.org/package/2006/relationships`>'' @
     dq ''<Relationship Id=`rId1` Type=`http://schemas.openxmlformats.org/officeDocument/2006/relationships/worksheet` Target=`worksheets/sheet1.xml`/>'' @
     ''</Relationships>''"

definition xlsxParts :: "exportTable \<Rightarrow> (string \<times> string) list" where
  "xlsxParts t = [(''[Content_Types].xml'', contentTypesXML), (''_rels/.rels'', rootRelsXML),
     (''xl/workbook.xml'', workbookXML (etTitle t)), (''xl/_rels/workbook.xml.rels'', workbookRelsXML),
     (''xl/worksheets/sheet1.xml'', sheetXML t)]"

definition writeXLSX :: "((string \<times> string) list \<Rightarrow> bytes) \<Rightarrow> exportTable \<Rightarrow> bytes" where
  "writeXLSX zipWriter t = zipWriter (xlsxParts t)"

section \<open>Runes kept\<close>

lemma runeLen_le: "runeLen s \<le> length s"
  by (induction s rule: runeLen.induct) (auto simp: runeLen.simps split: list.splits)

lemma runeLen_one: "runeLen (a # s) = 1 \<longleftrightarrow> of_char a < (128 :: nat)"
  by (auto simp: runeLen.simps inRange_def split: list.splits if_splits)

lemma high_bytes:
  "\<not> inRange 0 127 a \<Longrightarrow> 128 \<le> (of_char a :: nat)" "contByte a \<Longrightarrow> 128 \<le> (of_char a :: nat)"
  "secondByte a b \<Longrightarrow> 128 \<le> (of_char b :: nat)"
  by (auto simp: inRange_def contByte_def secondByte_def split: if_splits)

lemma runeLen_high: "runeLen s \<noteq> 1 \<Longrightarrow> c \<in> set (take (runeLen s) s) \<Longrightarrow> 128 \<le> (of_char c :: nat)"
  by (induction s rule: runeLen.induct)
    (auto simp: runeLen.simps intro: high_bytes split: list.splits if_splits)

lemma mapRunes_step:
  "mapRunes f [] = []"
  "of_char a < (128 :: nat) \<Longrightarrow> mapRunes f (a # s) = f a @ mapRunes f s"
  "runeLen (a # s) = 0 \<Longrightarrow> mapRunes f (a # s) = replacement @ mapRunes f s"
  "128 \<le> (of_char a :: nat) \<Longrightarrow> runeLen (a # s) \<noteq> 0 \<Longrightarrow>
     mapRunes f (a # s) = take (runeLen (a # s)) (a # s) @ mapRunes f (drop (runeLen (a # s)) (a # s))"
  using runeLen_one [of a s] by (subst mapRunes.simps, simp)+

text \<open>Induction over the runes of a string.\<close>

lemma rune_induct [case_names Nil ascii bad seq]:
  assumes "P []" and "\<And>a s. of_char a < (128 :: nat) \<Longrightarrow> P s \<Longrightarrow> P (a # s)"
    and "\<And>a s. runeLen (a # s) = 0 \<Longrightarrow> P s \<Longrightarrow> P (a # s)"
    and "\<And>a s. 128 \<le> (of_char a :: nat) \<Longrightarrow> runeLen (a # s) \<noteq> 0 \<Longrightarrow> P (drop (runeLen (a # s)) (a # s)) \<Longrightarrow> P (a # s)"
  shows "P s"
proof (induction s rule: length_induct)
  case (1 s)
  show ?case
  proof (cases s)
    case (Cons a t)
    then have "P t" using 1 by simp
    moreover have "runeLen s \<noteq> 0 \<Longrightarrow> P (drop (runeLen s) s)" using 1 Cons by simp
    ultimately consider "of_char a < (128 :: nat)" "P t" | "runeLen (a # t) = 0" "P t"
      | "128 \<le> (of_char a :: nat)" "runeLen (a # t) \<noteq> 0" "P (drop (runeLen (a # t)) (a # t))"
      unfolding Cons by linarith
    then show ?thesis unfolding Cons by cases (use assms(2-4) in blast)+
  qed (simp add: assms(1))
qed

lemma mapRunes_all:
  assumes "\<And>a. of_char a < (128 :: nat) \<Longrightarrow> list_all P (f a)" and "\<And>c. 128 \<le> (of_char c :: nat) \<Longrightarrow> P c"
  shows "list_all P (mapRunes f s)"
proof (induction s rule: rune_induct)
  case (seq a s)
  then have "runeLen (a # s) \<noteq> 1" using runeLen_one [of a s] by simp
  then have "list_all P (take (runeLen (a # s)) (a # s))"
    using runeLen_high [of "a # s"] assms(2) unfolding list_all_iff by blast
  with seq(3) show ?case by (simp only: mapRunes_step(4) [OF seq(1,2)] list_all_append simp_thms)
qed (use assms in \<open>simp_all add: mapRunes_step replacement_def\<close>)

section \<open>Text survives the markup\<close>

definition entities :: "(string \<times> char) list" where
  "entities = [(''&amp;'', CHR ''&''), (''&lt;'', CHR ''<''), (''&gt;'', CHR ''>''), (''&quot;'', CHR 0x22),
     (''&apos;'', CHR 0x27)]"

text \<open>What an XML reader makes of character data.\<close>

function xmlUnescape :: "string \<Rightarrow> string" where
  "xmlUnescape s = (case s of [] \<Rightarrow> [] | a # rest \<Rightarrow>
     (case find (\<lambda>(w, d). startsWith w s) entities of
        Some (w, d) \<Rightarrow> d # xmlUnescape (drop (length w - 1) rest)
      | None \<Rightarrow> a # xmlUnescape rest))"
  by pat_completeness auto
termination by (relation "measure length") auto

declare xmlUnescape.simps [simp del]

text \<open>The text an exported cell can hold: control characters XML forbids are dropped, bytes that
  are no UTF-8 become U+FFFD.\<close>

definition keepChar :: "char \<Rightarrow> string" where
  "keepChar c = (if of_char c < (0x20 :: nat) \<and> c \<noteq> CHR 0x09 \<and> c \<noteq> CHR 0x0A \<and> c \<noteq> CHR 0x0D then [] else [c])"

definition xmlText :: "string \<Rightarrow> string" where
  "xmlText = mapRunes keepChar"

lemma xmlUnescape_plain: "c \<noteq> CHR ''&'' \<Longrightarrow> xmlUnescape (c # t) = c # xmlUnescape t"
  by (subst xmlUnescape.simps) (simp add: entities_def startsWith_def)

lemma xmlUnescape_entity:
  "xmlUnescape (''&amp;'' @ t) = CHR ''&'' # xmlUnescape t"
  "xmlUnescape (''&lt;'' @ t) = CHR ''<'' # xmlUnescape t"
  "xmlUnescape (''&gt;'' @ t) = CHR ''>'' # xmlUnescape t"
  "xmlUnescape (''&quot;'' @ t) = CHR 0x22 # xmlUnescape t"
  "xmlUnescape (''&apos;'' @ t) = CHR 0x27 # xmlUnescape t"
  by (subst xmlUnescape.simps, simp add: entities_def startsWith_def)+

lemma xmlChar_plain:
  assumes "c \<noteq> CHR ''&''" "c \<noteq> CHR ''<''" "c \<noteq> CHR ''>''" "c \<noteq> CHR 0x22" "c \<noteq> CHR 0x27"
  shows "xmlChar c = keepChar c"
  unfolding xmlChar_def keepChar_def using assms
  by (cases "c = CHR 0x09 \<or> c = CHR 0x0A \<or> c = CHR 0x0D") auto

lemma xmlUnescape_char: "xmlUnescape (xmlChar c @ t) = keepChar c @ xmlUnescape t"
proof -
  consider "c = CHR ''&''" | "c = CHR ''<''" | "c = CHR ''>''" | "c = CHR 0x22" | "c = CHR 0x27"
    | "c \<noteq> CHR ''&''" "xmlChar c = keepChar c"
    using xmlChar_plain by blast
  then show ?thesis
  proof cases
    case 6
    then show ?thesis by (auto simp: keepChar_def xmlUnescape_plain xmlUnescape.simps [of "[]"])
  qed (simp_all add: xmlChar_def keepChar_def xmlUnescape_entity [simplified])
qed

lemma xmlUnescape_high: "(\<And>c. c \<in> set u \<Longrightarrow> 128 \<le> (of_char c :: nat)) \<Longrightarrow> xmlUnescape (u @ t) = u @ xmlUnescape t"
proof (induction u)
  case (Cons c u)
  then have "128 \<le> (of_char c :: nat)" by simp
  then have "c \<noteq> CHR ''&''" by auto
  with Cons show ?case by (simp add: xmlUnescape_plain)
qed simp

lemma xmlUnescape_escape: "xmlUnescape (xmlEscape s) = xmlText s"
  unfolding xmlEscape_def xmlText_def
proof (induction s rule: rune_induct)
  case Nil
  show ?case by (simp add: mapRunes_step xmlUnescape.simps)
next
  case (ascii a s)
  then show ?case by (simp add: mapRunes_step xmlUnescape_char)
next
  case (bad a s)
  have "xmlUnescape (replacement @ t) = replacement @ xmlUnescape t" for t
    by (rule xmlUnescape_high) (auto simp: replacement_def)
  with bad show ?case by (simp add: mapRunes_step)
next
  case (seq a s)
  then have "runeLen (a # s) \<noteq> 1" using runeLen_one [of a s] by simp
  then have "xmlUnescape (take (runeLen (a # s)) (a # s) @ t) = take (runeLen (a # s)) (a # s) @ xmlUnescape t" for t
    by (intro xmlUnescape_high runeLen_high)
  with seq(3) show ?case by (simp only: mapRunes_step(4) [OF seq(1,2)])
qed

lemma xmlEscape_clean: "list_all (\<lambda>c. c \<noteq> CHR ''<'' \<and> c \<noteq> CHR ''>'' \<and> c \<noteq> CHR 0x22) (xmlEscape s)"
  unfolding xmlEscape_def
proof (rule mapRunes_all)
  fix a :: char
  show "list_all (\<lambda>c. c \<noteq> CHR ''<'' \<and> c \<noteq> CHR ''>'' \<and> c \<noteq> CHR 0x22) (xmlChar a)"
    by (simp add: xmlChar_def)
next
  fix c :: char
  assume "128 \<le> (of_char c :: nat)"
  then show "c \<noteq> CHR ''<'' \<and> c \<noteq> CHR ''>'' \<and> c \<noteq> CHR 0x22" by auto
qed

section \<open>The sheet reads back\<close>

text \<open>XML as tags with the text after each: \<open>tags ps\<close> puts a \<open><\<close> before every piece.\<close>

definition tags :: "string list \<Rightarrow> string" where
  "tags ps = concat (map (Cons (CHR ''<'')) ps)"

lemma tags_append: "tags (ps @ qs) = tags ps @ tags qs"
  by (simp add: tags_def)

lemma tags_concat: "tags (concat pss) = concat (map tags pss)"
  by (induction pss) (simp_all add: tags_def)

definition isText :: "string \<Rightarrow> bool" where
  "isText p \<longleftrightarrow> startsWith ''t '' p \<or> startsWith ''v>'' p"

definition textOf :: "string \<Rightarrow> string" where
  "textOf p = xmlUnescape (tl (dropWhile (\<lambda>c. c \<noteq> CHR ''>'') p))"

definition readSheet :: "string \<Rightarrow> string list" where
  "readSheet x = map textOf (filter isText (tl (splitAt (CHR ''<'') x)))"

lemma splitAt_append: "splitAt c (a @ c # b) = splitAt c a @ splitAt c b"
proof (induction a)
  case (Cons x a)
  obtain m ms where "splitAt c a = m # ms" using splitAt_ne by (metis list.exhaust)
  with Cons show ?case by simp
qed simp

lemma splitAt_free: "c \<notin> set p \<Longrightarrow> splitAt c p = [p]"
  by (induction p) auto

lemma splitAt_tags: "list_all (\<lambda>p. CHR ''<'' \<notin> set p) ps \<Longrightarrow> splitAt (CHR ''<'') (tags ps) = [] # ps"
proof (induction ps rule: rev_induct)
  case (snoc p ps)
  then have "splitAt (CHR ''<'') (tags ps @ CHR ''<'' # p) = [] # ps @ [p]"
    by (simp add: splitAt_append splitAt_free)
  then show ?case by (simp add: tags_append) (simp add: tags_def)
qed (simp add: tags_def)

lemma readSheet_tags:
  "list_all (\<lambda>p. CHR ''<'' \<notin> set p) ps \<Longrightarrow> readSheet (tags ps) = map textOf (filter isText ps)"
  by (simp add: readSheet_def splitAt_tags)

text \<open>The pieces of a cell.\<close>

definition inlinePieces :: "string \<Rightarrow> string \<Rightarrow> string list" where
  "inlinePieces ref txt = [dq ''c r=`'' @ ref @ dq ''` t=`inlineStr`>'', ''is>'',
     dq ''t xml:space=`preserve`>'' @ xmlEscape txt, ''/t>'', ''/is>'', ''/c>'']"

definition numberPieces :: "string \<Rightarrow> string \<Rightarrow> string list" where
  "numberPieces ref v = [dq ''c r=`'' @ ref @ dq ''`>'', ''v>'' @ v, ''/v>'', ''/c>'']"

lemma inline_tags: "writeInlineCell ref txt = tags (inlinePieces ref txt)"
  by (simp add: writeInlineCell_def inlinePieces_def tags_def dq_def)

lemma number_tags: "isNumeric v \<Longrightarrow> writeNumberCell ref v = tags (numberPieces ref v)"
  by (simp add: writeNumberCell_def numberPieces_def tags_def dq_def)

definition cellPieces :: "bool \<Rightarrow> string \<Rightarrow> string \<Rightarrow> string list" where
  "cellPieces num ref v = (if num \<and> isNumeric v then numberPieces ref v else inlinePieces ref v)"

lemma cell_tags:
  "(if num then writeNumberCell ref v else writeInlineCell ref v) = tags (cellPieces num ref v)"
  by (simp add: cellPieces_def number_tags inline_tags) (simp add: writeNumberCell_def inline_tags)

definition okRef :: "string \<Rightarrow> bool" where
  "okRef ref \<longleftrightarrow> CHR ''<'' \<notin> set ref"

lemma numericLoop_chars: "numericLoop a b s \<Longrightarrow> list_all (\<lambda>c. is_digit c \<or> c = CHR ''.'') s"
  by (induction a b s rule: numericLoop.induct) (auto split: if_splits)

lemma isNumeric_chars: "isNumeric s \<Longrightarrow> list_all (\<lambda>c. is_digit c \<or> c = CHR ''.'' \<or> c = CHR ''-'') s"
  by (cases s) (auto simp: isNumeric_def list_all_iff dest!: numericLoop_chars split: if_splits)

lemma numeric_text: "isNumeric v \<Longrightarrow> xmlUnescape v = xmlText v \<and> CHR ''<'' \<notin> set v"
proof -
  assume "isNumeric v"
  then have "list_all (\<lambda>c. is_digit c \<or> c = CHR ''.'' \<or> c = CHR ''-'') v" by (rule isNumeric_chars)
  then show ?thesis unfolding xmlText_def
  proof (induction v)
    case (Cons c v)
    then have "c \<noteq> CHR ''&''" "c \<noteq> CHR ''<''" "of_char c < (128 :: nat)" "32 \<le> (of_char c :: nat)"
      by (auto simp: is_digit_def)
    with Cons show ?case by (simp add: xmlUnescape_plain mapRunes_step keepChar_def)
  qed (simp add: mapRunes_step xmlUnescape.simps)
qed

lemma cellPieces_read:
  assumes "okRef ref"
  shows "list_all (\<lambda>p. CHR ''<'' \<notin> set p) (cellPieces num ref v)"
    and "map textOf (filter isText (cellPieces num ref v)) = [xmlText v]"
proof -
  have "CHR ''<'' \<notin> set (xmlEscape v)" using xmlEscape_clean [of v] by (auto simp: list_all_iff)
  then show "list_all (\<lambda>p. CHR ''<'' \<notin> set p) (cellPieces num ref v)"
    using assms numeric_text [of v]
    by (simp add: cellPieces_def inlinePieces_def numberPieces_def okRef_def dq_def)
  show "map textOf (filter isText (cellPieces num ref v)) = [xmlText v]"
    using numeric_text [of v]
    by (simp add: cellPieces_def inlinePieces_def numberPieces_def isText_def startsWith_def textOf_def
        dq_def xmlUnescape_escape)
qed

definition rowPieces :: "bool list \<Rightarrow> (nat \<Rightarrow> string) \<Rightarrow> string list \<Rightarrow> string list" where
  "rowPieces numeric ref row =
     concat (map (\<lambda>(c, v). cellPieces (isNumericCol numeric c) (ref c) v) (zip [0..<length row] row))"

definition sheetPieces :: "exportTable \<Rightarrow> string list" where
  "sheetPieces t =
     [tl xmlHead, dq ''worksheet xmlns=`http://schemas.openxmlformats.org/spreadsheetml/2006/main`>'', ''sheetData>'',
      dq ''row r=`1`>''] @ rowPieces [] (\<lambda>c. colName (int c) @ ''1'') (etHeaders t) @ [''/row>''] @
     concat (map (\<lambda>(i, row). [dq ''row r=`'' @ itoa (int (i + 2)) @ dq ''`>''] @
         rowPieces (etNumeric t) (\<lambda>c. cellRef c (i + 2)) row @ [''/row>'']) (zip [0..<length (etRows t)] (etRows t))) @
     [''/sheetData>'', ''/worksheet>'']"

lemma tags_one: "tags [p] = CHR ''<'' # p"
  by (simp add: tags_def)

lemma row_tags: "concat (map (\<lambda>(c, cell). if isNumericCol numeric c then writeNumberCell (ref c) cell
     else writeInlineCell (ref c) cell) (zip cs row)) =
   tags (concat (map (\<lambda>(c, v). cellPieces (isNumericCol numeric c) (ref c) v) (zip cs row)))"
proof -
  have "(\<lambda>(c, cell). if isNumericCol numeric c then writeNumberCell (ref c) cell else writeInlineCell (ref c) cell) =
      (\<lambda>(c, v). tags (cellPieces (isNumericCol numeric c) (ref c) v))"
    by (simp only: cell_tags)
  then show ?thesis by (simp only: tags_concat map_map comp_def split_def)
qed

lemma row_literals:
  "dq ''<row r=`1`>'' = tags [dq ''row r=`1`>'']" "''</row>'' = tags [''/row>'']"
  "(dq ''<row r=`'' @ s) @ dq ''`>'' = tags [(dq ''row r=`'' @ s) @ dq ''`>'']"
  by (simp_all add: dq_def tags_def)

lemma headerRow_tags: "headerRow hs =
   tags ([dq ''row r=`1`>''] @ rowPieces [] (\<lambda>c. colName (int c) @ ''1'') hs @ [''/row>''])"
proof -
  have "isNumericCol [] = (\<lambda>c. False)" by (simp add: isNumericCol_def fun_eq_iff)
  with row_tags [of "[]" "\<lambda>c. colName (int c) @ ''1''" "[0..<length hs]" hs]
  have "concat (map (\<lambda>(c, h). writeInlineCell (colName (int c) @ ''1'') h) (zip [0..<length hs] hs)) =
      tags (rowPieces [] (\<lambda>c. colName (int c) @ ''1'') hs)"
    by (simp only: rowPieces_def if_False)
  then show ?thesis by (simp only: headerRow_def row_literals tags_append)
qed

lemma dataRow_tags: "dataRow numeric i row =
   tags ([dq ''row r=`'' @ itoa (int (i + 2)) @ dq ''`>''] @ rowPieces numeric (\<lambda>c. cellRef c (i + 2)) row @ [''/row>''])"
  using row_tags [of numeric "\<lambda>c. cellRef c (i + 2)" "[0..<length row]" row]
  by (simp only: dataRow_def Let_def rowPieces_def append_assoc [symmetric] row_literals tags_append)

lemma head_tags: "xmlHead = tags [tl xmlHead]"
  by (simp add: xmlHead_def dq_def tags_def)

lemma sheet_tags: "sheetXML t = tags (sheetPieces t)"
proof -
  let ?row = "\<lambda>(i, row). [dq ''row r=`'' @ itoa (int (i + 2)) @ dq ''`>''] @
      rowPieces (etNumeric t) (\<lambda>c. cellRef c (i + 2)) row @ [''/row>'']"
  have rows: "(\<lambda>(i, row). dataRow (etNumeric t) i row) = (\<lambda>x. tags (?row x))"
    by (simp only: dataRow_tags split_def)
  have "dq ''<worksheet xmlns=`http://schemas.openxmlformats.org/spreadsheetml/2006/main`><sheetData>'' =
      tags [dq ''worksheet xmlns=`http://schemas.openxmlformats.org/spreadsheetml/2006/main`>'', ''sheetData>'']"
    "''</sheetData></worksheet>'' = tags [''/sheetData>'', ''/worksheet>'']"
    by (simp_all add: dq_def tags_def)
  moreover have "concat (map (\<lambda>x. tags (?row x)) zs) = tags (concat (map ?row zs))" for zs
    by (simp add: tags_concat comp_def)
  ultimately show ?thesis
    unfolding sheetXML_def rows headerRow_tags sheetPieces_def
    by (subst head_tags) (simp only: tags_append [symmetric] append_assoc append_Cons append_Nil)
qed

lemma letter: "0 \<le> r \<Longrightarrow> r < 26 \<Longrightarrow> of_char (char_of (nat (65 + r))) = nat (65 + r)"
  by simp

lemma colLoop_letters:
  "list_all (\<lambda>c. 65 \<le> (of_char c :: nat) \<and> of_char c \<le> (90 :: nat)) name \<Longrightarrow>
   list_all (\<lambda>c. 65 \<le> (of_char c :: nat) \<and> of_char c \<le> (90 :: nat)) (colLoop i name)"
proof (induction i name rule: colLoop.induct)
  case (1 i name)
  show ?case
  proof (cases "0 \<le> i")
    case True
    then have "0 \<le> i smod 26" "i smod 26 < 26" by (simp_all add: smod_nonneg)
    then have "list_all (\<lambda>c. 65 \<le> (of_char c :: nat) \<and> of_char c \<le> (90 :: nat)) (char_of (nat (65 + i smod 26)) # name)"
      using 1(2) letter [of "i smod 26"] by (simp add: list_all_iff) linarith
    with 1(1) True show ?thesis by (subst colLoop.simps) simp
  next
    case False
    with 1(2) show ?thesis by (subst colLoop.simps) simp
  qed
qed

lemma colName_letters: "list_all (\<lambda>c. 65 \<le> (of_char c :: nat) \<and> of_char c \<le> (90 :: nat)) (colName i)"
  unfolding colName_def by (rule colLoop_letters) simp

lemma okRef_append: "okRef (a @ b) \<longleftrightarrow> okRef a \<and> okRef b"
  by (simp add: okRef_def)

lemma okRef_cell: "okRef (colName i)" "okRef (itoa (int n))" "okRef ''1''"
proof -
  show "okRef (colName i)" using colName_letters [of i] by (force simp: okRef_def list_all_iff)
  have "itoa (int n) = ntoa n" by (simp add: itoa_def)
  then show "okRef (itoa (int n))" using ntoa_digits [of n] by (auto simp: okRef_def list_all_iff is_digit_def)
qed (simp add: okRef_def)

lemma rowPieces_read:
  assumes "\<And>c. okRef (ref c)"
  shows "list_all (\<lambda>p. CHR ''<'' \<notin> set p) (rowPieces numeric ref row)"
    and "map textOf (filter isText (rowPieces numeric ref row)) = map xmlText row"
proof -
  have "list_all (\<lambda>p. CHR ''<'' \<notin> set p)
        (concat (map (\<lambda>(c, v). cellPieces (isNumericCol numeric c) (ref c) v) (zip cs row))) \<and>
      (length cs = length row \<longrightarrow> map textOf (filter isText
        (concat (map (\<lambda>(c, v). cellPieces (isNumericCol numeric c) (ref c) v) (zip cs row)))) = map xmlText row)" for cs
  proof (induction cs row rule: list_induct2')
    case (4 c cs v row)
    then show ?case using cellPieces_read [OF assms [of c], of "isNumericCol numeric c" v]
      by (simp only: zip_Cons_Cons list.map prod.case concat.simps list_all_append filter_append map_append length_Cons
          append_Cons append_Nil) simp
  qed simp_all
  then show "list_all (\<lambda>p. CHR ''<'' \<notin> set p) (rowPieces numeric ref row)"
    "map textOf (filter isText (rowPieces numeric ref row)) = map xmlText row"
    unfolding rowPieces_def by simp_all
qed

lemma frame_pieces:
  "list_all (\<lambda>p. CHR ''<'' \<notin> set p) [tl xmlHead, dq ''worksheet xmlns=`http://schemas.openxmlformats.org/spreadsheetml/2006/main`>'',
     ''sheetData>'', dq ''row r=`1`>'']"
  "filter isText [tl xmlHead, dq ''worksheet xmlns=`http://schemas.openxmlformats.org/spreadsheetml/2006/main`>'',
     ''sheetData>'', dq ''row r=`1`>''] = []"
  "list_all (\<lambda>p. CHR ''<'' \<notin> set p) [''/row>'']" "filter isText [''/row>''] = []"
  "list_all (\<lambda>p. CHR ''<'' \<notin> set p) [''/sheetData>'', ''/worksheet>'']" "filter isText [''/sheetData>'', ''/worksheet>''] = []"
  by (simp_all add: xmlHead_def dq_def isText_def startsWith_def)

lemma row_piece:
  "okRef s \<Longrightarrow> list_all (\<lambda>p. CHR ''<'' \<notin> set p) [dq ''row r=`'' @ s @ dq ''`>'']"
  "filter isText [dq ''row r=`'' @ s @ dq ''`>''] = []"
  by (simp_all add: dq_def isText_def startsWith_def okRef_def)

lemma dataRows_read:
  fixes numeric :: "bool list"
  defines "f \<equiv> \<lambda>(i, row). [dq ''row r=`'' @ itoa (int (i + 2)) @ dq ''`>''] @
      rowPieces numeric (\<lambda>c. cellRef c (i + 2)) row @ [''/row>'']"
  shows "list_all (\<lambda>p. CHR ''<'' \<notin> set p) (concat (map f (zip ixs rows)))"
    and "length ixs = length rows \<Longrightarrow> map textOf (filter isText (concat (map f (zip ixs rows)))) = map xmlText (concat rows)"
proof -
  have one: "list_all (\<lambda>p. CHR ''<'' \<notin> set p) (f (i, row))" "map textOf (filter isText (f (i, row))) = map xmlText row" for i row
  proof -
    have ok: "okRef (cellRef c (i + 2))" "okRef (itoa (int (i + 2)))" for c
      by (simp_all only: cellRef_def okRef_append okRef_cell simp_thms)
    show "list_all (\<lambda>p. CHR ''<'' \<notin> set p) (f (i, row))"
      unfolding f_def prod.case list_all_append
      using row_piece(1) [OF ok(2)] rowPieces_read(1) [where ref = "\<lambda>c. cellRef c (i + 2)" and numeric = numeric and row = row, OF ok(1)] frame_pieces(3) by blast
    show "map textOf (filter isText (f (i, row))) = map xmlText row"
      unfolding f_def prod.case filter_append map_append row_piece(2) frame_pieces(4)
      by (simp only: list.map append_Nil append_Nil2 rowPieces_read(2) [where ref = "\<lambda>c. cellRef c (i + 2)", OF ok(1)])
  qed
  show "list_all (\<lambda>p. CHR ''<'' \<notin> set p) (concat (map f (zip ixs rows)))"
    using one(1) by (induction ixs rows rule: list_induct2') (simp_all add: list_all_append)
  show "length ixs = length rows \<Longrightarrow> map textOf (filter isText (concat (map f (zip ixs rows)))) = map xmlText (concat rows)"
    using one(2) by (induction ixs rows rule: list_induct2') simp_all
qed


section \<open>Every cell has its own reference\<close>

text \<open>The index a spreadsheet reads in column letters, counted from 1.\<close>

definition colNumber :: "string \<Rightarrow> int" where
  "colNumber s = foldl (\<lambda>n c. 26 * n + (int (of_char c) - 64)) 0 s"

lemma colNumber_step: "foldl (\<lambda>n c. 26 * n + (int (of_char c) - 64)) a s = a * 26 ^ length s + colNumber s"
proof (induction s arbitrary: a)
  case (Cons c s)
  show ?case
    using Cons [of "26 * a + (int (of_char c) - 64)"] Cons [of "int (of_char c) - 64"]
    by (simp add: colNumber_def algebra_simps)
qed (simp add: colNumber_def)

lemma colNumber_Cons: "colNumber (c # s) = (int (of_char c) - 64) * 26 ^ length s + colNumber s"
  using colNumber_step [of "int (of_char c) - 64" s] by (simp add: colNumber_def)

lemma digit_sum: "a * 26 ^ (n + 1) + ((b + 1) * 26 ^ n + k) = (a * 26 + b + 1) * 26 ^ n + (k :: int)"
  by (simp add: algebra_simps)

lemma colNumber_loop: "- 1 \<le> i \<Longrightarrow> colNumber (colLoop i name) = (i + 1) * 26 ^ length name + colNumber name"
proof (induction i name rule: colLoop.induct)
  case (1 i name)
  show ?case
  proof (cases "0 \<le> i")
    case True
    then have dm: "i sdiv 26 = i div 26" "i smod 26 = i mod 26" by (simp_all add: sdiv_nonneg smod_nonneg)
    have "(of_char (char_of (nat (65 + i mod 26))) :: nat) = nat (65 + i mod 26)"
      using letter [of "i mod 26"] by simp
    then have c: "int (of_char (char_of (nat (65 + i mod 26)))) - 64 = i mod 26 + 1" by simp
    have "- 1 \<le> i div 26 - 1" using True by simp
    then have "colNumber (colLoop i name) = i div 26 * 26 ^ (length name + 1) + ((i mod 26 + 1) * 26 ^ length name + colNumber name)"
      using 1(1) [OF True] by (subst colLoop.simps) (simp add: True dm c colNumber_Cons)
    also have "\<dots> = (i div 26 * 26 + i mod 26 + 1) * 26 ^ length name + colNumber name"
      by (rule digit_sum)
    finally show ?thesis by (simp only: div_mult_mod_eq)
  next
    case False
    with 1(2) have "i = - 1" by simp
    with False show ?thesis by (subst colLoop.simps) simp
  qed
qed

text \<open>
  The loop that names a column returns for every index, with letters that read back as the
  index (counted from 1), so different columns get different names; and different cells of a
  sheet get different references.
\<close>

theorem cellRef_unique:
  "colNumber (colName (int c)) = int c + 1 \<and>
   (cellRef c rn = cellRef c' rn' \<longleftrightarrow> c = c' \<and> rn = rn')"
proof -
  have num: "colNumber (colName (int k)) = int k + 1" for k
    using colNumber_loop [of "int k" "[]"] by (simp add: colName_def colNumber_def)
  have digits: "itoa (int n) = ntoa n" "list_all is_digit (ntoa n)" for n using ntoa_digits by (simp_all add: itoa_def)
  have letters: "list_all (\<lambda>x. \<not> is_digit x) (colName i)" for i
    using colName_letters [of i] by (auto simp: list_all_iff is_digit_def)
  have tw: "takeWhile (\<lambda>x. \<not> is_digit x) (cellRef k n) = colName (int k)" for k n
  proof -
    obtain d ds where d: "ntoa n = d # ds" using ntoa_ne [of n] by (cases "ntoa n") auto
    then have "\<not> \<not> is_digit d" using digits(2) [of n] by simp
    then have "takeWhile (\<lambda>x. \<not> is_digit x) (colName (int k) @ d # ds) = takeWhile (\<lambda>x. \<not> is_digit x) (colName (int k))"
      by (rule takeWhile_tail)
    also have "\<dots> = colName (int k)" using letters [of "int k"] by (simp add: list_all_iff takeWhile_eq_all_conv)
    finally show ?thesis by (simp only: cellRef_def digits(1) d)
  qed
  have cols: "c = c'" if eq: "cellRef c rn = cellRef c' rn'"
  proof -
    have "colName (int c) = colName (int c')"
      by (rule trans [OF tw [of c rn, symmetric, unfolded eq] tw [of c' rn']])
    then have "colNumber (colName (int c)) = colNumber (colName (int c'))" by (rule arg_cong)
    then show ?thesis unfolding num by simp
  qed
  moreover have "rn = rn'" if "cellRef c rn = cellRef c' rn'"
    using that cols [OF that] by (simp add: cellRef_def itoa_inj)
  ultimately show ?thesis using num by blast
qed

end
