(* ===== verification/Pdf.thy ===== *)
theory Pdf
  imports Export
begin

text \<open>
  \<^verbatim>\<open>internal/web/pdfdoc.go\<close>: an export table as a PDF in a fixed-width font. \<open>fitWidths\<close> chooses
  the columns' widths, \<open>formatRow\<close> lays a row out, \<open>pageStreams\<close> fills pages and \<open>assemblePDF\<close> writes
  the objects with the cross-reference table of their byte offsets. Lengths are Go's \<^verbatim>\<open>len\<close>, in
  bytes. The page geometry is in whole points; \<open>maxChars\<close> and \<open>perPage\<close> are the constants the
  compiler folds, with the body font's 0.6 em as tenths.
\<close>

section \<open>Layout\<close>

definition pageW :: int where "pageW = 612"
definition pageH :: int where "pageH = 792"
definition leftMargin :: int where "leftMargin = 40"
definition titleY :: int where "titleY = 752"
definition titleSize :: int where "titleSize = 14"
definition bodySize :: int where "bodySize = 8"
definition lineH :: int where "lineH = 12"
definition bottomMargin :: int where "bottomMargin = 48"

lemmas geometry = pageW_def pageH_def leftMargin_def titleY_def titleSize_def bodySize_def lineH_def bottomMargin_def

definition maxChars :: nat where
  "maxChars = nat ((pageW - 2 * leftMargin) * 10 div (bodySize * 6))"

definition perPage :: nat where
  "perPage = (let n = (titleY - 22 - 2 * lineH - bottomMargin) div lineH + 1 in if n < 1 then 1 else nat n)"

definition lineLen :: "nat list \<Rightarrow> nat" where
  "lineLen widths = (let tot = sum_list widths in
     if length widths > 1 then tot + (length widths - 1) else tot)"

definition widthCap :: nat where "widthCap = 44"

definition widenBy :: "nat list \<Rightarrow> string list \<Rightarrow> nat list" where
  "widenBy widths row = map (\<lambda>(c, w). if c < length row \<and> w < length (row ! c) then length (row ! c) else w)
     (zip [0..<length widths] widths)"

text \<open>The scan for the widest column that may shrink: the first of the widest.\<close>

fun victimLoop :: "bool list \<Rightarrow> nat \<Rightarrow> nat list \<Rightarrow> nat option \<times> nat \<Rightarrow> nat option \<times> nat" where
  "victimLoop numeric c [] acc = acc"
| "victimLoop numeric c (w # ws) (victim, best) =
     (if isNumericCol numeric c then victimLoop numeric (c + 1) ws (victim, best)
      else if w > best then victimLoop numeric (c + 1) ws (Some c, w)
      else victimLoop numeric (c + 1) ws (victim, best))"

definition victimOf :: "bool list \<Rightarrow> nat list \<Rightarrow> nat option" where
  "victimOf numeric widths = fst (victimLoop numeric 0 widths (None, 0))"

lemma victimLoop_props:
  "victimLoop numeric c ws (v0, b0) = (v, b) \<Longrightarrow>
   (v = v0 \<and> b = b0 \<or> (\<exists>i < length ws. v = Some (c + i) \<and> b = ws ! i \<and> \<not> isNumericCol numeric (c + i))) \<and>
   b0 \<le> b \<and> (\<forall>i < length ws. \<not> isNumericCol numeric (c + i) \<longrightarrow> ws ! i \<le> b)"
proof (induction ws arbitrary: c v0 b0)
  case (Cons w ws)
  show ?case
  proof (cases "\<not> isNumericCol numeric c \<and> b0 < w")
    case True
    then have run: "victimLoop numeric (c + 1) ws (Some c, w) = (v, b)" using Cons.prems by simp
    note ih = Cons.IH [OF run]
    have "w \<le> b" using ih by blast
    moreover have "\<forall>i < Suc (length ws). \<not> isNumericCol numeric (c + i) \<longrightarrow> (w # ws) ! i \<le> b"
      using ih \<open>w \<le> b\<close> by (auto simp: less_Suc_eq_0_disj)
    moreover have "\<exists>i < Suc (length ws). v = Some (c + i) \<and> b = (w # ws) ! i \<and> \<not> isNumericCol numeric (c + i)"
      using ih True by (force simp: less_Suc_eq_0_disj)
    ultimately show ?thesis using True by simp
  next
    case False
    then have run: "victimLoop numeric (c + 1) ws (v0, b0) = (v, b)" using Cons.prems by (auto split: if_splits)
    note ih = Cons.IH [OF run]
    have "\<forall>i < Suc (length ws). \<not> isNumericCol numeric (c + i) \<longrightarrow> (w # ws) ! i \<le> b"
      using ih False by (auto simp: less_Suc_eq_0_disj)
    moreover have "v = v0 \<and> b = b0 \<or> (\<exists>i < Suc (length ws). v = Some (c + i) \<and> b = (w # ws) ! i \<and> \<not> isNumericCol numeric (c + i))"
      using ih by (force simp: less_Suc_eq_0_disj)
    ultimately show ?thesis using ih by simp
  qed
qed auto

lemma victimOf_Some:
  assumes "victimOf numeric ws = Some v"
  shows "v < length ws" and "\<not> isNumericCol numeric v"
    and "\<And>i. i < length ws \<Longrightarrow> \<not> isNumericCol numeric i \<Longrightarrow> ws ! i \<le> ws ! v"
proof -
  obtain b where "victimLoop numeric 0 ws (None, 0) = (Some v, b)"
    using assms by (cases "victimLoop numeric 0 ws (None, 0)") (simp add: victimOf_def)
  from victimLoop_props [OF this]
  show "v < length ws" "\<not> isNumericCol numeric v"
    "\<And>i. i < length ws \<Longrightarrow> \<not> isNumericCol numeric i \<Longrightarrow> ws ! i \<le> ws ! v" by auto
qed

lemma victimOf_None:
  assumes "victimOf numeric ws = None" and "i < length ws" and "\<not> isNumericCol numeric i"
  shows "ws ! i = 0"
proof -
  obtain b where "victimLoop numeric 0 ws (None, 0) = (None, b)"
    using assms(1) by (cases "victimLoop numeric 0 ws (None, 0)") (simp add: victimOf_def)
  from victimLoop_props [OF this] assms(2,3) show ?thesis by auto
qed

function shrinkLoop :: "bool list \<Rightarrow> nat \<Rightarrow> nat list \<Rightarrow> nat list" where
  "shrinkLoop numeric budget widths =
     (if lineLen widths > budget then
        (case victimOf numeric widths of
           None \<Rightarrow> widths
         | Some v \<Rightarrow> if widths ! v \<le> 6 then widths
                    else shrinkLoop numeric budget (widths[v := widths ! v - 1]))
      else widths)"
  by pat_completeness auto
termination
proof (relation "measure (\<lambda>(numeric, budget, widths). sum_list widths)")
  fix numeric budget widths v
  assume "victimOf numeric widths = Some v" and "\<not> widths ! v \<le> (6 :: nat)"
  then have "v < length widths" "0 < widths ! v" using victimOf_Some(1) by auto
  moreover from this have "widths ! v \<le> sum_list widths" by (simp add: elem_le_sum_list)
  ultimately have "sum_list (widths[v := widths ! v - 1]) < sum_list widths"
    by (simp add: sum_list_update)
  then show "((numeric, budget, widths[v := widths ! v - 1]), numeric, budget, widths)
      \<in> measure (\<lambda>(numeric, budget, widths). sum_list widths)" by simp
qed simp

declare shrinkLoop.simps [simp del]

definition naturalWidths :: "exportTable \<Rightarrow> nat list" where
  "naturalWidths t = map (\<lambda>w. if w > widthCap then widthCap else w)
     (foldl widenBy (map length (etHeaders t)) (etRows t))"

definition fitWidths :: "exportTable \<Rightarrow> nat \<Rightarrow> nat list" where
  "fitWidths t budget = shrinkLoop (etNumeric t) budget (naturalWidths t)"

definition cellFit :: "string \<Rightarrow> nat \<Rightarrow> bool \<Rightarrow> string" where
  "cellFit s w right =
     (let s' = (if length s > w then (if w \<le> 2 then take w s else take (w - 2) s @ ''..'') else s);
          pad = spaces (w - length s')
      in if right then pad @ s' else s' @ pad)"

text \<open>A nil \<open>numeric\<close> is the empty list.\<close>

definition formatRow :: "string list \<Rightarrow> nat list \<Rightarrow> bool list \<Rightarrow> string" where
  "formatRow cells widths numeric = joinWith '' ''
     (map (\<lambda>(c, w). cellFit (if c < length cells then cells ! c else '''') w (isNumericCol numeric c))
       (zip [0..<length widths] widths))"

section \<open>Pages\<close>

definition pdfChar :: "char \<Rightarrow> string" where
  "pdfChar ch =
     (if ch = CHR 0x5C then [CHR 0x5C, CHR 0x5C] else if ch = CHR ''('' then [CHR 0x5C, CHR ''('']
      else if ch = CHR '')'' then [CHR 0x5C, CHR '')'']
      else if of_char ch < (0x20 :: nat) then '' '' else [ch])"

definition pdfString :: "string \<Rightarrow> string" where
  "pdfString s = concat (map pdfChar s)"

abbreviation nl :: string where "nl \<equiv> [CHR 0x0A]"

definition showText :: "string \<Rightarrow> string" where
  "showText s = ''('' @ pdfString s @ '') Tj'' @ nl"

definition nextLine :: string where
  "nextLine = ''0 -'' @ itoa lineH @ '' Td'' @ nl"

definition pageStream :: "string \<Rightarrow> string \<Rightarrow> string \<Rightarrow> string list \<Rightarrow> string" where
  "pageStream titleText header sep lines =
     ''BT'' @ nl @ ''/F2 '' @ itoa titleSize @ '' Tf'' @ nl @
     itoa leftMargin @ '' '' @ itoa titleY @ '' Td'' @ nl @ showText titleText @
     ''/F1 '' @ itoa bodySize @ '' Tf'' @ nl @ ''0 -22 Td'' @ nl @ showText header @
     nextLine @ showText sep @ concat (map (\<lambda>l. nextLine @ showText l) lines) @ ''ET'' @ nl"

function pageChunks :: "string list \<Rightarrow> string list list" where
  "pageChunks ls = (if ls = [] then [] else take perPage ls # pageChunks (drop perPage ls))"
  by pat_completeness auto
termination by (relation "measure length") (auto simp: perPage_def geometry Let_def)

declare pageChunks.simps [simp del]

definition dataLines :: "exportTable \<Rightarrow> nat list \<Rightarrow> string list" where
  "dataLines t widths =
     (if etRows t = [] then [''(no records in this range)'']
      else map (\<lambda>row. formatRow row widths (etNumeric t)) (etRows t))"

definition titleTextOf :: "gotime \<Rightarrow> exportTable \<Rightarrow> string" where
  "titleTextOf now t =
     etTitle t @ ''   '' @ formatDate now @ ''   ('' @ itoa (int (length (etRows t))) @ '')''"

definition pageStreams :: "gotime \<Rightarrow> exportTable \<Rightarrow> string list" where
  "pageStreams now t =
     (let widths = fitWidths t maxChars;
          header = formatRow (etHeaders t) widths [];
          sep = replicate (lineLen widths) (CHR ''-'');
          streams = map (pageStream (titleTextOf now t) header sep) (pageChunks (dataLines t widths))
      in if streams = []
         then [''BT'' @ nl @ ''/F2 14 Tf'' @ nl @ ''40 752 Td'' @ nl @ showText (titleTextOf now t) @ ''ET'' @ nl]
         else streams)"

section \<open>The file\<close>

definition contentObj :: "nat \<Rightarrow> nat" where "contentObj i = 5 + 2 * i"
definition pageObj :: "nat \<Rightarrow> nat" where "pageObj i = 6 + 2 * i"

definition ntext :: "nat \<Rightarrow> string" where
  "ntext n = itoa (int n)"

definition pageObjects :: "nat \<Rightarrow> string \<Rightarrow> string list" where
  "pageObjects i s =
     [''<< /Length '' @ ntext (length s) @ '' >>'' @ nl @ ''stream'' @ nl @ s @ nl @ ''endstream'',
      ''<< /Type /Page /Parent 2 0 R /MediaBox [0 0 '' @ itoa pageW @ '' '' @ itoa pageH @ ''] '' @
      ''/Resources << /Font << /F1 3 0 R /F2 4 0 R >> >> /Contents '' @ ntext (contentObj i) @ '' 0 R >>'']"

definition pdfObjects :: "string list \<Rightarrow> string list" where
  "pdfObjects streams =
     [''<< /Type /Catalog /Pages 2 0 R >>'',
      ''<< /Type /Pages /Kids ['' @
        trimSpace (concat (map (\<lambda>i. ntext (pageObj i) @ '' 0 R '') [0..<length streams])) @
        ''] /Count '' @ ntext (length streams) @ '' >>'',
      ''<< /Type /Font /Subtype /Type1 /BaseFont /Courier >>'',
      ''<< /Type /Font /Subtype /Type1 /BaseFont /Helvetica-Bold >>''] @
     concat (map (\<lambda>(i, s). pageObjects i s) (zip [0..<length streams] streams))"

fun emitObjects :: "nat \<Rightarrow> string list \<Rightarrow> string \<Rightarrow> nat list \<Rightarrow> string \<times> nat list" where
  "emitObjects i [] buf offsets = (buf, offsets)"
| "emitObjects i (b # bs) buf offsets =
     emitObjects (i + 1) bs (buf @ ntext (i + 1) @ '' 0 obj'' @ nl @ b @ nl @ ''endobj'' @ nl) (offsets @ [length buf])"

definition pad10 :: "nat \<Rightarrow> string" where
  "pad10 n = (let s = ntext n in replicate (10 - length s) (CHR ''0'') @ s)"

definition xrefTable :: "nat list \<Rightarrow> string" where
  "xrefTable offsets =
     ''xref'' @ nl @ ''0 '' @ ntext (length offsets + 1) @ nl @ ''0000000000 65535 f '' @ nl @
     concat (map (\<lambda>n. pad10 n @ '' 00000 n '' @ nl) offsets)"

definition assemblePDF :: "string list \<Rightarrow> string" where
  "assemblePDF streams =
     (let objects = pdfObjects streams in
      case emitObjects 0 objects (''%PDF-1.4'' @ nl) [] of (buf, offsets) \<Rightarrow>
        buf @ xrefTable offsets @
        ''trailer'' @ nl @ ''<< /Size '' @ ntext (length objects + 1) @ '' /Root 1 0 R >>'' @ nl @
        ''startxref'' @ nl @ ntext (length buf) @ nl @ ''%%EOF'' @ nl)"

definition writePDF :: "gotime \<Rightarrow> exportTable \<Rightarrow> string" where
  "writePDF now t = assemblePDF (pageStreams now t)"

section \<open>Columns\<close>

lemma length_cellFit: "length (cellFit s w right) = w"
  by (auto simp: cellFit_def Let_def min_def)

lemma length_formatRow: "length (formatRow cells widths numeric) = lineLen widths"
proof (cases "widths = []")
  case True
  then show ?thesis by (simp add: formatRow_def lineLen_def)
next
  case False
  let ?cells = "map (\<lambda>(c, w). cellFit (if c < length cells then cells ! c else '''') w (isNumericCol numeric c))
    (zip [0..<length widths] widths)"
  have "map length ?cells = map snd (zip [0..<length widths] widths)"
    by (simp add: comp_def split_def length_cellFit)
  then have "map length ?cells = widths" by simp
  moreover have "?cells \<noteq> []" "length ?cells = length widths" using False by simp_all
  moreover have "length '' '' = 1" by simp
  ultimately have "length (joinWith '' '' ?cells) = sum_list widths + 1 * (length widths - 1)"
    using joinWith_length [of ?cells "'' ''"] by argo
  then show ?thesis using False unfolding formatRow_def lineLen_def Let_def by (cases widths) auto
qed

lemma shrinkLoop_props:
  "length (shrinkLoop numeric budget ws) = length ws \<and>
   (\<forall>c < length ws. shrinkLoop numeric budget ws ! c \<le> ws ! c \<and>
      (isNumericCol numeric c \<longrightarrow> shrinkLoop numeric budget ws ! c = ws ! c)) \<and>
   (lineLen (shrinkLoop numeric budget ws) \<le> budget \<or>
    (\<forall>c < length ws. \<not> isNumericCol numeric c \<longrightarrow> shrinkLoop numeric budget ws ! c \<le> 6))"
proof (induction numeric budget ws rule: shrinkLoop.induct)
  case (1 numeric budget ws)
  show ?case
  proof (cases "lineLen ws > budget")
    case over: True
    show ?thesis
    proof (cases "victimOf numeric ws")
      case None
      then have "shrinkLoop numeric budget ws = ws" using over by (subst shrinkLoop.simps) simp
      moreover have "\<forall>c < length ws. \<not> isNumericCol numeric c \<longrightarrow> ws ! c \<le> 6"
        using victimOf_None [OF None] by simp
      ultimately show ?thesis by simp
    next
      case (Some v)
      note v = victimOf_Some [OF Some]
      show ?thesis
      proof (cases "ws ! v \<le> 6")
        case True
        then have "shrinkLoop numeric budget ws = ws" using over Some by (subst shrinkLoop.simps) simp
        moreover have "\<forall>c < length ws. \<not> isNumericCol numeric c \<longrightarrow> ws ! c \<le> 6"
          using v(3) True by (meson order_trans)
        ultimately show ?thesis by simp
      next
        case False
        let ?ws = "ws[v := ws ! v - 1]"
        have run: "shrinkLoop numeric budget ws = shrinkLoop numeric budget ?ws"
          using over Some False by (subst shrinkLoop.simps) simp
        have le: "?ws ! c \<le> ws ! c" for c by (cases "c = v"; cases "v < length ws") (simp_all add: list_update_beyond)
        have num: "isNumericCol numeric c \<Longrightarrow> ?ws ! c = ws ! c" for c using v(2) by (cases "c = v") auto
        note ih = 1 [OF over Some False]
        have "\<forall>c < length ws. shrinkLoop numeric budget ?ws ! c \<le> ws ! c"
          using ih le by (metis length_list_update order_trans)
        moreover have "\<forall>c < length ws. isNumericCol numeric c \<longrightarrow> shrinkLoop numeric budget ?ws ! c = ws ! c"
          using ih num by simp
        moreover have "length (shrinkLoop numeric budget ?ws) = length ws"
          and "lineLen (shrinkLoop numeric budget ?ws) \<le> budget \<or>
            (\<forall>c < length ws. \<not> isNumericCol numeric c \<longrightarrow> shrinkLoop numeric budget ?ws ! c \<le> 6)"
          using ih by simp_all
        ultimately show ?thesis unfolding run by blast
      qed
    qed
  next
    case False
    then have "shrinkLoop numeric budget ws = ws" by (subst shrinkLoop.simps) simp
    then show ?thesis using False by simp
  qed
qed

text \<open>The widest text of a column, heading included.\<close>

definition widest :: "exportTable \<Rightarrow> nat \<Rightarrow> nat" where
  "widest t c = foldl (\<lambda>m row. if c < length row then max m (length (row ! c)) else m) (length (etHeaders t ! c)) (etRows t)"

lemma widenBy_nth: "c < length ws \<Longrightarrow> widenBy ws row ! c =
    (if c < length row then max (ws ! c) (length (row ! c)) else ws ! c)"
  by (simp add: widenBy_def max_def)

lemma foldl_widenBy:
  "length (foldl widenBy ws rows) = length ws \<and> (\<forall>c < length ws. foldl widenBy ws rows ! c =
     foldl (\<lambda>m row. if c < length row then max m (length (row ! c)) else m) (ws ! c) rows)"
proof (induction rows arbitrary: ws)
  case (Cons row rows)
  have "length (widenBy ws row) = length ws" by (simp add: widenBy_def)
  with Cons [of "widenBy ws row"] show ?case by (simp add: widenBy_nth)
qed simp

lemma naturalWidths_nth: "c < length (etHeaders t) \<Longrightarrow> naturalWidths t ! c = min (widest t c) 44"
  "length (naturalWidths t) = length (etHeaders t)"
  using foldl_widenBy [of "map length (etHeaders t)" "etRows t"]
  by (auto simp: naturalWidths_def widest_def widthCap_def min_def)



section \<open>The cross-reference table\<close>

lemma drop_append: "drop (length a) (a @ b) = b"
  by simp

lemma drop_before: "n \<le> length a \<Longrightarrow> drop n (a @ b) = drop n a @ b"
  by simp

lemma emitObjects_at:
  assumes "emitObjects i bs buf offsets = (buf', offsets')"
  shows "\<exists>more os. buf' = buf @ more \<and> offsets' = offsets @ os \<and> length os = length bs \<and>
     (\<forall>j < length bs. os ! j < length buf' \<and> (\<exists>rest. drop (os ! j) buf' =
        ntext (i + j + 1) @ '' 0 obj'' @ nl @ bs ! j @ nl @ ''endobj'' @ nl @ rest))"
  using assms
proof (induction bs arbitrary: i buf offsets)
  case (Cons b bs)
  let ?obj = "ntext (i + 1) @ '' 0 obj'' @ nl @ b @ nl @ ''endobj'' @ nl"
  have "emitObjects (i + 1) bs (buf @ ?obj) (offsets @ [length buf]) = (buf', offsets')" using Cons.prems by simp
  from Cons.IH [OF this] obtain more os where m: "buf' = (buf @ ?obj) @ more" "offsets' = (offsets @ [length buf]) @ os"
    "length os = length bs" and at: "\<And>j. j < length bs \<Longrightarrow> os ! j < length buf' \<and> (\<exists>rest. drop (os ! j) buf' =
        ntext (i + 1 + j + 1) @ '' 0 obj'' @ nl @ bs ! j @ nl @ ''endobj'' @ nl @ rest)" by blast
  have first: "drop (length buf) buf' = ?obj @ more" "length buf < length buf'"
    unfolding m(1) append_assoc drop_append by simp_all
  have "((length buf # os) ! j < length buf') \<and> (\<exists>rest. drop ((length buf # os) ! j) buf' =
        ntext (i + j + 1) @ '' 0 obj'' @ nl @ (b # bs) ! j @ nl @ ''endobj'' @ nl @ rest)" if "j < length (b # bs)" for j
  proof (cases j)
    case 0
    then show ?thesis using first by simp
  next
    case (Suc k)
    then show ?thesis using at [of k] that by simp
  qed
  moreover have "buf' = buf @ (?obj @ more)" "offsets' = offsets @ (length buf # os)" "length (length buf # os) = length (b # bs)"
    using m by simp_all
  ultimately show ?case by blast
qed simp

lemma pdfObjects_at:
  assumes "i < length streams"
  shows "length (pdfObjects streams) = 4 + 2 * length streams"
    and "pdfObjects streams ! (contentObj i - 1) = hd (pageObjects i (streams ! i))"
    and "pdfObjects streams ! (pageObj i - 1) = last (pageObjects i (streams ! i))"
proof -
  have pages: "length (concat (map (\<lambda>(i, s). pageObjects i s) (zip [k..<k + length ss] ss))) = 2 * length ss \<and>
      (\<forall>j < length ss. concat (map (\<lambda>(i, s). pageObjects i s) (zip [k..<k + length ss] ss)) ! (2 * j) = hd (pageObjects (k + j) (ss ! j)) \<and>
        concat (map (\<lambda>(i, s). pageObjects i s) (zip [k..<k + length ss] ss)) ! (2 * j + 1) = last (pageObjects (k + j) (ss ! j)))" for k ss
  proof (induction ss arbitrary: k)
    case (Cons s ss)
    have up: "[k..<k + length (s # ss)] = k # [Suc k..<Suc k + length ss]" by (simp add: upt_conv_Cons del: upt_Suc)
    have two: "pageObjects k s = [hd (pageObjects k s), last (pageObjects k s)]" by (simp add: pageObjects_def)
    show ?case
    proof (intro conjI allI impI)
      show "length (concat (map (\<lambda>(i, s). pageObjects i s) (zip [k..<k + length (s # ss)] (s # ss)))) = 2 * length (s # ss)"
        using Cons [of "Suc k"] unfolding up by (simp add: pageObjects_def)
    next
      fix j assume j: "j < length (s # ss)"
      let ?all = "concat (map (\<lambda>(i, s). pageObjects i s) (zip [k..<k + length (s # ss)] (s # ss)))"
      let ?rest = "concat (map (\<lambda>(i, s). pageObjects i s) (zip [Suc k..<Suc k + length ss] ss))"
      have all: "?all = hd (pageObjects k s) # last (pageObjects k s) # ?rest"
        unfolding up using two by simp
      show "?all ! (2 * j) = hd (pageObjects (k + j) ((s # ss) ! j))"
        "?all ! (2 * j + 1) = last (pageObjects (k + j) ((s # ss) ! j))"
        unfolding all using Cons [of "Suc k"] j by (cases j; simp)+
    qed
  qed simp
  from pages [of 0 streams] assms
  show "length (pdfObjects streams) = 4 + 2 * length streams"
    "pdfObjects streams ! (contentObj i - 1) = hd (pageObjects i (streams ! i))"
    "pdfObjects streams ! (pageObj i - 1) = last (pageObjects i (streams ! i))"
    by (simp_all add: pdfObjects_def contentObj_def pageObj_def nth_append)
qed



section \<open>What a viewer shows\<close>

text \<open>The literal strings of a content stream, as a PDF reader takes them.\<close>

fun readStrings :: "bool \<Rightarrow> string \<Rightarrow> string \<Rightarrow> string list" where
  "readStrings inside cur [] = []"
| "readStrings False cur (c # cs) = (if c = CHR ''('' then readStrings True [] cs else readStrings False [] cs)"
| "readStrings True cur (c # cs) =
     (if c = CHR 0x5C then (case cs of [] \<Rightarrow> [] | d # ds \<Rightarrow> readStrings True (cur @ [d]) ds)
      else if c = CHR '')'' then cur # readStrings False [] cs
      else readStrings True (cur @ [c]) cs)"

definition shown :: "string \<Rightarrow> string" where
  "shown s = map (\<lambda>c. if of_char c < (0x20 :: nat) then CHR '' '' else c) s"

lemma readStrings_char: "readStrings True cur (pdfChar c @ t) = readStrings True (cur @ shown [c]) t"
proof -
  consider "c = CHR 0x5C" | "c = CHR ''(''" | "c = CHR '')''" | "c \<noteq> CHR 0x5C" "c \<noteq> CHR ''(''" "c \<noteq> CHR '')''"
    by blast
  then show ?thesis by cases (simp_all add: pdfChar_def shown_def)
qed

lemma readStrings_text: "readStrings True cur (pdfString s @ CHR '')'' # t) = (cur @ shown s) # readStrings False [] t"
proof (induction s arbitrary: cur)
  case (Cons c s)
  have "readStrings True cur (pdfString (c # s) @ CHR '')'' # t) =
      readStrings True (cur @ shown [c]) (pdfString s @ CHR '')'' # t)"
    using readStrings_char by (simp add: pdfString_def)
  then show ?case using Cons by (simp add: shown_def)
qed (simp add: pdfString_def shown_def)

lemma readStrings_skip: "CHR ''('' \<notin> set u \<Longrightarrow> readStrings False [] (u @ t) = readStrings False [] t"
  by (induction u) auto

lemma readStrings_show:
  assumes "CHR ''('' \<notin> set u"
  shows "readStrings False [] (u @ showText s @ t) = shown s # readStrings False [] t"
proof -
  have "readStrings False [] (u @ showText s @ t) = readStrings False [] (CHR ''('' # pdfString s @ CHR '')'' # '' Tj'' @ nl @ t)"
    unfolding readStrings_skip [OF assms] by (simp add: showText_def)
  also have "\<dots> = shown s # readStrings False [] (('' Tj'' @ nl) @ t)"
    using readStrings_text [of "[]" s "'' Tj'' @ nl @ t"] by simp
  also have "\<dots> = shown s # readStrings False [] t" by (subst readStrings_skip) simp_all
  finally show ?thesis .
qed

lemma paren_itoa: "CHR ''('' \<notin> set (itoa n)"
proof -
  have "CHR ''('' \<notin> set (ntoa k)" for k
  proof
    assume "CHR ''('' \<in> set (ntoa k)"
    then have "is_digit (CHR ''('')" using ntoa_digits [of k] by (simp only: list_all_iff)
    then show False by (simp add: is_digit_def)
  qed
  then show ?thesis by (simp add: itoa_def)
qed

lemma readStrings_lines:
  "readStrings False [] (concat (map (\<lambda>l. nextLine @ showText l) ls) @ ''ET'' @ nl) = map shown ls"
proof (induction ls)
  case (Cons l ls)
  have "CHR ''('' \<notin> set nextLine" using paren_itoa by (simp add: nextLine_def)
  from readStrings_show [OF this, of l "concat (map (\<lambda>l. nextLine @ showText l) ls) @ ''ET'' @ nl"] Cons
  show ?case by simp
qed simp

lemma readStrings_page:
  "readStrings False [] (pageStream titleText header sep ls) = map shown ([titleText, header, sep] @ ls)"
proof -
  let ?a = "''BT'' @ nl @ ''/F2 '' @ itoa titleSize @ '' Tf'' @ nl @ itoa leftMargin @ '' '' @ itoa titleY @ '' Td'' @ nl"
  let ?b = "''/F1 '' @ itoa bodySize @ '' Tf'' @ nl @ ''0 -22 Td'' @ nl"
  let ?ls = "concat (map (\<lambda>l. nextLine @ showText l) ls) @ ''ET'' @ nl"
  have free: "CHR ''('' \<notin> set ?a" "CHR ''('' \<notin> set ?b" "CHR ''('' \<notin> set nextLine"
    using paren_itoa by (simp_all add: nextLine_def)
  have page: "pageStream titleText header sep ls =
      ?a @ showText titleText @ ?b @ showText header @ nextLine @ showText sep @ ?ls"
    by (simp add: pageStream_def)
  show ?thesis
    unfolding page readStrings_show [OF free(1)] readStrings_show [OF free(2)] readStrings_show [OF free(3)] readStrings_lines
    by simp
qed

lemma perPage_value: "perPage = 55"
  by (simp add: perPage_def geometry Let_def)

lemma pageChunks_props: "concat (pageChunks ls) = ls \<and> list_all (\<lambda>ch. ch \<noteq> [] \<and> length ch \<le> 55) (pageChunks ls)"
proof (induction ls rule: pageChunks.induct)
  case (1 ls)
  then show ?case by (subst (1 2) pageChunks.simps) (auto simp: perPage_value)
qed


end
