(* ===== verification/Web_Server.thy ===== *)
theory Web_Server
  imports Controller Analytics Receipt Export Scan
begin

text \<open>
  \<^verbatim>\<open>internal/web\<close>: the HTTP API the till's browser page drives (\<^verbatim>\<open>server.go\<close>, \<^verbatim>\<open>search.go\<close>,
  \<^verbatim>\<open>sync.go\<close>), with the network send of \<^verbatim>\<open>internal/printer/printer.go\<close>. A handler is a function
  from the decoded request and the server's state to the response and the new state. Decoding
  the body is \<^verbatim>\<open>encoding/json\<close>'s: a handler takes the struct it decodes into, or \<open>None\<close> for the
  decode error; a response body is the value that is encoded. What a request draws from
  outside (the environment of the store call, the clock, the printer's network, the cloud's
  transport, image and content sniffing) is an argument.
\<close>

section \<open>Requests and responses\<close>

definition MethodGet :: string where "MethodGet = ''GET''"
definition MethodPost :: string where "MethodPost = ''POST''"

datatype body =
    BError string
  | BOk
  | BConfig string "(string \<times> bool) list"
  | BDevices "Device list"
  | BText string
  | BRaw string bytes
  | BProducts "Product list"
  | BProduct Product
  | BSettings "string \<rightharpoonup> string"
  | BSale Sale bool string
  | BSales "Sale list" int
  | BFound "Sale list" bool
  | BAnalytics Analytics
  | BFile string string string
  | BSyncOff
  | BSync string Status
  | BNotFound

record reply =
  hrStatus :: int
  hrBody :: body

definition writeJSON :: "int \<Rightarrow> body \<Rightarrow> reply" where
  "writeJSON status v = \<lparr>hrStatus = status, hrBody = v\<rparr>"

definition writeError :: "int \<Rightarrow> string \<Rightarrow> reply" where
  "writeError status msg = writeJSON status (BError msg)"

definition notAllowed :: reply where
  "notAllowed = writeError 405 ''Method not allowed.''"

text \<open>\<^verbatim>\<open>strings.ToUpper(s[:1])\<close> of one byte: an ASCII letter in upper case; a byte that is no
  rune by itself becomes U+FFFD.\<close>

definition upperByte :: "char \<Rightarrow> string" where
  "upperByte c = (let n = of_char c :: nat in
     if 97 \<le> n \<and> n \<le> 122 then [char_of (n - 32)]
     else if 128 \<le> n then map char_of [0xEF, 0xBF, 0xBD :: nat] else [c])"

definition capitalize :: "string \<Rightarrow> string" where
  "capitalize s = (case s of [] \<Rightarrow> s | c # cs \<Rightarrow> upperByte c @ cs)"

section \<open>The server\<close>

text \<open>The sync controller is optional. \<open>svWorld\<close> is what the network carries.\<close>

record 'w server =
  svDB :: db
  svSync :: "Controller option"
  svCloudURL :: string
  svWorld :: 'w

definition nudgeSync :: "'w server \<Rightarrow> 'w server" where
  "nudgeSync s = (case svSync s of None \<Rightarrow> s | Some c \<Rightarrow> s\<lparr>svSync := Some (Nudge c)\<rparr>)"

section \<open>Printing\<close>

text \<open>Dialling an address and writing to the connection; \<open>Some\<close> is the error.\<close>

record 'w net =
  ntDial :: "string \<Rightarrow> 'w \<Rightarrow> string option \<times> 'w"
  ntWrite :: "string \<Rightarrow> bytes \<Rightarrow> 'w \<Rightarrow> string option \<times> 'w"

definition SendRaw :: "'w net \<Rightarrow> string \<Rightarrow> bytes \<Rightarrow> 'w \<Rightarrow> string option \<times> 'w" where
  "SendRaw n addr payload w =
     (case ntDial n addr w of
        (Some err, w1) \<Rightarrow> (Some err, w1)
      | (None, w1) \<Rightarrow> ntWrite n addr payload w1)"

definition TestPrint :: "'w net \<Rightarrow> string \<Rightarrow> 'w \<Rightarrow> string option \<times> 'w" where
  "TestPrint n addr = SendRaw n addr testReceipt"

definition PrintReceipt :: "(bytes \<Rightarrow> image option) \<Rightarrow> 'w net \<Rightarrow> string \<Rightarrow> ReceiptData \<Rightarrow> 'w \<Rightarrow> string option \<times> 'w" where
  "PrintReceipt decodeImage n addr d = SendRaw n addr (RenderReceipt decodeImage d)"

text \<open>A missing key of a Go map reads as the empty string.\<close>

definition settingOf :: "string \<Rightarrow> db \<Rightarrow> string" where
  "settingOf k D = (case Settings D k of Some v \<Rightarrow> v | None \<Rightarrow> '''')"

definition logoOf :: "db \<Rightarrow> bytes" where
  "logoOf D = (case Logo D of Some x \<Rightarrow> x | None \<Rightarrow> [])"

definition receiptItem :: "SaleItem \<Rightarrow> ReceiptItem" where
  "receiptItem it = \<lparr>riName = itName it, riQty = itQty it, riPriceCents = itPriceCents it\<rparr>"

definition saleReceipt :: "db \<Rightarrow> Sale \<Rightarrow> ReceiptData" where
  "saleReceipt D sale =
     \<lparr>rdShopName = settingOf KeyShopName D, rdHeaderLine = settingOf KeyHeaderLine D,
      rdFooter = settingOf KeyFooter D, rdLogo = logoOf D, rdWhen = saCreatedAt sale,
      rdWidthMM = fst (atoi (settingOf KeyPaperWidth D)), rdTheme = settingOf KeyReceiptTheme D,
      rdItems = map receiptItem (saItems sale), rdSubtotalCents = saSubtotalCents sale,
      rdTaxCents = saTaxCents sale, rdTaxRateBps = saTaxRateBps sale, rdTaxMode = saTaxMode sale,
      rdTotalCents = saTotalCents sale, rdPaidCents = saPaidCents sale, rdChangeCents = saChangeCents sale\<rparr>"

definition noPrinter :: string where
  "noPrinter = ''No printer is set up yet.''"

definition notPrinted :: string where
  "notPrinted = ''The sale was saved, but the receipt could not print. Please check the printer.''"

definition printSale :: "(bytes \<Rightarrow> image option) \<Rightarrow> 'w net \<Rightarrow> Sale \<Rightarrow> 'w server \<Rightarrow> (bool \<times> string) \<times> 'w server" where
  "printSale decodeImage n sale s =
     (let addr = settingOf KeyPrinterAddr (svDB s) in
      if addr = '''' then ((False, noPrinter), s)
      else case PrintReceipt decodeImage n addr (saleReceipt (svDB s) sale) (svWorld s) of
             (Some _, w) \<Rightarrow> ((False, notPrinted), s\<lparr>svWorld := w\<rparr>)
           | (None, w) \<Rightarrow> ((True, ''''), s\<lparr>svWorld := w\<rparr>))"

section \<open>Printer setup\<close>

definition cannotReach :: reply where
  "cannotReach = writeError 502 ''Could not reach the printer. Please check that it is on.''"

text \<open>\<open>found\<close> is the outcome of \<open>Scan\<close>; \<open>None\<close> its error.\<close>

definition handleScan :: "Device list option \<Rightarrow> reply" where
  "handleScan found = (case found of
     None \<Rightarrow> writeError 500 ''Could not search the network.''
   | Some ds \<Rightarrow> writeJSON 200 (BDevices ds))"

definition handleTestPrint :: "'w net \<Rightarrow> string \<Rightarrow> string option \<Rightarrow> 'w server \<Rightarrow> reply \<times> 'w server" where
  "handleTestPrint n meth body s =
     (if meth \<noteq> MethodPost then (notAllowed, s)
      else case body of
        None \<Rightarrow> (writeError 400 ''No printer was selected.'', s)
      | Some addr \<Rightarrow>
          if addr = '''' then (writeError 400 ''No printer was selected.'', s)
          else case TestPrint n addr (svWorld s) of
            (Some _, w) \<Rightarrow> (cannotReach, s\<lparr>svWorld := w\<rparr>)
          | (None, w) \<Rightarrow> (writeJSON 200 BOk, s\<lparr>svWorld := w\<rparr>))"

record receiptOverrides =
  roTheme :: string
  roHeader :: "string option"
  roFooter :: "string option"

definition orSaved :: "string option \<Rightarrow> string \<Rightarrow> string" where
  "orSaved ov saved = (case ov of Some v \<Rightarrow> v | None \<Rightarrow> saved)"

definition sampleItem :: "string \<Rightarrow> int \<Rightarrow> int \<Rightarrow> SaleItem" where
  "sampleItem name qty price = \<lparr>itProductID = '''', itName = name, itPriceCents = price, itQty = qty,
     itTaxable = True, itTaxCents = 0\<rparr>"

definition sampleItems :: "SaleItem list" where
  "sampleItems = [sampleItem ''Bread'' 2 6500, sampleItem ''Cooking Oil 1L'' 1 35000, sampleItem ''Sugar 1kg'' 1 20000]"

definition samplePaid :: int where "samplePaid = 100000"

definition sampleReceipt :: "gotime \<Rightarrow> receiptOverrides \<Rightarrow> db \<Rightarrow> ReceiptData" where
  "sampleReceipt now ov D =
     (let rateBps = fst (atoi (settingOf KeyTaxRateBps D)); mode = settingOf KeyTaxMode D in
      case ComputeTax rateBps mode sampleItems of (its, subtotal, tax, tot) \<Rightarrow>
        \<lparr>rdShopName = settingOf KeyShopName D, rdHeaderLine = orSaved (roHeader ov) (settingOf KeyHeaderLine D),
         rdFooter = orSaved (roFooter ov) (settingOf KeyFooter D), rdLogo = logoOf D, rdWhen = now,
         rdWidthMM = fst (atoi (settingOf KeyPaperWidth D)),
         rdTheme = (if roTheme ov = '''' then settingOf KeyReceiptTheme D else roTheme ov),
         rdItems = map receiptItem its, rdSubtotalCents = subtotal, rdTaxCents = tax,
         rdTaxRateBps = rateBps, rdTaxMode = mode, rdTotalCents = tot, rdPaidCents = samplePaid,
         rdChangeCents = wrap64 (samplePaid - tot)\<rparr>)"

definition handleReceiptPreview :: "gotime \<Rightarrow> receiptOverrides \<Rightarrow> 'w server \<Rightarrow> reply" where
  "handleReceiptPreview now ov s = writeJSON 200 (BText (PreviewText (sampleReceipt now ov (svDB s))))"

text \<open>A body that does not decode leaves the theme empty: \<open>theme\<close> is the field afterwards.\<close>

definition handleReceiptTest :: "(bytes \<Rightarrow> image option) \<Rightarrow> 'w net \<Rightarrow> gotime \<Rightarrow> string \<Rightarrow> string \<Rightarrow> 'w server \<Rightarrow> reply \<times> 'w server" where
  "handleReceiptTest decodeImage n now meth theme s =
     (if meth \<noteq> MethodPost then (notAllowed, s)
      else let addr = settingOf KeyPrinterAddr (svDB s) in
        if addr = '''' then (writeError 400 noPrinter, s)
        else case PrintReceipt decodeImage n addr
               (sampleReceipt now \<lparr>roTheme = theme, roHeader = None, roFooter = None\<rparr> (svDB s)) (svWorld s) of
            (Some _, w) \<Rightarrow> (cannotReach, s\<lparr>svWorld := w\<rparr>)
          | (None, w) \<Rightarrow> (writeJSON 200 BOk, s\<lparr>svWorld := w\<rparr>))"

definition maxLogoBytes :: nat where "maxLogoBytes = 2097152"

text \<open>\<open>sniff\<close> is \<^verbatim>\<open>http.DetectContentType\<close>, \<open>valid\<close> is \<^verbatim>\<open>printer.ValidImage\<close> (whether
  \<^verbatim>\<open>image.DecodeConfig\<close> succeeds), \<open>upload\<close> the request body.\<close>

definition handleLogo :: "env \<Rightarrow> (bytes \<Rightarrow> string) \<Rightarrow> (bytes \<Rightarrow> bool) \<Rightarrow> string \<Rightarrow> bytes \<Rightarrow> 'w server \<Rightarrow> reply \<times> 'w server" where
  "handleLogo e sniff valid meth upload s =
     (if meth = MethodGet then
        (case Logo (svDB s) of
           None \<Rightarrow> (writeJSON 404 BNotFound, s)
         | Some data \<Rightarrow> (writeJSON 200 (BRaw (sniff data) data), s))
      else if meth = MethodPost then
        (if maxLogoBytes < length upload then
           (writeError 400 ''That image is too big. Please use one under 2 MB.'', s)
         else if \<not> valid upload then
           (writeError 400 ''That file is not a picture we can use. Please upload a PNG or JPG.'', s)
         else case SetLogo e upload (svDB s) of
           (Inl _, D) \<Rightarrow> (writeError 500 ''Could not save the logo.'', s\<lparr>svDB := D\<rparr>)
         | (Inr _, D) \<Rightarrow> (writeJSON 200 BOk, s\<lparr>svDB := D\<rparr>))
      else (notAllowed, s))"

definition handleLogoDelete :: "env \<Rightarrow> string \<Rightarrow> 'w server \<Rightarrow> reply \<times> 'w server" where
  "handleLogoDelete e meth s =
     (if meth \<noteq> MethodPost then (notAllowed, s)
      else case DeleteLogo e (svDB s) of
        (Inl _, D) \<Rightarrow> (writeError 500 ''Could not remove the logo.'', s\<lparr>svDB := D\<rparr>)
      | (Inr _, D) \<Rightarrow> (writeJSON 200 BOk, s\<lparr>svDB := D\<rparr>))"

end
