(* ===== verification/Web_Api.thy ===== *)
theory Web_Api
  imports Web_Server
begin

text \<open>
  The handlers of \<^verbatim>\<open>internal/web\<close> over the store and the sync controller: catalogue,
  settings, selling, reading sales back, and cloud sync.
\<close>

section \<open>Fields of a product\<close>

text \<open>A \<^verbatim>\<open>json.RawMessage\<close>: a string, an integer literal, a Boolean, or anything else. Unmarshalling
  a value of the wrong type, out of range, or missing leaves the target as it was; the error
  is ignored.\<close>

datatype rawJSON = RawString string | RawInt int | RawBool bool | RawOther

fun unmarshalString :: "rawJSON option \<Rightarrow> string \<Rightarrow> string" where
  "unmarshalString (Some (RawString v)) cur = v"
| "unmarshalString _ cur = cur"

fun unmarshalInt64 :: "rawJSON option \<Rightarrow> int \<Rightarrow> int" where
  "unmarshalInt64 (Some (RawInt n)) cur = (if fits64 n then n else cur)"
| "unmarshalInt64 _ cur = cur"

fun unmarshalInt :: "rawJSON option \<Rightarrow> int \<Rightarrow> int" where
  "unmarshalInt (Some (RawInt n)) cur = (if fitsI n then n else cur)"
| "unmarshalInt _ cur = cur"

fun unmarshalBool :: "rawJSON option \<Rightarrow> bool \<Rightarrow> bool" where
  "unmarshalBool (Some (RawBool v)) cur = v"
| "unmarshalBool _ cur = cur"

definition draftFromFields :: "(string \<rightharpoonup> rawJSON) \<Rightarrow> reply + ProductDraft" where
  "draftFromFields raw =
     (let d = \<lparr>dName = unmarshalString (raw ''name'') '''', dPriceCents = unmarshalInt64 (raw ''priceCents'') 0,
               dBarcode = unmarshalString (raw ''barcode'') '''', dTrackStock = unmarshalBool (raw ''trackStock'') False,
               dStock = unmarshalInt (raw ''stock'') 0, dTaxable = unmarshalBool (raw ''taxable'') True\<rparr> in
      if dName d = '''' \<or> dPriceCents d < 0 then Inl (writeError 400 ''Please enter a name and a price.'')
      else
        let d1 = (if dStock d < 0 then d\<lparr>dStock := 0\<rparr> else d);
            d2 = (if \<not> dTrackStock d1 then d1\<lparr>dStock := 0\<rparr> else d1)
        in Inr d2)"

definition decodeDraft :: "(string \<rightharpoonup> rawJSON) option \<Rightarrow> reply + ProductDraft" where
  "decodeDraft body = (case body of
     None \<Rightarrow> Inl (writeError 400 ''Could not read the item.'')
   | Some raw \<Rightarrow> draftFromFields raw)"

section \<open>Catalogue\<close>

definition noItem :: reply where
  "noItem = writeError 400 ''No item was selected.''"

definition sentence :: "err \<Rightarrow> string" where
  "sentence x = capitalize (errText x) @ ''.''"

definition handleProducts :: "env \<Rightarrow> string \<Rightarrow> (string \<rightharpoonup> rawJSON) option \<Rightarrow> 'w server \<Rightarrow> reply \<times> 'w server" where
  "handleProducts e meth body s =
     (if meth = MethodGet then
        (case Products (svDB s) of
           Inl _ \<Rightarrow> (writeError 500 ''Could not load your items.'', s)
         | Inr ps \<Rightarrow> (writeJSON 200 (BProducts ps), s))
      else if meth = MethodPost then
        (case decodeDraft body of
           Inl r \<Rightarrow> (r, s)
         | Inr draft \<Rightarrow> (case AddProduct e draft (svDB s) of
             (Inl x, D) \<Rightarrow> (writeError 400 (''Could not save the item. '' @ capitalize (errText x)), s\<lparr>svDB := D\<rparr>)
           | (Inr p, D) \<Rightarrow> (writeJSON 200 (BProduct p), nudgeSync (s\<lparr>svDB := D\<rparr>))))
      else (notAllowed, s))"

definition handleProductUpdate :: "env \<Rightarrow> string \<Rightarrow> (string \<rightharpoonup> rawJSON) option \<Rightarrow> 'w server \<Rightarrow> reply \<times> 'w server" where
  "handleProductUpdate e meth body s =
     (if meth \<noteq> MethodPost then (notAllowed, s)
      else case body of
        None \<Rightarrow> (writeError 400 ''Could not read the item.'', s)
      | Some raw \<Rightarrow>
          let i = unmarshalString (raw ''id'') '''' in
          if i = '''' then (noItem, s)
          else case draftFromFields raw of
            Inl r \<Rightarrow> (r, s)
          | Inr draft \<Rightarrow> (case UpdateProduct e i draft (svDB s) of
              (Inl x, D) \<Rightarrow> (writeError 400 (sentence x), s\<lparr>svDB := D\<rparr>)
            | (Inr p, D) \<Rightarrow> (writeJSON 200 (BProduct p), nudgeSync (s\<lparr>svDB := D\<rparr>))))"

definition handleProductDelete :: "env \<Rightarrow> string \<Rightarrow> string option \<Rightarrow> 'w server \<Rightarrow> reply \<times> 'w server" where
  "handleProductDelete e meth body s =
     (if meth \<noteq> MethodPost then (notAllowed, s)
      else if body = None \<or> body = Some '''' then (noItem, s)
      else case DeleteProduct e (the body) (svDB s) of
        (Inl x, D) \<Rightarrow> (writeError 400 (sentence x), s\<lparr>svDB := D\<rparr>)
      | (Inr _, D) \<Rightarrow> (writeJSON 200 BOk, nudgeSync (s\<lparr>svDB := D\<rparr>)))"

definition handleProductRestock :: "env \<Rightarrow> string \<Rightarrow> (string \<times> int) option \<Rightarrow> 'w server \<Rightarrow> reply \<times> 'w server" where
  "handleProductRestock e meth body s =
     (if meth \<noteq> MethodPost then (notAllowed, s)
      else case body of
        None \<Rightarrow> (noItem, s)
      | Some (i, qty) \<Rightarrow>
          if i = '''' then (noItem, s)
          else if qty = 0 then (writeError 400 ''Enter how many to add.'', s)
          else case Restock e i qty (svDB s) of
            (Inl x, D) \<Rightarrow> (writeError 400 (sentence x), s\<lparr>svDB := D\<rparr>)
          | (Inr p, D) \<Rightarrow> (writeJSON 200 (BProduct p), nudgeSync (s\<lparr>svDB := D\<rparr>)))"

section \<open>Settings\<close>

definition allowedSettings :: "string list" where
  "allowedSettings = [KeyShopName, KeyPaperWidth, KeyPrinterAddr, KeyScanner, KeyReceiptTheme,
     KeyHeaderLine, KeyFooter, KeyTaxRateBps, KeyTaxMode]"

text \<open>The two checks before anything is saved; \<open>Some\<close> is the refusal.\<close>

definition rateRefused :: "(string \<rightharpoonup> string) \<Rightarrow> bool" where
  "rateRefused body = (case body KeyTaxRateBps of None \<Rightarrow> False
     | Some v \<Rightarrow> (case atoi v of (n, ok) \<Rightarrow> \<not> ok \<or> n < 0))"

definition modeRefused :: "(string \<rightharpoonup> string) \<Rightarrow> bool" where
  "modeRefused body = (case body KeyTaxMode of None \<Rightarrow> False
     | Some v \<Rightarrow> v \<noteq> TaxModeNone \<and> v \<noteq> TaxModeInclusive \<and> v \<noteq> TaxModeExclusive)"

text \<open>The loop over the body, in whatever order Go visits the map.\<close>

fun saveSettings :: "(nat \<Rightarrow> env) \<Rightarrow> nat \<Rightarrow> (string \<times> string) list \<Rightarrow> db \<Rightarrow> (err + unit) \<times> db" where
  "saveSettings es n [] D = (Inr (), D)"
| "saveSettings es n ((k, v) # kvs) D =
     (if k \<notin> set allowedSettings then saveSettings es n kvs D
      else case SetSetting (es n) k v D of
        (Inl x, D1) \<Rightarrow> (Inl x, D1)
      | (Inr _, D1) \<Rightarrow> saveSettings es (n + 1) kvs D1)"

definition handleSettings :: "(nat \<Rightarrow> env) \<Rightarrow> string \<Rightarrow> (string \<times> string) list option \<Rightarrow> 'w server \<Rightarrow> reply \<times> 'w server" where
  "handleSettings es meth body s =
     (if meth = MethodGet then (writeJSON 200 (BSettings (Settings (svDB s))), s)
      else if meth = MethodPost then
        (case body of
           None \<Rightarrow> (writeError 400 ''Could not read the settings.'', s)
         | Some kvs \<Rightarrow>
             if rateRefused (map_of kvs) then
               (writeError 400 ''Tax rate must be a whole number of basis points, for example 1600 for 16%.'', s)
             else if modeRefused (map_of kvs) then
               (writeError 400 ''Tax mode must be none, inclusive, or exclusive.'', s)
             else case saveSettings es 0 kvs (svDB s) of
               (Inl _, D) \<Rightarrow> (writeError 500 ''Could not save your settings.'', s\<lparr>svDB := D\<rparr>)
             | (Inr _, D) \<Rightarrow> (writeJSON 200 BOk, nudgeSync (s\<lparr>svDB := D\<rparr>)))
      else (notAllowed, s))"

section \<open>Selling\<close>

record saleBody =
  sbItems :: "(string \<times> int) list"
  sbPaidCents :: int
  sbPaymentMethod :: string
  sbReference :: string
  sbPrint :: "bool option"

definition saleInput :: "saleBody \<Rightarrow> SaleInput" where
  "saleInput b = \<lparr>inLines = map (\<lambda>(i, q). \<lparr>lnProductID = i, lnQty = q\<rparr>) (sbItems b),
     inPaidCents = sbPaidCents b, inPaymentMethod = sbPaymentMethod b, inReference = sbReference b\<rparr>"

definition handleSales :: "(bytes \<Rightarrow> image option) \<Rightarrow> 'w net \<Rightarrow> env \<Rightarrow> string \<Rightarrow> saleBody option \<Rightarrow> 'w server \<Rightarrow> reply \<times> 'w server" where
  "handleSales decodeImage n e meth body s =
     (if meth \<noteq> MethodPost then (notAllowed, s)
      else case body of
        None \<Rightarrow> (writeError 400 ''Your cart is empty.'', s)
      | Some b \<Rightarrow>
          if sbItems b = [] then (writeError 400 ''Your cart is empty.'', s)
          else case CreateSale e (saleInput b) (svDB s) of
            (Inl _, D) \<Rightarrow> (writeError 400 ''Could not complete the sale. Please check the amount paid.'', s\<lparr>svDB := D\<rparr>)
          | (Inr sale, D) \<Rightarrow>
              let s1 = nudgeSync (s\<lparr>svDB := D\<rparr>) in
              if sbPrint b = None \<or> sbPrint b = Some True then
                (case printSale decodeImage n sale s1 of
                   ((printed, msg), s2) \<Rightarrow> (writeJSON 200 (BSale sale printed msg), s2))
              else (writeJSON 200 (BSale sale False ''''), s1))"

definition handleSalesToday :: "gotime \<Rightarrow> 'w server \<Rightarrow> reply" where
  "handleSalesToday now s = (case SalesSince (startOfDay now) (svDB s) of
     Inl _ \<Rightarrow> writeError 500 (''Could not load today'' @ [CHR 0x27] @ ''s sales.'')
   | Inr sales \<Rightarrow> writeJSON 200 (BSales sales (foldl (\<lambda>t sale. wrap64 (t + saTotalCents sale)) 0 sales)))"

definition handleAnalytics :: "gotime \<Rightarrow> 'w server \<Rightarrow> reply" where
  "handleAnalytics now s = (case AnalyticsAt now (svDB s) of
     Inl _ \<Rightarrow> writeError 500 ''Could not load your sales summary.''
   | Inr a \<Rightarrow> writeJSON 200 (BAnalytics a))"

definition handleReprint :: "(bytes \<Rightarrow> image option) \<Rightarrow> 'w net \<Rightarrow> string \<Rightarrow> string option \<Rightarrow> 'w server \<Rightarrow> reply \<times> 'w server" where
  "handleReprint decodeImage n meth body s =
     (if meth \<noteq> MethodPost then (notAllowed, s)
      else if body = None \<or> body = Some '''' then (writeError 400 ''No sale was selected.'', s)
      else case SaleByID (the body) (svDB s) of
        Inr (Some sale) \<Rightarrow> (case printSale decodeImage n sale s of
           ((printed, msg), s1) \<Rightarrow> (if \<not> printed then writeError 502 msg else writeJSON 200 BOk, s1))
      | _ \<Rightarrow> (writeError 404 ''That sale could not be found.'', s))"

definition handleConfig :: reply where
  "handleConfig = writeJSON 200 (BConfig ''local''
     [(''printing'', True), (''scanner'', True), (''deviceSync'', True), (''salesSearch'', True),
      (''restock'', True), (''exports'', True)])"

section \<open>Search\<close>

record searchRequest =
  sqReference :: string
  sqItemName :: string
  sqPaymentMethod :: string
  sqStart :: string
  sqEnd :: string
  sqMinCents :: int
  sqMaxCents :: int
  sqLimit :: int

definition criteriaOf :: "(string \<Rightarrow> gotime option) \<Rightarrow> searchRequest \<Rightarrow> SearchCriteria" where
  "criteriaOf rfc3339 b =
     \<lparr>scReference = sqReference b, scItemName = sqItemName b, scPaymentMethod = sqPaymentMethod b,
      scStart = orZero (parseSearchTime rfc3339 (sqStart b) False),
      scEnd = orZero (parseSearchTime rfc3339 (sqEnd b) True),
      scMinCents = sqMinCents b, scMaxCents = sqMaxCents b, scLimit = sqLimit b\<rparr>"

definition webSearchCap :: int where "webSearchCap = 500"

definition handleSalesSearch :: "(string \<Rightarrow> string) \<Rightarrow> (string \<Rightarrow> gotime option) \<Rightarrow> string \<Rightarrow> searchRequest option \<Rightarrow> 'w server \<Rightarrow> reply" where
  "handleSalesSearch lower rfc3339 meth body s =
     (if meth \<noteq> MethodPost then notAllowed
      else case body of
        None \<Rightarrow> writeError 400 ''Could not read the search.''
      | Some b \<Rightarrow>
          let c = criteriaOf rfc3339 b in
          case SearchSales lower c (svDB s) of
            Inl _ \<Rightarrow> writeError 500 ''Could not run the search.''
          | Inr sales \<Rightarrow>
              let limit = (if scLimit c \<le> 0 then webSearchCap else scLimit c) in
              writeJSON 200 (BFound sales (int (length sales) = limit)))"

section \<open>Cloud sync\<close>

definition writeSyncStatus :: "'w server \<Rightarrow> reply" where
  "writeSyncStatus s = (case svSync s of
     None \<Rightarrow> writeJSON 200 BSyncOff
   | Some c \<Rightarrow> (case StatusOf boltLink c (svDB s) of
       Inl _ \<Rightarrow> writeError 500 ''Could not read the sync status.''
     | Inr st \<Rightarrow> writeJSON 200 (BSync (svCloudURL s) st)))"

record linkBody =
  lbBaseURL :: string
  lbEmail :: string
  lbPassword :: string

definition noSync :: reply where
  "noSync = writeError 400 ''Cloud sync is not available on this device.''"

definition handleSyncLink :: "'w transport \<Rightarrow> env \<Rightarrow> cycle \<Rightarrow> string \<Rightarrow> linkBody option \<Rightarrow> 'w server \<Rightarrow> reply \<times> 'w server" where
  "handleSyncLink tr e cy meth body s =
     (if meth \<noteq> MethodPost then (notAllowed, s)
      else case svSync s of
        None \<Rightarrow> (noSync, s)
      | Some c \<Rightarrow> (case body of
          None \<Rightarrow> (writeError 400 ''Could not read your details.'', s)
        | Some b \<Rightarrow>
            let base0 = trimSpace (lbBaseURL b);
                base = (if base0 = '''' then svCloudURL s else base0) in
            if trimSpace (lbEmail b) = '''' \<or> lbPassword b = '''' then
              (writeError 400 ''Please enter your email and password.'', s)
            else if base = '''' then (writeError 500 ''Cloud sync is not set up on this device.'', s)
            else case ctlLink boltLink tr e cy base (trimSpace (lbEmail b)) (lbPassword b) c (svDB s) (svWorld s) of
              (err, c', D, w) \<Rightarrow>
                let s1 = s\<lparr>svDB := D, svSync := Some c', svWorld := w\<rparr> in
                (case err of
                   Some x \<Rightarrow> (writeError 400 (capitalize (syncErrText x) @ ''.''), s1)
                 | None \<Rightarrow> (writeSyncStatus s1, s1))))"

definition handleSyncNow :: "'w transport \<Rightarrow> cycle \<Rightarrow> string \<Rightarrow> 'w server \<Rightarrow> reply \<times> 'w server" where
  "handleSyncNow tr cy meth s =
     (if meth \<noteq> MethodPost then (notAllowed, s)
      else case svSync s of
        None \<Rightarrow> (noSync, s)
      | Some c \<Rightarrow> (case ctlSync boltLink tr cy c (svDB s) (svWorld s) of
          (err, c', D, w) \<Rightarrow>
            let s1 = s\<lparr>svDB := D, svSync := Some c', svWorld := w\<rparr> in
            (case err of
               None \<Rightarrow> (writeSyncStatus s1, s1)
             | Some x \<Rightarrow>
                 if IsOffline (Some x) then
                   (writeError 502 ''You appear to be offline. Your changes are saved on this device and will sync when you reconnect.'', s1)
                 else (writeError 502 (capitalize (syncErrText x) @ ''.''), s1))))"

definition handleSyncUnlink :: "env \<Rightarrow> string \<Rightarrow> 'w server \<Rightarrow> reply \<times> 'w server" where
  "handleSyncUnlink e meth s =
     (if meth \<noteq> MethodPost then (notAllowed, s)
      else case svSync s of
        None \<Rightarrow> (writeSyncStatus s, s)
      | Some c \<Rightarrow> (case ctlUnlink boltLink e (svDB s) of
          (Inl _, D) \<Rightarrow> (writeError 500 ''Could not unlink.'', s\<lparr>svDB := D\<rparr>)
        | (Inr _, D) \<Rightarrow> (writeSyncStatus (s\<lparr>svDB := D\<rparr>), s\<lparr>svDB := D\<rparr>)))"

end
