(* ===== verification/Web_Mux.thy ===== *)
theory Web_Mux
  imports Web_Api Xlsx Pdf
begin

text \<open>
  The export handlers of \<^verbatim>\<open>export.go\<close> and the routes of \<^verbatim>\<open>New\<close>: \<open>serve\<close> sends a request to its
  handler. What the process draws from outside while it serves one request is the record
  \<open>outside\<close>.
\<close>

section \<open>Exports\<close>

definition attach :: "string \<Rightarrow> string \<Rightarrow> string \<Rightarrow> reply" where
  "attach filename contentType content = writeJSON 200 (BFile filename contentType content)"

definition xlsxType :: string where
  "xlsxType = ''application/vnd.openxmlformats-officedocument.spreadsheetml.sheet''"

definition writeExport :: "(string \<Rightarrow> string) \<Rightarrow> ((string \<times> string) list \<Rightarrow> bytes) \<Rightarrow> gotime \<Rightarrow> string \<Rightarrow> exportTable \<Rightarrow> reply" where
  "writeExport lower zipWriter now formatText t =
     (let format = lower formatText; stamp = formatDate now in
      if format = ''xlsx'' then attach (etBase t @ ''-'' @ stamp @ ''.xlsx'') xlsxType (writeXLSX zipWriter t)
      else if format = ''pdf'' then attach (etBase t @ ''-'' @ stamp @ ''.pdf'') ''application/pdf'' (writePDF now t)
      else attach (etBase t @ ''-'' @ stamp @ ''.csv'') ''text/csv; charset=utf-8'' (writeCSV t))"

record exportQuery =
  eqFrom :: string
  eqTo :: string
  eqFormat :: string

definition handleSalesExport :: "(string \<Rightarrow> string) \<Rightarrow> ((string \<times> string) list \<Rightarrow> bytes) \<Rightarrow> (string \<Rightarrow> gotime option) \<Rightarrow>
    (int \<Rightarrow> int) \<Rightarrow> gotime \<Rightarrow> string \<Rightarrow> exportQuery \<Rightarrow> 'w server \<Rightarrow> reply" where
  "handleSalesExport lower zipWriter rfc3339 loc now meth q s =
     (if meth \<noteq> MethodGet then notAllowed
      else case exportRange rfc3339 (eqFrom q) (eqTo q) of (from, to) \<Rightarrow>
        (case ledger from to (svDB s) of
           Inl _ \<Rightarrow> writeError 500 ''Could not gather your sales.''
         | Inr rows \<Rightarrow> writeExport lower zipWriter now (eqFormat q) (salesTable loc rows)))"

definition handleAuditExport :: "(string \<Rightarrow> string) \<Rightarrow> ((string \<times> string) list \<Rightarrow> bytes) \<Rightarrow> (string \<Rightarrow> gotime option) \<Rightarrow>
    (int \<Rightarrow> int) \<Rightarrow> gotime \<Rightarrow> string \<Rightarrow> exportQuery \<Rightarrow> 'w server \<Rightarrow> reply" where
  "handleAuditExport lower zipWriter rfc3339 loc now meth q s =
     (if meth \<noteq> MethodGet then notAllowed
      else case exportRange rfc3339 (eqFrom q) (eqTo q) of (from, to) \<Rightarrow>
        (case Audit from to (svDB s) of
           Inl _ \<Rightarrow> writeError 500 ''Could not gather your activity log.''
         | Inr entries \<Rightarrow> writeExport lower zipWriter now (eqFormat q) (auditTable loc entries)))"

section \<open>Routes\<close>

datatype request =
    RqConfig
  | RqScan
  | RqTestPrint string "string option"
  | RqReceiptPreview receiptOverrides
  | RqReceiptTest string string
  | RqLogo string bytes
  | RqLogoDelete string
  | RqProducts string "(string \<rightharpoonup> rawJSON) option"
  | RqProductUpdate string "(string \<rightharpoonup> rawJSON) option"
  | RqProductDelete string "string option"
  | RqProductRestock string "(string \<times> int) option"
  | RqSettings string "(string \<times> string) list option"
  | RqSales string "saleBody option"
  | RqSalesToday
  | RqSalesSearch string "searchRequest option"
  | RqSalesExport string exportQuery
  | RqAuditExport string exportQuery
  | RqSyncStatus
  | RqSyncLink string "linkBody option"
  | RqSyncNow string
  | RqSyncUnlink string
  | RqAnalytics
  | RqReprint string "string option"

record 'w outside =
  ouEnv :: "nat \<Rightarrow> env"
  ouCycle :: cycle
  ouNow :: gotime
  ouNet :: "'w net"
  ouTransport :: "'w transport"
  ouFound :: "Device list option"
  ouDecode :: "bytes \<Rightarrow> image option"
  ouSniff :: "bytes \<Rightarrow> string"
  ouValid :: "bytes \<Rightarrow> bool"
  ouLower :: "string \<Rightarrow> string"
  ouRFC3339 :: "string \<Rightarrow> gotime option"
  ouLoc :: "int \<Rightarrow> int"
  ouZip :: "(string \<times> string) list \<Rightarrow> bytes"

fun serve :: "'w outside \<Rightarrow> request \<Rightarrow> 'w server \<Rightarrow> reply \<times> 'w server" where
  "serve o' RqConfig s = (handleConfig, s)"
| "serve o' RqScan s = (handleScan (ouFound o'), s)"
| "serve o' (RqTestPrint m b) s = handleTestPrint (ouNet o') m b s"
| "serve o' (RqReceiptPreview ov) s = (handleReceiptPreview (ouNow o') ov s, s)"
| "serve o' (RqReceiptTest m theme) s = handleReceiptTest (ouDecode o') (ouNet o') (ouNow o') m theme s"
| "serve o' (RqLogo m data) s = handleLogo (ouEnv o' 0) (ouSniff o') (ouValid o') m data s"
| "serve o' (RqLogoDelete m) s = handleLogoDelete (ouEnv o' 0) m s"
| "serve o' (RqProducts m b) s = handleProducts (ouEnv o' 0) m b s"
| "serve o' (RqProductUpdate m b) s = handleProductUpdate (ouEnv o' 0) m b s"
| "serve o' (RqProductDelete m b) s = handleProductDelete (ouEnv o' 0) m b s"
| "serve o' (RqProductRestock m b) s = handleProductRestock (ouEnv o' 0) m b s"
| "serve o' (RqSettings m b) s = handleSettings (ouEnv o') m b s"
| "serve o' (RqSales m b) s = handleSales (ouDecode o') (ouNet o') (ouEnv o' 0) m b s"
| "serve o' RqSalesToday s = (handleSalesToday (ouNow o') s, s)"
| "serve o' (RqSalesSearch m b) s = (handleSalesSearch (ouLower o') (ouRFC3339 o') m b s, s)"
| "serve o' (RqSalesExport m q) s =
     (handleSalesExport (ouLower o') (ouZip o') (ouRFC3339 o') (ouLoc o') (ouNow o') m q s, s)"
| "serve o' (RqAuditExport m q) s =
     (handleAuditExport (ouLower o') (ouZip o') (ouRFC3339 o') (ouLoc o') (ouNow o') m q s, s)"
| "serve o' RqSyncStatus s = (writeSyncStatus s, s)"
| "serve o' (RqSyncLink m b) s = handleSyncLink (ouTransport o') (ouEnv o' 0) (ouCycle o') m b s"
| "serve o' (RqSyncNow m) s = handleSyncNow (ouTransport o') (ouCycle o') m s"
| "serve o' (RqSyncUnlink m) s = handleSyncUnlink (ouEnv o' 0) m s"
| "serve o' RqAnalytics s = (handleAnalytics (ouNow o') s, s)"
| "serve o' (RqReprint m b) s = handleReprint (ouDecode o') (ouNet o') m b s"

end
