(* ===== verification/Web_Guard.thy ===== *)
theory Web_Guard
  imports Web_Mux
begin

text \<open>
  The handlers' reliance on the store, as the locale \<open>store_guard\<close>: a property of the database
  that each write of \<^verbatim>\<open>store.Local\<close> keeps is kept by every request that does not sync.
  \<open>Web_Correct\<close> interprets it for the runs of the local operations, for the tax settings and for
  the catalogue.
\<close>

section \<open>What the handlers do to the database\<close>

lemma svDB_nudge [simp]: "svDB (nudgeSync s) = svDB s"
  by (simp add: nudgeSync_def split: option.split)

lemma printSale_DB: "printSale dec n sale s = (r, s') \<Longrightarrow> svDB s' = svDB s \<and> svSync s' = svSync s"
  by (auto simp: printSale_def Let_def split: if_splits prod.splits option.splits)

lemma printed_DB:
  "handleTestPrint n m b s = (r, s') \<Longrightarrow> svDB s' = svDB s"
  "handleReceiptTest dec n now m theme s = (r, s') \<Longrightarrow> svDB s' = svDB s"
  "handleReprint dec n m b s = (r, s') \<Longrightarrow> svDB s' = svDB s"
  by (auto simp: handleTestPrint_def handleReceiptTest_def handleReprint_def Let_def dest: printSale_DB
      split: if_splits option.splits prod.splits sum.splits)

lemmas handler_splits = if_splits option.splits prod.splits sum.splits

fun isSync :: "request \<Rightarrow> bool" where
  "isSync (RqSyncLink m b) = True"
| "isSync (RqSyncNow m) = True"
| "isSync _ = False"

text \<open>A settings body that passes both checks.\<close>

definition accepted :: "(string \<times> string) list \<Rightarrow> bool" where
  "accepted kvs \<longleftrightarrow> \<not> rateRefused (map_of kvs) \<and> \<not> modeRefused (map_of kvs)"

section \<open>What every write keeps, every request keeps\<close>

locale store_guard =
  fixes keeps :: "db \<Rightarrow> bool"
    and drawn :: "env \<Rightarrow> db \<Rightarrow> bool"
    and savable :: "string \<times> string \<Rightarrow> bool"
  assumes keeps_add: "AddProduct e d D = (x, D') \<Longrightarrow> keeps D \<Longrightarrow> drawn e D \<Longrightarrow>
      draftFromFields raw = Inr d \<Longrightarrow> keeps D'"
    and keeps_update: "UpdateProduct e i d D = (x, D') \<Longrightarrow> keeps D \<Longrightarrow> drawn e D \<Longrightarrow>
      draftFromFields raw = Inr d \<Longrightarrow> keeps D'"
    and keeps_restock: "Restock e i q D = (x, D') \<Longrightarrow> keeps D \<Longrightarrow> drawn e D \<Longrightarrow> keeps D'"
    and keeps_sale: "CreateSale e inp D = (y, D') \<Longrightarrow> keeps D \<Longrightarrow> drawn e D \<Longrightarrow> keeps D'"
    and keeps_delete: "DeleteProduct e i D = (u, D') \<Longrightarrow> keeps D \<Longrightarrow> keeps D'"
    and keeps_setting: "SetSetting e k v D = (u, D') \<Longrightarrow> keeps D \<Longrightarrow> savable (k, v) \<Longrightarrow> keeps D'"
    and keeps_logo: "SetLogo e data D = (u, D') \<Longrightarrow> keeps D \<Longrightarrow> keeps D'"
    and keeps_unlogo: "DeleteLogo e D = (u, D') \<Longrightarrow> keeps D \<Longrightarrow> keeps D'"
    and keeps_unlink: "Unlink e D = (u, D') \<Longrightarrow> keeps D \<Longrightarrow> keeps D'"
begin

lemma saveSettings_keeps:
  "saveSettings es n kvs D = (r, D') \<Longrightarrow> keeps D \<Longrightarrow> list_all savable kvs \<Longrightarrow> keeps D'"
proof (induction es n kvs D rule: saveSettings.induct)
  case (2 es n k v kvs D)
  obtain x D1 where one: "SetSetting (es n) k v D = (x, D1)" by (cases "SetSetting (es n) k v D")
  then have "keeps D1" using keeps_setting [OF one 2(4)] 2(5) by simp
  with 2 one show ?case by (cases x) (auto split: if_splits)
qed simp

lemma handleSettings_keeps:
  assumes "handleSettings es m b s = (r, s')" and "keeps (svDB s)"
    and "\<And>kvs. b = Some kvs \<Longrightarrow> accepted kvs \<Longrightarrow> list_all savable kvs"
  shows "keeps (svDB s')"
  using assms by (auto simp: handleSettings_def accepted_def split: handler_splits intro: saveSettings_keeps)

lemma handleProducts_keeps:
  "handleProducts e m b s = (r, s') \<Longrightarrow> keeps (svDB s) \<Longrightarrow> drawn e (svDB s) \<Longrightarrow> keeps (svDB s')"
  by (auto simp: handleProducts_def decodeDraft_def split: handler_splits intro: keeps_add)

lemma handleProductUpdate_keeps:
  "handleProductUpdate e m b s = (r, s') \<Longrightarrow> keeps (svDB s) \<Longrightarrow> drawn e (svDB s) \<Longrightarrow> keeps (svDB s')"
  by (auto simp: handleProductUpdate_def Let_def split: handler_splits intro: keeps_update)

lemma handleProductDelete_keeps:
  "handleProductDelete e m i s = (r, s') \<Longrightarrow> keeps (svDB s) \<Longrightarrow> keeps (svDB s')"
  by (auto simp: handleProductDelete_def split: handler_splits intro: keeps_delete)

lemma handleProductRestock_keeps:
  "handleProductRestock e m iq s = (r, s') \<Longrightarrow> keeps (svDB s) \<Longrightarrow> drawn e (svDB s) \<Longrightarrow> keeps (svDB s')"
  by (auto simp: handleProductRestock_def split: handler_splits intro: keeps_restock)

lemmas catalogue_keeps = handleProducts_keeps handleProductUpdate_keeps handleProductDelete_keeps handleProductRestock_keeps

lemma handleSales_keeps:
  "handleSales dec n e m b s = (r, s') \<Longrightarrow> keeps (svDB s) \<Longrightarrow> drawn e (svDB s) \<Longrightarrow> keeps (svDB s')"
  by (auto simp: handleSales_def Let_def dest!: printSale_DB split: handler_splits intro: keeps_sale)

lemma setup_keeps:
  "handleLogo e sn va m data s = (r, s') \<Longrightarrow> keeps (svDB s) \<Longrightarrow> keeps (svDB s')"
  "handleLogoDelete e m s = (r, s') \<Longrightarrow> keeps (svDB s) \<Longrightarrow> keeps (svDB s')"
  "handleSyncUnlink e m s = (r, s') \<Longrightarrow> keeps (svDB s) \<Longrightarrow> keeps (svDB s')"
    apply (auto simp: handleLogo_def split: handler_splits intro: keeps_logo) []
   apply (auto simp: handleLogoDelete_def split: handler_splits intro: keeps_unlogo) []
  by (auto simp: handleSyncUnlink_def ctlUnlink_def split: handler_splits intro: keeps_unlink)

lemma serve_keeps:
  assumes "serve o' rq s = (r, s')" and "\<not> isSync rq" and "keeps (svDB s)" and "drawn (ouEnv o' 0) (svDB s)"
    and "\<And>m kvs. rq = RqSettings m (Some kvs) \<Longrightarrow> accepted kvs \<Longrightarrow> list_all savable kvs"
  shows "keeps (svDB s')"
  using assms
  by (cases rq) (auto dest: printed_DB catalogue_keeps handleSales_keeps setup_keeps intro: handleSettings_keeps)

end

end
