(* ===== verification/Web_Correct.thy ===== *)
theory Web_Correct
  imports Web_Guard
begin

text \<open>
  What the web API promises: a sale is kept whatever the printer does, the store stays within
  the runs of \<open>Till\<close>, tax settings stay usable, what must be pushed is nudged for, and the
  catalogue stays sellable.
\<close>

section \<open>Steps of the store\<close>

lemma api_ops:
  "AddProduct e d D = (x, D') \<Longrightarrow> freshEnv e D \<Longrightarrow> local_op D D'"
  "UpdateProduct e i d D = (x, D') \<Longrightarrow> freshEnv e D \<Longrightarrow> local_op D D'"
  "Restock e i q D = (x, D') \<Longrightarrow> freshEnv e D \<Longrightarrow> local_op D D'"
  "CreateSale e inp D = (y, D') \<Longrightarrow> freshEnv e D \<Longrightarrow> local_op D D'"
  "DeleteProduct e i D = (u, D') \<Longrightarrow> local_op D D'"
  "SetSetting e k v D = (u, D') \<Longrightarrow> local_op D D'"
  "SetLogo e data D = (u, D') \<Longrightarrow> local_op D D'"
  "DeleteLogo e D = (u, D') \<Longrightarrow> local_op D D'"
  "Unlink e D = (u, D') \<Longrightarrow> local_op D D'"
  using op_add [of e D d True] op_update [of e D i d] op_restock [of e D i q] op_sale [of e D inp]
    op_delete [of D e i] op_setting [of D e k v] op_logo [of D e data] op_unlogo [of D e] op_unlink [of D e]
  by (auto simp: AddProduct_def)

interpretation reached: store_guard "local_op\<^sup>*\<^sup>* D0" freshEnv "\<lambda>kv. True" for D0
  by unfold_locales (blast intro: rtranclp.rtrancl_into_rtrancl api_ops)+

lemma serve_local:
  assumes "serve o' rq s = (r, s')" and "\<not> isSync rq" and "freshEnv (ouEnv o' 0) (svDB s)"
  shows "local_op\<^sup>*\<^sup>* (svDB s) (svDB s')"
  using reached.serve_keeps [OF assms(1,2) _ assms(3), of "svDB s"] by (simp add: list_all_iff)

section \<open>Runs of the device\<close>

lemma local_ops_run: "local_op\<^sup>*\<^sup>* D D' \<Longrightarrow> till_step\<^sup>*\<^sup>* (D, ph, A, B) (D', ph, A, B)"
proof (induction rule: rtranclp_induct)
  case (step D1 D2)
  have "till_step (D1, ph, A, B) (D2, ph, A, B)" using step(2) by (rule st_local)
  with step(3) show ?case by (rule rtranclp.rtrancl_into_rtrancl)
qed simp

lemma ctlSync_run:
  assumes "ctlSync boltLink tr cy c D w = (err, c', D', w')" and "goodClient (httpClient tr)"
  shows "\<exists>A' B'. till_step\<^sup>*\<^sup>* (D, Idle, A, B) (D', Idle, A', B')"
proof -
  have "fst (snd (SyncOnce boltSync (httpClient tr) cy D w)) = D'"
    using assms(1) by (auto simp: ctlSync_def split: prod.splits)
  moreover have "\<And>base token c w res w'. scPull (httpClient tr) base token c w = (Inr res, w') \<Longrightarrow> pulledOK (puPulled res)"
    using goodClientD [OF assms(2)] by blast
  ultimately show ?thesis using cycle_run [of "httpClient tr" D A B cy w] by simp
qed

lemma ctlLink_run:
  assumes "ctlLink boltLink tr e cy base email password c D w = (err, c', D', w')" and "goodClient (httpClient tr)"
  shows "\<exists>A' B'. till_step\<^sup>*\<^sup>* (D, Idle, A, B) (D', Idle, A', B')"
proof (cases "clientLogin tr base email password w")
  case (Pair x w1)
  show ?thesis
  proof (cases x)
    case (Inl y)
    with Pair assms(1) show ?thesis by (auto simp: ctlLink_def)
  next
    case (Inr info)
    obtain y D1 where l: "Link e base (liShopID info) (liEmail info) (liToken info) D = (y, D1)"
      by (cases "Link e base (liShopID info) (liEmail info) (liToken info) D")
    then have "local_op D D1" using op_link [of D e base "liShopID info" "liEmail info" "liToken info"] by simp
    then have first: "till_step (D, Idle, A, B) (D1, Idle, A, B)" by (rule st_local)
    show ?thesis
    proof (cases y)
      case (Inl z)
      then have "D' = D1" using Pair Inr l assms(1) by (simp add: ctlLink_def)
      then show ?thesis using first by blast
    next
      case (Inr u)
      then have "ctlSync boltLink tr cy c D1 w1 = (err, c', D', w')"
        using Pair \<open>x = Inr info\<close> l assms(1) by (simp add: ctlLink_def)
      from ctlSync_run [OF this assms(2), of A B] first show ?thesis
        by (meson converse_rtranclp_into_rtranclp)
    qed
  qed
qed

lemma handleSyncNow_run:
  assumes "handleSyncNow tr cy m s = (r, s')" and "goodClient (httpClient tr)"
  shows "\<exists>A' B'. till_step\<^sup>*\<^sup>* (svDB s, Idle, A, B) (svDB s', Idle, A', B')"
proof (cases "m = MethodPost")
  case True
  show ?thesis
  proof (cases "svSync s")
    case (Some c)
    obtain err c' D w where run: "ctlSync boltLink tr cy c (svDB s) (svWorld s) = (err, c', D, w)"
      using prod_cases4 by blast
    then have "svDB s' = D" using assms(1) True Some
      by (auto simp: handleSyncNow_def Let_def split: option.splits if_splits)
    with ctlSync_run [OF run assms(2)] show ?thesis by simp
  qed (use assms(1) True in \<open>auto simp: handleSyncNow_def\<close>)
qed (use assms(1) in \<open>auto simp: handleSyncNow_def\<close>)

lemma handleSyncLink_run:
  assumes "handleSyncLink tr e cy m b s = (r, s')" and "goodClient (httpClient tr)"
  shows "\<exists>A' B'. till_step\<^sup>*\<^sup>* (svDB s, Idle, A, B) (svDB s', Idle, A', B')"
proof (cases "svDB s' = svDB s")
  case False
  then obtain c b' where cb: "m = MethodPost" "svSync s = Some c" "b = Some b'"
    using assms(1) by (auto simp: handleSyncLink_def split: if_splits option.splits)
  let ?base = "if trimSpace (lbBaseURL b') = [] then svCloudURL s else trimSpace (lbBaseURL b')"
  obtain err c' D w where run: "ctlLink boltLink tr e cy ?base (trimSpace (lbEmail b')) (lbPassword b') c (svDB s) (svWorld s) =
      (err, c', D, w)" using prod_cases4 by blast
  then have "svDB s' = D" using assms(1) cb False
    by (auto simp: handleSyncLink_def Let_def split: option.splits if_splits)
  with ctlLink_run [OF run assms(2)] show ?thesis by simp
qed auto

text \<open>
  Serving any request, with any answers of printer and cloud, is a run of the device
  (\<open>till_step\<close>, from idle to idle): the store after it is reached by whole transactions of
  the local API and, for the sync requests, by the steps of a cycle. So nothing a browser
  sends can break what holds in every reachable state. (A drawn id is fresh; a pull carries
  keys the database takes.)
\<close>

theorem serve_refines:
  assumes "serve o' rq s = (r, s')" and "freshEnv (ouEnv o' 0) (svDB s)"
    and "goodClient (httpClient (ouTransport o'))"
  shows "\<exists>A' B'. till_step\<^sup>*\<^sup>* (svDB s, Idle, A, B) (svDB s', Idle, A', B')"
proof (cases "isSync rq")
  case True
  then consider m b where "rq = RqSyncLink m b" | m where "rq = RqSyncNow m" by (cases rq) auto
  then show ?thesis
  proof cases
    case 1
    with assms(1) show ?thesis using handleSyncLink_run [OF _ assms(3)] by simp
  next
    case 2
    with assms(1) show ?thesis using handleSyncNow_run [OF _ assms(3)] by simp
  qed
next
  case False
  from local_ops_run [OF serve_local [OF assms(1) False assms(2)]] show ?thesis by blast
qed

section \<open>Settings stay usable\<close>

lemma tx_settings:
  "addProductTx e d b D = Inr (p, D') \<Longrightarrow> bSettings D' = bSettings D"
  "updateProductTx e i d D = Inr (p, D') \<Longrightarrow> bSettings D' = bSettings D"
  "restockTx e i q D = Inr (p, D') \<Longrightarrow> bSettings D' = bSettings D"
  "deleteProductTx e i D = Inr D' \<Longrightarrow> bSettings D' = bSettings D"
  "createSaleTx e inp D = Inr (sl, D') \<Longrightarrow> bSettings D' = bSettings D"
  "unlinkTx D = Inr D' \<Longrightarrow> bSettings D' = bSettings D"
  by (auto simp: restockTx_eq_Inr deleteProductTx_eq_Inr createSaleTx_eq_Inr appendStockEvent_eq_Inr Let_def
      unlinkTx_def rbind_eq_Inr addProductTx_fields(11) elim: updateProductTx_fields)

lemma op_settings:
  "AddProduct e d D = (x, D') \<Longrightarrow> bSettings D' = bSettings D"
  "UpdateProduct e i d D = (x, D') \<Longrightarrow> bSettings D' = bSettings D"
  "Restock e i q D = (x, D') \<Longrightarrow> bSettings D' = bSettings D"
  "CreateSale e inp D = (y, D') \<Longrightarrow> bSettings D' = bSettings D"
  "DeleteProduct e i D = (u, D') \<Longrightarrow> bSettings D' = bSettings D"
  "Unlink e D = (u, D') \<Longrightarrow> bSettings D' = bSettings D"
  unfolding AddProduct_def addProduct_def UpdateProduct_def Restock_def CreateSale_def DeleteProduct_def Unlink_def
  by (auto elim!: dbUpdate_inv dbExec_inv intro: tx_settings split: if_splits)

text \<open>A stored rate is a whole, non-negative number and a stored mode one of the three.\<close>

definition rateText :: "string \<Rightarrow> bool" where
  "rateText v \<longleftrightarrow> snd (atoi v) \<and> 0 \<le> fst (atoi v)"

definition modeText :: "string \<Rightarrow> bool" where
  "modeText v \<longleftrightarrow> v = TaxModeNone \<or> v = TaxModeInclusive \<or> v = TaxModeExclusive"

definition pairOK :: "string \<times> string \<Rightarrow> bool" where
  "pairOK kv = (case kv of (k, v) \<Rightarrow> (k = KeyTaxRateBps \<longrightarrow> rateText v) \<and> (k = KeyTaxMode \<longrightarrow> modeText v))"

definition taxUsable :: "db \<Rightarrow> bool" where
  "taxUsable D \<longleftrightarrow> (\<forall>k v. bGet (bSettings D) k = Some v \<longrightarrow> pairOK (k, v))"

lemma taxUsable_put: "taxUsable D \<Longrightarrow> pairOK (k, v) \<Longrightarrow> bSettings D' = bput k v (bSettings D) \<Longrightarrow> taxUsable D'"
  by (auto simp: taxUsable_def split: if_splits)

lemma SetSetting_usable:
  assumes "SetSetting e k v D = (r, D')" and "taxUsable D" and "pairOK (k, v)"
  shows "taxUsable D'"
proof (rule dbExec_inv [OF assms(1) [unfolded SetSetting_def], of taxUsable])
  fix D1
  assume tx: "setSettingTx e k v D = Inr D1"
  then have "goodKey k" by (auto simp: setSettingTx_def Let_def rbind_eq_Inr bPut_eq_Inr)
  with tx have "bSettings D1 = bput k v (bSettings D)" by (auto simp: setSettingTx_eq Let_def split: if_splits)
  with assms(2,3) show "taxUsable D1" by (rule taxUsable_put)
qed (rule assms(2))

lemma bodyOK:
  assumes "distinct (map fst kvs)" and "accepted kvs"
  shows "list_all pairOK kvs"
proof -
  have "pairOK (k, v)" if "(k, v) \<in> set kvs" for k v
  proof -
    have "map_of kvs k = Some v" using assms(1) that by simp
    then show ?thesis using assms(2)
      by (auto simp: accepted_def pairOK_def rateText_def modeText_def rateRefused_def modeRefused_def split: prod.splits)
  qed
  then show ?thesis by (auto simp: list_all_iff)
qed

lemma logo_keys: "KeyHasLogo \<noteq> KeyTaxRateBps" "KeyHasLogo \<noteq> KeyTaxMode"
  by (simp_all add: setting_keys)

lemma logo_usable:
  "SetLogo e data D = (u, D') \<Longrightarrow> taxUsable D \<Longrightarrow> taxUsable D'"
  "DeleteLogo e D = (u, D') \<Longrightarrow> taxUsable D \<Longrightarrow> taxUsable D'"
proof -
  have ok: "pairOK (KeyHasLogo, v)" for v using logo_keys by (simp add: pairOK_def)
  show "taxUsable D'" if "SetLogo e data D = (u, D')" "taxUsable D"
  proof (rule dbExec_inv [OF that(1) [unfolded SetLogo_def]])
    fix D1
    assume "setLogoTx data D = Inr D1"
    then have "bSettings D1 = bput KeyHasLogo ''yes'' (bSettings D)"
      by (auto simp: setLogoTx_def rbind_eq_Inr bPut_eq_Inr)
    with that(2) ok show "taxUsable D1" by (rule taxUsable_put)
  qed (rule that(2))
  show "taxUsable D'" if "DeleteLogo e D = (u, D')" "taxUsable D"
  proof (rule dbExec_inv [OF that(1) [unfolded DeleteLogo_def]])
    fix D1
    assume "deleteLogoTx D = Inr D1"
    then have "bSettings D1 = bput KeyHasLogo ''no'' (bSettings D)"
      by (auto simp: deleteLogoTx_def rbind_eq_Inr bPut_eq_Inr)
    with that(2) ok show "taxUsable D1" by (rule taxUsable_put)
  qed (rule that(2))
qed

lemma taxUsable_same: "bSettings D' = bSettings D \<Longrightarrow> taxUsable D \<Longrightarrow> taxUsable D'"
  by (simp add: taxUsable_def)

interpretation usable: store_guard taxUsable "\<lambda>e D. True" pairOK
proof unfold_locales
  show "taxUsable D \<Longrightarrow> pairOK (k, v) \<Longrightarrow> SetSetting e k v D = (u, D') \<Longrightarrow> taxUsable D'" for D k v e u D'
    by (rule SetSetting_usable)
qed (blast intro: taxUsable_same op_settings logo_usable)+

definition oneValueEach :: "request \<Rightarrow> bool" where
  "oneValueEach rq = (case rq of RqSettings m (Some kvs) \<Rightarrow> distinct (map fst kvs) | _ \<Rightarrow> True)"

lemma usable_tax:
  assumes "taxUsable D"
  shows "0 \<le> fst (taxFromBucket D)" and "modeText (snd (taxFromBucket D))"
proof -
  have "bGet (bSettings D) KeyTaxRateBps = Some v \<Longrightarrow> 0 \<le> fst (atoi v)"
    "bGet (bSettings D) KeyTaxMode = Some v \<Longrightarrow> modeText v" for v
    using assms by (auto simp: taxUsable_def pairOK_def rateText_def)
  then show "0 \<le> fst (taxFromBucket D)" "modeText (snd (taxFromBucket D))"
    by (auto simp: taxFromBucket_def modeText_def split: option.split)
qed

text \<open>
  C9. Whatever requests the till serves, the stored tax settings stay usable: a stored rate is
  a whole, non-negative number and a stored mode one of the three, so the rate and mode every
  later sale reads are a non-negative rate and one of the three modes. (Settings pulled from
  the cloud are not checked by the agent, so the two sync requests are set aside; a JSON
  object has each key once.)
\<close>

theorem settings_stay_usable:
  assumes "serve o' rq s = (r, s')" and "\<not> isSync rq" and "oneValueEach rq" and "taxUsable (svDB s)"
  shows "taxUsable (svDB s') \<and> 0 \<le> fst (taxFromBucket (svDB s')) \<and>
     snd (taxFromBucket (svDB s')) \<in> {TaxModeNone, TaxModeInclusive, TaxModeExclusive}"
proof -
  have "taxUsable (svDB s')"
    by (rule usable.serve_keeps [OF assms(1,2,4) TrueI]) (use assms(3) in \<open>auto simp: oneValueEach_def intro: bodyOK\<close>)
  with usable_tax [OF this] show ?thesis by (auto simp: modeText_def)
qed

section \<open>A sale is kept whatever the printer does\<close>

lemma nudge_sync: "svSync (nudgeSync s) = map_option Nudge (svSync s)"
  by (simp add: nudgeSync_def split: option.split)

lemma nudge_fields [simp]: "svWorld (nudgeSync s) = svWorld s" "svCloudURL (nudgeSync s) = svCloudURL s"
  by (simp_all add: nudgeSync_def split: option.split)

lemma printSale_result:
  assumes "printSale dec n sale s = ((printed, msg), s')"
  shows "svDB s' = svDB s \<and> svSync s' = svSync s \<and>
     (if settingOf KeyPrinterAddr (svDB s) = [] then \<not> printed \<and> svWorld s' = svWorld s
      else (\<exists>err. SendRaw n (settingOf KeyPrinterAddr (svDB s)) (RenderReceipt dec (saleReceipt (svDB s) sale)) (svWorld s)
              = (err, svWorld s') \<and> (printed \<longleftrightarrow> err = None)))"
  using assms by (auto simp: printSale_def PrintReceipt_def Let_def split: if_splits prod.splits option.splits)

lemma CreateSale_stored:
  assumes "CreateSale e inp D = (Inr sale, D')"
  shows "SaleByID (saID sale) D' = Inr (Some sale) \<and> saID sale \<in> fst ` set (bPendingSale D')"
proof -
  have tx: "createSaleTx e inp D = Inr (sale, D')" using assms by (simp add: CreateSale_def dbUpdate_eq_Inr)
  then have s: "saID sale = eRowID e" "bSales D' = bput (eRowID e) (Json sale) (bSales D)"
    "bPendingSale D' = bput (eRowID e) [] (bPendingSale D)"
    by (auto simp: createSaleTx_eq_Inr saleOf_def)
  then have "map_of (bPendingSale D') (saID sale) = Some []" by simp
  then have "(saID sale, []) \<in> set (bPendingSale D')" by (rule map_of_SomeD)
  then show ?thesis using s by (force simp: SaleByID_def)
qed

text \<open>
  C3. A sale rung up at the till is kept whatever the printer does. When the store refuses it,
  nothing changes and nothing is printed. Otherwise the reply is the sale: it is stored,
  found by its id, queued for the push and the sync is nudged, whether or not a printer is
  set, reachable or asked for; the printer gets exactly the receipt of that sale, and
  \<open>printed\<close> says whether the whole send succeeded.
\<close>

theorem sale_kept:
  assumes "handleSales dec n e MethodPost (Some b) s = (r, s')" and "sbItems b \<noteq> []"
  shows "case CreateSale e (saleInput b) (svDB s) of
     (Inl x, D) \<Rightarrow> s' = s \<and> hrStatus r = 400
   | (Inr sale, D) \<Rightarrow>
       hrStatus r = 200 \<and> svDB s' = D \<and> svSync s' = map_option Nudge (svSync s) \<and>
       SaleByID (saID sale) D = Inr (Some sale) \<and> saID sale \<in> fst ` set (bPendingSale D) \<and>
       (\<exists>printed msg. hrBody r = BSale sale printed msg \<and>
         (if sbPrint b = Some False \<or> settingOf KeyPrinterAddr D = '''' then \<not> printed \<and> svWorld s' = svWorld s
          else \<exists>err. SendRaw n (settingOf KeyPrinterAddr D) (RenderReceipt dec (saleReceipt D sale)) (svWorld s)
                 = (err, svWorld s') \<and> (printed \<longleftrightarrow> err = None)))"
proof (cases "CreateSale e (saleInput b) (svDB s)")
  case (Pair x D)
  show ?thesis
  proof (cases x)
    case (Inl err)
    then have "D = svDB s" using Pair by (simp add: CreateSale_def) (blast dest: dbUpdate_err)
    then show ?thesis using assms Pair Inl by (auto simp: handleSales_def writeError_def writeJSON_def)
  next
    case (Inr sale)
    let ?s1 = "nudgeSync (s\<lparr>svDB := D\<rparr>)"
    have stored: "SaleByID (saID sale) D = Inr (Some sale) \<and> saID sale \<in> fst ` set (bPendingSale D)"
      using CreateSale_stored Pair Inr by blast
    show ?thesis
    proof (cases "sbPrint b = Some False")
      case True
      then have "s' = ?s1" "r = writeJSON 200 (BSale sale False [])"
        using assms Pair Inr by (auto simp: handleSales_def Let_def)
      then show ?thesis using Pair Inr True stored
        by (simp add: writeJSON_def nudge_sync) (rule exI [of _ False], simp)
    next
      case False
      then have want: "sbPrint b = None \<or> sbPrint b = Some True" by (cases "sbPrint b") auto
      obtain printed msg s2 where p: "printSale dec n sale ?s1 = ((printed, msg), s2)" by (metis prod.exhaust)
      then have "s' = s2" "r = writeJSON 200 (BSale sale printed msg)"
        using assms Pair Inr want by (auto simp: handleSales_def Let_def)
      moreover have "svDB (s\<lparr>svDB := D\<rparr>) = D" "svWorld (s\<lparr>svDB := D\<rparr>) = svWorld s" "svSync (s\<lparr>svDB := D\<rparr>) = svSync s"
        by simp_all
      note result = printSale_result [OF p, unfolded svDB_nudge nudge_fields nudge_sync this]
      ultimately show ?thesis using result Pair Inr False stored
        by (simp add: writeJSON_def nudge_sync)
    qed
  qed
qed

section \<open>What must be pushed is nudged for\<close>

definition due :: "db \<Rightarrow> bytes bucket \<times> bytes bucket \<times> bytes bucket \<times> stext option" where
  "due D = (bPendingProd D, bPendingSale D, bPendingStock D, bGet (bSyncState D) kSettingsDue)"

lemma putAll_other:
  "putAll kvs b = Inr b' \<Longrightarrow> k \<notin> fst ` set kvs \<Longrightarrow> bGet b' k = bGet b k"
proof (induction kvs arbitrary: b)
  case (Cons kv kvs)
  obtain k' v where kv: "kv = (k', v)" by (cases kv)
  with Cons.prems obtain b1 where b1: "b1 = bput k' v b" "putAll kvs b1 = Inr b'"
    by (auto simp: putAll_def rbind_eq_Inr bPut_eq_Inr)
  then have "bGet b' k = bGet b1 k" using Cons.prems(2) by (intro Cons.IH) auto
  then show ?case using Cons.prems(2) b1(1) kv by auto
qed (simp add: putAll_def)

lemma op_due:
  "SetLogo e data D = (u, D') \<Longrightarrow> due D' = due D"
  "DeleteLogo e D = (u, D') \<Longrightarrow> due D' = due D"
  "Unlink e D = (u, D') \<Longrightarrow> due D' = due D"
proof -
  show "due D' = due D" if "SetLogo e data D = (u, D')"
    by (rule dbExec_inv [OF that [unfolded SetLogo_def]]) (auto simp: due_def setLogoTx_def rbind_eq_Inr)
  show "due D' = due D" if "DeleteLogo e D = (u, D')"
    by (rule dbExec_inv [OF that [unfolded DeleteLogo_def]]) (auto simp: due_def deleteLogoTx_def rbind_eq_Inr)
  have keys: "kSettingsDue \<notin> fst ` set (map (\<lambda>k. (k, Text [])) [kLinked, kBaseURL, kShopID, kEmail, kToken, kCursor, kLastError])"
    by (simp add: sync_keys)
  show "due D' = due D" if "Unlink e D = (u, D')"
    by (rule dbExec_inv [OF that [unfolded Unlink_def]])
      (auto simp: due_def unlinkTx_def rbind_eq_Inr dest!: putAll_other [OF _ keys] simp del: list.map)
qed

lemma handler_due:
  "handleLogo e sn va m data s = (r, s') \<Longrightarrow> due (svDB s') = due (svDB s)"
  "handleLogoDelete e m s = (r, s') \<Longrightarrow> due (svDB s') = due (svDB s)"
  "handleSyncUnlink e m s = (r, s') \<Longrightarrow> due (svDB s') = due (svDB s)"
  by (auto simp: handleLogo_def handleLogoDelete_def handleSyncUnlink_def ctlUnlink_def
      split: if_splits option.splits prod.splits sum.splits intro: op_due)

lemma handler_nudges:
  "handleProducts e m b s = (r, s') \<Longrightarrow> hrStatus r = 200 \<Longrightarrow> s' = s \<or> svSync s' = map_option Nudge (svSync s)"
  "handleProductUpdate e m b s = (r, s') \<Longrightarrow> hrStatus r = 200 \<Longrightarrow> svSync s' = map_option Nudge (svSync s)"
  "handleProductDelete e m i s = (r, s') \<Longrightarrow> hrStatus r = 200 \<Longrightarrow> svSync s' = map_option Nudge (svSync s)"
  "handleProductRestock e m iq s = (r, s') \<Longrightarrow> hrStatus r = 200 \<Longrightarrow> svSync s' = map_option Nudge (svSync s)"
  "handleSettings es m kb s = (r, s') \<Longrightarrow> hrStatus r = 200 \<Longrightarrow> s' = s \<or> svSync s' = map_option Nudge (svSync s)"
  "handleSales dec n e m sb s = (r, s') \<Longrightarrow> hrStatus r = 200 \<Longrightarrow> svSync s' = map_option Nudge (svSync s)"
  by (auto simp: handleProducts_def handleProductUpdate_def handleProductDelete_def handleProductRestock_def
      handleSettings_def handleSales_def decodeDraft_def draftFromFields_def Let_def writeError_def writeJSON_def
      notAllowed_def noItem_def nudge_sync dest!: printSale_DB
      split: if_splits option.splits prod.splits sum.splits)

text \<open>
  C10. What a request leaves to be pushed is nudged for. If a request is answered with success
  and the outbox or the settings mark is not what it was, the controller has been nudged; and
  with \<open>nudge_never_lost\<close> a sync that sees the change follows. (The requests that sync
  themselves are set aside.)
\<close>

theorem changes_nudged:
  assumes "serve o' rq s = (r, s')" and "\<not> isSync rq" and "hrStatus r = 200" and "due (svDB s') \<noteq> due (svDB s)"
  shows "svSync s' = map_option Nudge (svSync s)"
  using assms
  by (cases rq) (auto dest: printed_DB handler_due handler_nudges)

section \<open>Products stay well formed\<close>

text \<open>A name, and a price that is a 64-bit amount and not negative.\<close>

definition sellable :: "Product \<Rightarrow> bool" where
  "sellable p \<longleftrightarrow> pName p \<noteq> [] \<and> 0 \<le> pPriceCents p \<and> fits64 (pPriceCents p)"

definition catalogueOK :: "db \<Rightarrow> bool" where
  "catalogueOK D \<longleftrightarrow> (\<forall>k p. bGet (bProducts D) k = Some (Json p) \<longrightarrow> sellable p)"

lemma draft_valid:
  assumes "draftFromFields raw = Inr d"
  shows "dName d \<noteq> []" "0 \<le> dPriceCents d" "fits64 (dPriceCents d)" "0 \<le> dStock d" "\<not> dTrackStock d \<longrightarrow> dStock d = 0"
proof -
  have "fits64 (unmarshalInt64 v 0)" for v by (induction v "0::int" rule: unmarshalInt64.induct) (auto simp: fits64_def)
  then show "dName d \<noteq> []" "0 \<le> dPriceCents d" "fits64 (dPriceCents d)" "0 \<le> dStock d" "\<not> dTrackStock d \<longrightarrow> dStock d = 0"
    using assms by (auto simp: draftFromFields_def Let_def split: if_splits)
qed

lemma catalogueOK_put:
  "catalogueOK D \<Longrightarrow> sellable p \<Longrightarrow> bProducts D' = bput k (Json p) (bProducts D) \<Longrightarrow> catalogueOK D'"
  by (auto simp: catalogueOK_def split: if_splits)

lemma catalogueOK_same: "bProducts D' = bProducts D \<Longrightarrow> catalogueOK D \<Longrightarrow> catalogueOK D'"
  by (simp add: catalogueOK_def)

lemma addProduct_catalogueOK:
  assumes "AddProduct e d D = (x, D')" and "catalogueOK D" and "dName d \<noteq> []" "0 \<le> dPriceCents d" "fits64 (dPriceCents d)"
  shows "catalogueOK D'"
proof (rule dbUpdate_inv [OF assms(1) [unfolded AddProduct_def addProduct_def], of catalogueOK])
  fix p D1
  assume tx: "addProductTx e d True D = Inr (p, D1)"
  have "sellable p" using assms(3-5) by (simp add: addProductTx_fields(1) [OF tx] sellable_def draftProduct_def)
  with assms(2) show "catalogueOK D1" using addProductTx_fields(5) [OF tx] by (rule catalogueOK_put)
qed (rule assms(2))

lemma updateProduct_catalogueOK:
  assumes "UpdateProduct e i d D = (x, D')" and "catalogueOK D" and "dName d \<noteq> []" "0 \<le> dPriceCents d" "fits64 (dPriceCents d)"
  shows "catalogueOK D'"
proof (rule dbUpdate_inv [OF assms(1) [unfolded UpdateProduct_def], of catalogueOK])
  fix p' D1
  assume tx: "updateProductTx e i d D = Inr (p', D1)"
  obtain p where "bProducts D1 = bput i (Json (editedProduct e d p)) (bProducts D)"
    using updateProductTx_fields [OF tx] by blast
  moreover have "sellable (editedProduct e d p)" using assms(3-5) by (simp add: sellable_def editedProduct_def)
  ultimately show "catalogueOK D1" using assms(2) catalogueOK_put by blast
qed (rule assms(2))

lemma draft_catalogueOK:
  "draftFromFields raw = Inr d \<Longrightarrow> AddProduct e d D = (x, D') \<Longrightarrow> catalogueOK D \<Longrightarrow> catalogueOK D'"
  "draftFromFields raw = Inr d \<Longrightarrow> UpdateProduct e i d D = (x, D') \<Longrightarrow> catalogueOK D \<Longrightarrow> catalogueOK D'"
  using addProduct_catalogueOK updateProduct_catalogueOK draft_valid(1-3) by blast+

lemma deleteProduct_catalogueOK:
  assumes "DeleteProduct e i D = (u, D')" and "catalogueOK D"
  shows "catalogueOK D'"
proof (rule dbExec_inv [OF assms(1) [unfolded DeleteProduct_def], of catalogueOK])
  fix D1
  assume "deleteProductTx e i D = Inr D1"
  then obtain p where p: "bGet (bProducts D) i = Some (Json p)"
    and b: "bProducts D1 = bput i (Json (p\<lparr>pActive := False, pDeletedAt := Some (eNow e), pUpdatedAt := eNow e\<rparr>)) (bProducts D)"
    by (auto simp: deleteProductTx_eq_Inr)
  have "sellable (p\<lparr>pActive := False, pDeletedAt := Some (eNow e), pUpdatedAt := eNow e\<rparr>)"
    using assms(2) p by (auto simp: catalogueOK_def sellable_def)
  with assms(2) b show "catalogueOK D1" by (blast intro: catalogueOK_put)
qed (rule assms(2))

lemma op_products:
  "Restock e i q D = (x, D') \<Longrightarrow> bProducts D' = bProducts D"
  "CreateSale e inp D = (y, D') \<Longrightarrow> bProducts D' = bProducts D"
  "SetSetting e k v D = (u, D') \<Longrightarrow> bProducts D' = bProducts D"
  "SetLogo e data D = (u, D') \<Longrightarrow> bProducts D' = bProducts D"
  "DeleteLogo e D = (u, D') \<Longrightarrow> bProducts D' = bProducts D"
  "Unlink e D = (u, D') \<Longrightarrow> bProducts D' = bProducts D"
proof -
  show "bProducts D' = bProducts D" if "SetSetting e k v D = (u, D')"
  proof (rule dbExec_inv [OF that [unfolded SetSetting_def]])
    fix D1
    assume tx: "setSettingTx e k v D = Inr D1"
    then have "goodKey k" by (auto simp: setSettingTx_def Let_def rbind_eq_Inr bPut_eq_Inr)
    with tx show "bProducts D1 = bProducts D" by (auto simp: setSettingTx_eq Let_def split: if_splits)
  qed simp
qed (auto simp: Restock_def CreateSale_def SetLogo_def DeleteLogo_def Unlink_def restockTx_eq_Inr createSaleTx_eq_Inr
      appendStockEvent_eq_Inr setLogoTx_def deleteLogoTx_def unlinkTx_def rbind_eq_Inr Let_def
      elim!: dbUpdate_inv dbExec_inv split: if_splits)

interpretation catalogue: store_guard catalogueOK "\<lambda>e D. True" "\<lambda>kv. True"
  by unfold_locales (blast intro: draft_catalogueOK deleteProduct_catalogueOK catalogueOK_same op_products)+

text \<open>
  C11. Every product the till's own requests can put into the catalogue is sellable: it has a
  name and a price that is a 64-bit amount and not negative. No request breaks that,
  whatever its fields hold: a missing, mistyped or out-of-range price reads as zero. (The two
  sync requests take products from the cloud as they come.)
\<close>

theorem products_stay_sellable:
  assumes "serve o' rq s = (r, s')" and "\<not> isSync rq" and "catalogueOK (svDB s)"
  shows "catalogueOK (svDB s')"
  by (rule catalogue.serve_keeps [OF assms(1-3) TrueI]) (simp add: list_all_iff)

section \<open>A sale at the example till\<close>

definition demoBody :: saleBody where
  "demoBody = \<lparr>sbItems = [(''p'', 3)], sbPaidCents = 20000, sbPaymentMethod = ''mpesa'', sbReference = ''QX1'', sbPrint = None\<rparr>"

definition demoServer :: "nat server" where
  "demoServer = \<lparr>svDB = demoShop, svSync = Some NewController, svCloudURL = [], svWorld = 0\<rparr>"

text \<open>The printer is off: dialling fails.\<close>

definition demoOutside :: "nat outside" where
  "demoOutside = \<lparr>ouEnv = (\<lambda>_. demoEnv 3), ouCycle = \<lparr>cyClear = demoEnv 5, cyApply = demoEnv 6, cyCursor = demoEnv 7,
       cyResult = demoEnv 8\<rparr>, ouNow = demoTime 9,
     ouNet = \<lparr>ntDial = (\<lambda>a w. (Some ''no route'', w + 1)), ntWrite = (\<lambda>a b w. (None, w))\<rparr>,
     ouTransport = deadTransport, ouFound = None, ouDecode = (\<lambda>_. None), ouSniff = (\<lambda>_. ''text/plain''),
     ouValid = (\<lambda>_. True), ouLower = id, ouRFC3339 = (\<lambda>_. None), ouLoc = (\<lambda>_. 0), ouZip = (\<lambda>_. [])\<rparr>"

abbreviation demoRequest :: request where
  "demoRequest \<equiv> RqSales MethodPost (Some demoBody)"

lemma demo_parts [simp]:
  "svDB demoServer = demoShop" "svSync demoServer = Some NewController" "ouEnv demoOutside n = demoEnv 3"
  "ouTransport demoOutside = deadTransport" "sbItems demoBody = [(''p'', 3)]" "saleInput demoBody = demoSale"
  by (simp_all add: demoServer_def demoOutside_def demoBody_def saleInput_def demoSale_def)

lemma demo_sale: "\<exists>D. CreateSale (demoEnv 3) demoSale demoShop = (Inr (saleOf (demoEnv 3) demoSale demoShop), D) \<and>
    bPendingSale D = [(demoID ''row'' 3, [])]"
  by (simp add: CreateSale_def dbUpdate_eq_Inr createSaleTx_eq_Inr)

theorem sale_kept_witness:
  "\<exists>sale D r s'. CreateSale (demoEnv 3) demoSale demoShop = (Inr sale, D) \<and>
     handleSales (ouDecode demoOutside) (ouNet demoOutside) (demoEnv 3) MethodPost (Some demoBody) demoServer = (r, s') \<and>
     hrStatus r = 200 \<and> svDB s' = D \<and> svSync s' = Some (Nudge NewController)"
proof -
  obtain D where cs: "CreateSale (demoEnv 3) demoSale demoShop = (Inr (saleOf (demoEnv 3) demoSale demoShop), D)"
    using demo_sale by blast
  obtain r s' where run: "handleSales (ouDecode demoOutside) (ouNet demoOutside) (demoEnv 3) MethodPost (Some demoBody) demoServer = (r, s')"
    by (metis prod.exhaust)
  from sale_kept [OF run] have "hrStatus r = 200 \<and> svDB s' = D \<and> svSync s' = Some (Nudge NewController)"
    by (simp add: cs)
  with cs run show ?thesis by blast
qed

lemma demo_served:
  obtains r s' where "serve demoOutside demoRequest demoServer = (r, s')" and "hrStatus r = 200"
    and "bPendingSale (svDB s') = [(demoID ''row'' 3, [])]"
proof -
  obtain D where cs: "CreateSale (demoEnv 3) demoSale demoShop = (Inr (saleOf (demoEnv 3) demoSale demoShop), D)"
    and q: "bPendingSale D = [(demoID ''row'' 3, [])]" using demo_sale by blast
  let ?s1 = "nudgeSync (demoServer\<lparr>svDB := D\<rparr>)"
  obtain p m s' where p: "printSale (ouDecode demoOutside) (ouNet demoOutside) (saleOf (demoEnv 3) demoSale demoShop) ?s1 = ((p, m), s')"
    by (metis prod.exhaust)
  have "serve demoOutside demoRequest demoServer = (writeJSON 200 (BSale (saleOf (demoEnv 3) demoSale demoShop) p m), s')"
    using p by (simp add: handleSales_def cs Let_def) (simp add: demoBody_def)
  moreover have "bPendingSale (svDB s') = [(demoID ''row'' 3, [])]" using printSale_DB [OF p] q by simp
  ultimately show ?thesis using that by (simp add: writeJSON_def)
qed

theorem serve_refines_witness:
  "\<exists>A' B'. till_step\<^sup>*\<^sup>* (demoShop, Idle, {}, {}) (svDB (snd (serve demoOutside demoRequest demoServer)), Idle, A', B')"
proof -
  have "goodClient (httpClient (ouTransport demoOutside))"
    by (simp add: goodClient_def httpClient_def deadTransport_def clientPull_def post_def)
  moreover have "freshEnv (ouEnv demoOutside 0) (svDB demoServer)"
    by (simp add: freshEnv_def)
  moreover have "serve demoOutside demoRequest demoServer =
      (fst (serve demoOutside demoRequest demoServer), snd (serve demoOutside demoRequest demoServer))" by simp
  ultimately show ?thesis using serve_refines [of demoOutside demoRequest demoServer] demo_parts(1) by metis
qed

theorem settings_stay_usable_witness:
  "0 \<le> fst (taxFromBucket (svDB (snd (serve demoOutside (RqSettings MethodPost (Some [(KeyTaxRateBps, ''1600'')])) demoServer))))"
proof -
  have "taxUsable (svDB demoServer)" by (simp add: taxUsable_def)
  moreover have "oneValueEach (RqSettings MethodPost (Some [(KeyTaxRateBps, ''1600'')]))" by (simp add: oneValueEach_def)
  moreover have "\<not> isSync (RqSettings MethodPost (Some [(KeyTaxRateBps, ''1600'')]))" by simp
  ultimately show ?thesis using settings_stay_usable [OF prod.collapse [symmetric]] by blast
qed

theorem changes_nudged_witness:
  "svSync (snd (serve demoOutside demoRequest demoServer)) = Some (Nudge NewController)"
proof -
  obtain r s' where run: "serve demoOutside demoRequest demoServer = (r, s')" "hrStatus r = 200"
    "bPendingSale (svDB s') = [(demoID ''row'' 3, [])]" by (rule demo_served)
  then have "due (svDB s') \<noteq> due (svDB demoServer)" by (simp add: due_def)
  with changes_nudged [OF run(1) _ run(2)] run(1) show ?thesis by simp
qed

theorem products_stay_sellable_witness:
  "catalogueOK (svDB (snd (serve demoOutside demoRequest demoServer)))"
proof -
  have "sellable demoProduct" by (simp add: sellable_def fits64_def)
  then have "catalogueOK (svDB demoServer)" by (simp add: catalogueOK_def)
  moreover have "\<not> isSync demoRequest" by simp
  ultimately show ?thesis using products_stay_sellable [OF prod.collapse [symmetric]] by blast
qed

end
