(* ===== verification/Serving.thy ===== *)
theory Serving
  imports Web_Correct
begin

text \<open>
  Requests in flight at the same time. \<^verbatim>\<open>net/http\<close> runs every handler of \<^verbatim>\<open>server.go\<close> in a
  goroutine of its own, over one store and one sync controller. \<open>task_step\<close> splits the handlers
  that touch the shared state more than once at those accesses: \<^verbatim>\<open>handleSettings\<close> commits one
  transaction per key, \<^verbatim>\<open>handleSales\<close> records, nudges and then prints, \<^verbatim>\<open>handleReprint\<close> and
  \<^verbatim>\<open>printSale\<close> read the sale, the settings and the logo one after the other and send last. A
  handler of one transaction is one step with its nudge. \<open>pool_step\<close> runs any number of
  tasks and the sync cycle (\<open>till_step\<close>), interleaved at will; requests for a sync are such
  cycles. \<open>task_runs\<close> shows that a request alone gives what \<open>serve\<close> gives.
\<close>

section \<open>A request in flight\<close>

datatype printFor = NewSale | Reprint

definition printReply :: "printFor \<Rightarrow> Sale \<Rightarrow> bool \<Rightarrow> string \<Rightarrow> reply" where
  "printReply f sale printed msg = (case f of
     NewSale \<Rightarrow> writeJSON 200 (BSale sale printed msg)
   | Reprint \<Rightarrow> if \<not> printed then writeError 502 msg else writeJSON 200 BOk)"

text \<open>\<open>Saving o n kvs\<close> is the loop of \<^verbatim>\<open>handleSettings\<close> with \<open>n\<close> transactions done.\<close>

datatype 'w task =
    Arrived "'w outside" request
  | Saving "'w outside" nat "(string \<times> string) list"
  | Sold "'w outside" "bool option" Sale
  | ToPrint "'w outside" printFor Sale
  | Composing "'w outside" printFor Sale string ReceiptData
  | Sending "'w outside" printFor Sale string ReceiptData
  | Replied reply

text \<open>The requests that take more than one step.\<close>

fun inSteps :: "request \<Rightarrow> bool" where
  "inSteps (RqSales m (Some b)) \<longleftrightarrow> m = MethodPost \<and> sbItems b \<noteq> []"
| "inSteps (RqSettings m (Some kvs)) \<longleftrightarrow> m = MethodPost \<and> accepted kvs"
| "inSteps (RqReprint m (Some i)) \<longleftrightarrow> m = MethodPost \<and> i \<noteq> ''''"
| "inSteps _ \<longleftrightarrow> False"

inductive task_step :: "'w server \<times> 'w task \<Rightarrow> 'w server \<times> 'w task \<Rightarrow> bool" where
  ts_whole: "\<not> isSync rq \<Longrightarrow> \<not> inSteps rq \<Longrightarrow> serve o' rq s = (r, s') \<Longrightarrow> task_step (s, Arrived o' rq) (s', Replied r)"
| ts_sale: "sbItems b \<noteq> [] \<Longrightarrow> CreateSale (ouEnv o' 0) (saleInput b) (svDB s) = (Inr sale, D) \<Longrightarrow>
    task_step (s, Arrived o' (RqSales MethodPost (Some b))) (s\<lparr>svDB := D\<rparr>, Sold o' (sbPrint b) sale)"
| ts_sale_refused: "sbItems b \<noteq> [] \<Longrightarrow> CreateSale (ouEnv o' 0) (saleInput b) (svDB s) = (Inl x, D) \<Longrightarrow>
    task_step (s, Arrived o' (RqSales MethodPost (Some b)))
      (s\<lparr>svDB := D\<rparr>, Replied (writeError 400 ''Could not complete the sale. Please check the amount paid.''))"
| ts_nudge_print: "wants \<noteq> Some False \<Longrightarrow> task_step (s, Sold o' wants sale) (nudgeSync s, ToPrint o' NewSale sale)"
| ts_nudge: "task_step (s, Sold o' (Some False) sale) (nudgeSync s, Replied (writeJSON 200 (BSale sale False '''')))"
| ts_reprint: "i \<noteq> '''' \<Longrightarrow> SaleByID i (svDB s) = Inr (Some sale) \<Longrightarrow>
    task_step (s, Arrived o' (RqReprint MethodPost (Some i))) (s, ToPrint o' Reprint sale)"
| ts_reprint_none: "i \<noteq> '''' \<Longrightarrow> \<forall>sale. SaleByID i (svDB s) \<noteq> Inr (Some sale) \<Longrightarrow>
    task_step (s, Arrived o' (RqReprint MethodPost (Some i))) (s, Replied (writeError 404 ''That sale could not be found.''))"
| ts_no_printer: "settingOf KeyPrinterAddr (svDB s) = '''' \<Longrightarrow>
    task_step (s, ToPrint o' f sale) (s, Replied (printReply f sale False noPrinter))"
| ts_settings: "settingOf KeyPrinterAddr (svDB s) = addr \<Longrightarrow> addr \<noteq> '''' \<Longrightarrow>
    task_step (s, ToPrint o' f sale) (s, Composing o' f sale addr (saleReceipt (svDB s) sale))"
| ts_logo: "task_step (s, Composing o' f sale addr d) (s, Sending o' f sale addr (d\<lparr>rdLogo := logoOf (svDB s)\<rparr>))"
| ts_printed: "PrintReceipt (ouDecode o') (ouNet o') addr d (svWorld s) = (None, w) \<Longrightarrow>
    task_step (s, Sending o' f sale addr d) (s\<lparr>svWorld := w\<rparr>, Replied (printReply f sale True ''''))"
| ts_not_printed: "PrintReceipt (ouDecode o') (ouNet o') addr d (svWorld s) = (Some err, w) \<Longrightarrow>
    task_step (s, Sending o' f sale addr d) (s\<lparr>svWorld := w\<rparr>, Replied (printReply f sale False notPrinted))"
| ts_saving: "accepted kvs \<Longrightarrow> task_step (s, Arrived o' (RqSettings MethodPost (Some kvs))) (s, Saving o' 0 kvs)"
| ts_unknown_key: "k \<notin> set allowedSettings \<Longrightarrow> task_step (s, Saving o' n ((k, v) # kvs)) (s, Saving o' n kvs)"
| ts_key: "k \<in> set allowedSettings \<Longrightarrow> SetSetting (ouEnv o' n) k v (svDB s) = (Inr u, D) \<Longrightarrow>
    task_step (s, Saving o' n ((k, v) # kvs)) (s\<lparr>svDB := D\<rparr>, Saving o' (n + 1) kvs)"
| ts_key_err: "k \<in> set allowedSettings \<Longrightarrow> SetSetting (ouEnv o' n) k v (svDB s) = (Inl x, D) \<Longrightarrow>
    task_step (s, Saving o' n ((k, v) # kvs)) (s\<lparr>svDB := D\<rparr>, Replied (writeError 500 ''Could not save your settings.''))"
| ts_saved: "task_step (s, Saving o' n []) (nudgeSync s, Replied (writeJSON 200 BOk))"

inductive_cases task_arrivedE: "task_step (s, Arrived o' rq) c"
inductive_cases task_repliedE: "task_step (s, Replied r) c"

section \<open>The tasks and the sync cycle\<close>

text \<open>A product, sale or event a handler creates gets an id that is not in use (\<^verbatim>\<open>newID\<close>).\<close>

fun drawsFresh :: "'w task \<Rightarrow> db \<Rightarrow> bool" where
  "drawsFresh (Arrived o' rq) D \<longleftrightarrow> freshEnv (ouEnv o' 0) D"
| "drawsFresh _ D \<longleftrightarrow> True"

type_synonym 'w pool = "'w server \<times> 'w task list \<times> phase \<times> Sale set \<times> StockEvent set"

inductive pool_step :: "'w pool \<Rightarrow> 'w pool \<Rightarrow> bool" where
  ps_arrive: "\<not> isSync rq \<Longrightarrow> pool_step (s, ts, ph, A, B) (s, ts @ [Arrived o' rq], ph, A, B)"
| ps_task: "i < length ts \<Longrightarrow> drawsFresh (ts ! i) (svDB s) \<Longrightarrow> task_step (s, ts ! i) (s', t) \<Longrightarrow>
    pool_step (s, ts, ph, A, B) (s', ts[i := t], ph, A, B)"
| ps_sync: "till_step (svDB s, ph, A, B) (D, ph', A', B') \<Longrightarrow>
    pool_step (s, ts, ph, A, B) (s\<lparr>svDB := D\<rparr>, ts, ph', A', B')"
| ps_controller: "pool_step (s, ts, ph, A, B) (s\<lparr>svSync := map_option (\<lambda>c. c') (svSync s)\<rparr>, ts, ph, A, B)"

section \<open>A request alone\<close>

text \<open>The settings loop in steps, and how it ends.\<close>

definition saveEnd :: "'w server \<Rightarrow> err + unit \<Rightarrow> db \<Rightarrow> 'w server \<times> 'w task" where
  "saveEnd s x D = (case x of
     Inl _ \<Rightarrow> (s\<lparr>svDB := D\<rparr>, Replied (writeError 500 ''Could not save your settings.''))
   | Inr _ \<Rightarrow> (nudgeSync (s\<lparr>svDB := D\<rparr>), Replied (writeJSON 200 BOk)))"

lemma saveEnd_DB [simp]: "saveEnd (s\<lparr>svDB := D1\<rparr>) x D = saveEnd s x D"
  by (cases x) (simp_all add: saveEnd_def)

lemma saving_runs:
  "saveSettings (ouEnv o') n kvs (svDB s) = (x, D) \<Longrightarrow> task_step\<^sup>*\<^sup>* (s, Saving o' n kvs) (saveEnd s x D)"
proof (induction kvs arbitrary: n s)
  case Nil
  then show ?case using ts_saved [of s o' n] by (auto simp: saveEnd_def)
next
  case (Cons kv kvs)
  obtain k v where kv: "kv = (k, v)" by (cases kv)
  show ?case
  proof (cases "k \<in> set allowedSettings")
    case False
    with Cons.prems kv have "saveSettings (ouEnv o') n kvs (svDB s) = (x, D)" by simp
    from converse_rtranclp_into_rtranclp [OF ts_unknown_key [OF False] Cons.IH [OF this]] show ?thesis
      by (simp add: kv)
  next
    case True
    obtain y D1 where one: "SetSetting (ouEnv o' n) k v (svDB s) = (y, D1)" by (metis prod.exhaust)
    show ?thesis
    proof (cases y)
      case (Inl e)
      then have "x = Inl e" "D = D1" using Cons.prems True one kv by auto
      with ts_key_err [OF True one [unfolded Inl], of kvs] show ?thesis by (auto simp: kv saveEnd_def)
    next
      case (Inr u)
      then have "saveSettings (ouEnv o') (n + 1) kvs (svDB (s\<lparr>svDB := D1\<rparr>)) = (x, D)"
        using Cons.prems True one kv by simp
      from converse_rtranclp_into_rtranclp [OF ts_key [OF True one [unfolded Inr]] Cons.IH [OF this]] show ?thesis
        by (simp add: kv)
    qed
  qed
qed

lemma printing_runs:
  assumes "printSale (ouDecode o') (ouNet o') sale s = ((p, m), s')"
  shows "task_step\<^sup>*\<^sup>* (s, ToPrint o' f sale) (s', Replied (printReply f sale p m))"
proof (cases "settingOf KeyPrinterAddr (svDB s) = ''''")
  case True
  then have "p = False" "m = noPrinter" "s' = s" using assms by (auto simp: printSale_def Let_def)
  then show ?thesis using ts_no_printer [OF True, of o' f sale] by auto
next
  case False
  let ?addr = "settingOf KeyPrinterAddr (svDB s)" and ?d = "saleReceipt (svDB s) sale"
  obtain err w where sent: "PrintReceipt (ouDecode o') (ouNet o') ?addr ?d (svWorld s) = (err, w)" by (metis prod.exhaust)
  have d: "?d\<lparr>rdLogo := logoOf (svDB s)\<rparr> = ?d" by (simp add: saleReceipt_def)
  have "task_step (s, ToPrint o' f sale) (s, Composing o' f sale ?addr ?d)" using False by (intro ts_settings) simp_all
  moreover have "task_step (s, Composing o' f sale ?addr ?d) (s, Sending o' f sale ?addr ?d)"
    using ts_logo [of s o' f sale ?addr ?d] unfolding d .
  moreover have "task_step (s, Sending o' f sale ?addr ?d) (s', Replied (printReply f sale p m))"
  proof (cases err)
    case None
    then have "p = True" "m = ''''" "s' = s\<lparr>svWorld := w\<rparr>" using assms False sent by (auto simp: printSale_def Let_def)
    then show ?thesis using ts_printed [OF sent [unfolded None]] by simp
  next
    case (Some e)
    then have "p = False" "m = notPrinted" "s' = s\<lparr>svWorld := w\<rparr>" using assms False sent by (auto simp: printSale_def Let_def)
    then show ?thesis using ts_not_printed [OF sent [unfolded Some]] by simp
  qed
  ultimately show ?thesis by (meson converse_rtranclp_into_rtranclp r_into_rtranclp)
qed

lemma sale_runs:
  assumes "handleSales (ouDecode o') (ouNet o') (ouEnv o' 0) MethodPost (Some b) s = (r, s')" and "sbItems b \<noteq> []"
  shows "task_step\<^sup>*\<^sup>* (s, Arrived o' (RqSales MethodPost (Some b))) (s', Replied r)"
proof -
  obtain y D where sale: "CreateSale (ouEnv o' 0) (saleInput b) (svDB s) = (y, D)" by (metis prod.exhaust)
  show ?thesis
  proof (cases y)
    case (Inl x)
    with assms sale have "r = writeError 400 ''Could not complete the sale. Please check the amount paid.''"
      "s' = s\<lparr>svDB := D\<rparr>" by (auto simp: handleSales_def)
    then show ?thesis using ts_sale_refused [OF assms(2) sale [unfolded Inl]] by simp
  next
    case (Inr sl)
    let ?s1 = "nudgeSync (s\<lparr>svDB := D\<rparr>)"
    note first = ts_sale [OF assms(2) sale [unfolded Inr], THEN converse_rtranclp_into_rtranclp [of task_step]]
    show ?thesis
    proof (cases "sbPrint b = Some False")
      case True
      with assms sale Inr have "r = writeJSON 200 (BSale sl False [])" "s' = ?s1"
        by (auto simp: handleSales_def Let_def)
      then show ?thesis using ts_nudge [of "s\<lparr>svDB := D\<rparr>" o' sl] first [of "(s', Replied r)"] True by auto
    next
      case False
      then have want: "sbPrint b = None \<or> sbPrint b = Some True" by (cases "sbPrint b") auto
      obtain p m s2 where p: "printSale (ouDecode o') (ouNet o') sl ?s1 = ((p, m), s2)" by (metis prod.exhaust)
      then have "r = printReply NewSale sl p m" "s' = s2"
        using assms sale Inr want by (auto simp: handleSales_def Let_def printReply_def)
      then have "task_step\<^sup>*\<^sup>* (?s1, ToPrint o' NewSale sl) (s', Replied r)" using printing_runs [OF p] by simp
      from first [OF converse_rtranclp_into_rtranclp [OF ts_nudge_print [OF False] this]] show ?thesis .
    qed
  qed
qed

lemma reprint_runs:
  assumes "handleReprint (ouDecode o') (ouNet o') MethodPost (Some i) s = (r, s')" and "i \<noteq> ''''"
  shows "task_step\<^sup>*\<^sup>* (s, Arrived o' (RqReprint MethodPost (Some i))) (s', Replied r)"
proof (cases "\<exists>sale. SaleByID i (svDB s) = Inr (Some sale)")
  case True
  then obtain sale where sale: "SaleByID i (svDB s) = Inr (Some sale)" ..
  obtain p m s2 where p: "printSale (ouDecode o') (ouNet o') sale s = ((p, m), s2)" by (metis prod.exhaust)
  have "r = printReply Reprint sale p m" "s' = s2"
    using assms sale p by (auto simp: handleReprint_def printReply_def)
  then have "task_step\<^sup>*\<^sup>* (s, ToPrint o' Reprint sale) (s', Replied r)" using printing_runs [OF p] by simp
  from converse_rtranclp_into_rtranclp [OF ts_reprint [OF assms(2) sale] this] show ?thesis .
next
  case False
  then have none: "\<forall>sale. SaleByID i (svDB s) \<noteq> Inr (Some sale)" by simp
  then have "r = writeError 404 ''That sale could not be found.''" "s' = s"
    using assms by (auto simp: handleReprint_def split: sum.splits option.splits)
  then show ?thesis using ts_reprint_none [OF assms(2) none, of o'] by auto
qed

lemma settings_runs:
  assumes "handleSettings (ouEnv o') MethodPost (Some kvs) s = (r, s')" and "accepted kvs"
  shows "task_step\<^sup>*\<^sup>* (s, Arrived o' (RqSettings MethodPost (Some kvs))) (s', Replied r)"
proof -
  obtain x D where run: "saveSettings (ouEnv o') 0 kvs (svDB s) = (x, D)" by (metis prod.exhaust)
  have "(s', Replied r) = saveEnd s x D"
    using assms run
    by (auto simp: handleSettings_def accepted_def MethodGet_def MethodPost_def saveEnd_def split: sum.splits)
  with converse_rtranclp_into_rtranclp [OF ts_saving [OF assms(2)] saving_runs [OF run]] show ?thesis by (simp only:)
qed

lemma task_runs:
  assumes "\<not> isSync rq" and "serve o' rq s = (r, s')"
  shows "task_step\<^sup>*\<^sup>* (s, Arrived o' rq) (s', Replied r)"
proof (cases "inSteps rq")
  case False
  then show ?thesis using ts_whole [OF assms(1) False assms(2)] by blast
next
  case True
  then show ?thesis using assms(2)
    by (cases rq rule: inSteps.cases) (auto intro: sale_runs reprint_runs settings_runs)
qed

lemma task_step_det: "task_step c c1 \<Longrightarrow> task_step c c2 \<Longrightarrow> c1 = c2"
proof (induction rule: task_step.induct)
  case (ts_whole rq o' s r s')
  from ts_whole.prems ts_whole.hyps show ?case by (elim task_arrivedE) auto
next
  case (ts_reprint_none i s o')
  from ts_reprint_none.prems ts_reprint_none.hyps show ?case by (elim task_arrivedE) auto
qed (erule task_step.cases; auto)+

lemma task_replied: "task_step\<^sup>*\<^sup>* (s, Replied r) c \<Longrightarrow> c = (s, Replied r)"
  by (erule converse_rtranclpE) (auto elim: task_repliedE)

lemma task_confluent:
  "task_step\<^sup>*\<^sup>* c (s1, Replied r1) \<Longrightarrow> task_step\<^sup>*\<^sup>* c (s2, Replied r2) \<Longrightarrow> (s1, Replied r1) = (s2, Replied r2)"
proof (induction rule: converse_rtranclp_induct)
  case base
  then show ?case using task_replied [OF base] by simp
next
  case (step c d)
  from step(4) show ?case
  proof (cases rule: converse_rtranclpE)
    case base
    then show ?thesis using step(1) by (auto elim: task_repliedE)
  next
    case (step e)
    then have "e = d" using task_step_det [OF \<open>task_step c d\<close>] by metis
    with step \<open>task_step\<^sup>*\<^sup>* c (s2, Replied r2) \<close> show ?thesis using step.IH by blast
  qed
qed

text \<open>Split into steps and run alone, a request is what its handler says.\<close>

theorem task_alone:
  assumes "\<not> isSync rq"
  shows "task_step\<^sup>*\<^sup>* (s, Arrived o' rq) (s', Replied r) \<longleftrightarrow> serve o' rq s = (r, s')"
proof
  assume run: "task_step\<^sup>*\<^sup>* (s, Arrived o' rq) (s', Replied r)"
  obtain r2 s2 where "serve o' rq s = (r2, s2)" by (metis prod.exhaust)
  with task_confluent [OF run task_runs [OF assms this]] show "serve o' rq s = (r, s')" by simp
qed (rule task_runs [OF assms])

section \<open>Sales stay through every interleaving\<close>

fun owns :: "'w task \<Rightarrow> Sale option" where
  "owns (Sold o' wants sale) = Some sale"
| "owns (ToPrint o' NewSale sale) = Some sale"
| "owns (Composing o' NewSale sale addr d) = Some sale"
| "owns (Sending o' NewSale sale addr d) = Some sale"
| "owns (Replied r) = (case hrBody r of BSale sale printed msg \<Rightarrow> Some sale | _ \<Rightarrow> None)"
| "owns _ = None"

definition saleKept :: "db \<Rightarrow> 'w task \<Rightarrow> bool" where
  "saleKept D t \<longleftrightarrow> (\<forall>sale. owns t = Some sale \<longrightarrow> bGet (bSales D) (saID sale) = Some (Json sale))"

lemma saleKept_keeps: "saleKept D t \<Longrightarrow> keepsRows D D' \<Longrightarrow> saleKept D' t"
  by (auto simp: saleKept_def keepsRows_def)

text \<open>Only a recorded sale is answered with a sale.\<close>

lemmas reply_defs = writeJSON_def writeError_def notAllowed_def cannotReach_def noSync_def noItem_def

lemma draft_replies:
  "draftFromFields raw = Inl r \<Longrightarrow> hrBody r \<noteq> BSale sale p m"
  "decodeDraft f = Inl r \<Longrightarrow> hrBody r \<noteq> BSale sale p m"
proof -
  show form: "draftFromFields raw = Inl r \<Longrightarrow> hrBody r \<noteq> BSale sale p m" for raw
    by (auto simp: draftFromFields_def reply_defs Let_def split: if_splits)
  show "decodeDraft f = Inl r \<Longrightarrow> hrBody r \<noteq> BSale sale p m"
    by (cases f) (auto simp: decodeDraft_def reply_defs dest: form)
qed

lemma setup_replies:
  "hrBody (handleScan found) \<noteq> BSale sale p m"
  "hrBody handleConfig \<noteq> BSale sale p m"
  "hrBody (fst (handleTestPrint n meth b s)) \<noteq> BSale sale p m"
  "hrBody (handleReceiptPreview now ov s) \<noteq> BSale sale p m"
  "hrBody (fst (handleReceiptTest dec n now meth theme s)) \<noteq> BSale sale p m"
  "hrBody (fst (handleLogo e sn va meth data s)) \<noteq> BSale sale p m"
  "hrBody (fst (handleLogoDelete e meth s)) \<noteq> BSale sale p m"
  "hrBody (fst (handleSettings es meth kvs s)) \<noteq> BSale sale p m"
  by (simp_all add: handleScan_def handleConfig_def handleTestPrint_def handleReceiptPreview_def handleReceiptTest_def
      handleLogo_def handleLogoDelete_def handleSettings_def reply_defs Let_def split: handler_splits)

lemma product_replies:
  "hrBody (fst (handleProducts e meth f s)) \<noteq> BSale sale p m"
  "hrBody (fst (handleProductUpdate e meth f s)) \<noteq> BSale sale p m"
  "hrBody (fst (handleProductDelete e meth i s)) \<noteq> BSale sale p m"
  "hrBody (fst (handleProductRestock e meth iq s)) \<noteq> BSale sale p m"
  by (auto simp: handleProducts_def handleProductUpdate_def handleProductDelete_def handleProductRestock_def
      reply_defs Let_def split: handler_splits dest: draft_replies)

lemma report_replies:
  "hrBody (handleSalesToday now s) \<noteq> BSale sale p m"
  "hrBody (handleSalesSearch lower rfc meth q s) \<noteq> BSale sale p m"
  "hrBody (handleSalesExport lower zw rfc loc now meth eq s) \<noteq> BSale sale p m"
  "hrBody (handleAuditExport lower zw rfc loc now meth eq s) \<noteq> BSale sale p m"
  "hrBody (handleAnalytics now s) \<noteq> BSale sale p m"
  "hrBody (writeSyncStatus s) \<noteq> BSale sale p m"
  "hrBody (fst (handleSyncUnlink e meth s)) \<noteq> BSale sale p m"
  by (simp_all add: handleSalesToday_def handleSalesSearch_def handleSalesExport_def handleAuditExport_def
      handleAnalytics_def writeExport_def attach_def handleSyncUnlink_def writeSyncStatus_def reply_defs Let_def
      split: handler_splits)

lemma refused_replies:
  "\<not> inSteps (RqSales meth b) \<Longrightarrow> hrBody (fst (handleSales dec n e meth b s)) \<noteq> BSale sale p m"
  "\<not> inSteps (RqReprint meth i) \<Longrightarrow> hrBody (fst (handleReprint dec n meth i s)) \<noteq> BSale sale p m"
  by (auto simp: handleSales_def handleReprint_def reply_defs split: option.splits)

lemmas no_sale_replies = setup_replies product_replies report_replies refused_replies

lemma whole_no_sale:
  assumes "\<not> isSync rq" and "\<not> inSteps rq"
  shows "hrBody (fst (serve o' rq s)) \<noteq> BSale sale p m"
  using assms by (cases rq) (simp_all add: no_sale_replies)

lemma sale_replies [simp]:
  "hrBody (writeJSON code b) = b" "hrBody (writeError code msg) = BError msg"
  by (simp_all add: reply_defs)

lemma printReply_body [simp]:
  "hrBody (printReply f sale p m) = (if f = NewSale then BSale sale p m else if p then BOk else BError m)"
  by (cases f) (auto simp: printReply_def)

lemma owns_print [simp]:
  "owns (ToPrint o' f sale) = (if f = NewSale then Some sale else None)"
  "owns (Composing o' f sale addr d) = (if f = NewSale then Some sale else None)"
  "owns (Sending o' f sale addr d) = (if f = NewSale then Some sale else None)"
  by (cases f; simp)+

lemma owns_after:
  assumes "task_step (s, t) (s', t')" and "owns t' = Some sale"
  shows "owns t = Some sale \<or> bGet (bSales (svDB s')) (saID sale) = Some (Json sale)"
  using assms
proof (cases rule: task_step.cases)
  case (ts_whole rq o' r)
  then have "hrBody r \<noteq> BSale sale p m" for p m using whole_no_sale [of rq o' s sale p m] by simp
  then show ?thesis using assms(2) ts_whole by (auto split: body.splits)
next
  case (ts_sale b o' sl D)
  then have "SaleByID (saID sl) D = Inr (Some sl)" using CreateSale_stored by blast
  then have "bGet (bSales D) (saID sl) = Some (Json sl)"
    by (auto simp: SaleByID_def rbind_eq_Inr unmarshal_eq_Inr split: option.splits)
  with ts_sale assms(2) show ?thesis by simp
qed (use assms(2) in \<open>auto split: if_splits\<close>)

lemma task_step_ops:
  assumes "task_step (s, t) (s', t')" and "drawsFresh t (svDB s)"
  shows "local_op\<^sup>*\<^sup>* (svDB s) (svDB s')"
  using assms(1)
proof (cases rule: task_step.cases)
  case (ts_whole rq o' r)
  then show ?thesis using serve_local assms(2) by auto
next
  case (ts_sale b o' sl D)
  then show ?thesis using api_ops(4) assms(2) by auto
next
  case (ts_sale_refused b o' x D)
  then show ?thesis using api_ops(4) assms(2) by auto
next
  case (ts_key k o' n v u D kvs)
  then show ?thesis using api_ops(6) by auto
next
  case (ts_key_err k o' n v x D kvs)
  then show ?thesis using api_ops(6) by auto
qed auto

fun pooled :: "'w pool \<Rightarrow> till" where
  "pooled (s, ts, ph, A, B) = (svDB s, ph, A, B)"

fun poolKept :: "'w pool \<Rightarrow> bool" where
  "poolKept (s, ts, ph, A, B) \<longleftrightarrow> list_all (saleKept (svDB s)) ts"

lemma pool_step_run: "pool_step P P' \<Longrightarrow> till_step\<^sup>*\<^sup>* (pooled P) (pooled P')"
proof (induction rule: pool_step.induct)
  case (ps_task i ts s s' t ph A B)
  from local_ops_run [OF task_step_ops [OF ps_task(3,2)]] show ?case by simp
qed auto

lemma pool_step_kept: "pool_step P P' \<Longrightarrow> poolKept P \<Longrightarrow> tillInv (pooled P) \<Longrightarrow> poolKept P'"
proof -
  assume step: "pool_step P P'" and "poolKept P" and "tillInv (pooled P)"
  have keeps: "keepsRows (fst (pooled P)) (fst (pooled P'))"
    using till_reach_inv [OF pool_step_run [OF step] \<open>tillInv (pooled P)\<close>] by blast
  from step \<open>poolKept P\<close> keeps show "poolKept P'"
  proof (induction rule: pool_step.induct)
    case (ps_arrive rq s ts ph A B o')
    then show ?case by (simp add: saleKept_def)
  next
    case (ps_task i ts s s' t ph A B)
    then have others: "list_all (saleKept (svDB s')) ts"
      using saleKept_keeps by (auto simp: list_all_iff)
    have "saleKept (svDB s') t"
    proof (unfold saleKept_def, intro allI impI)
      fix sale
      assume "owns t = Some sale"
      moreover have "saleKept (svDB s') (ts ! i)" using others ps_task(1) by (simp add: list_all_length)
      ultimately show "bGet (bSales (svDB s')) (saID sale) = Some (Json sale)"
        using owns_after [OF ps_task(3)] unfolding saleKept_def by blast
    qed
    with others ps_task(1) show ?case by (auto simp: list_all_iff dest!: set_update_subset_insert [THEN subsetD])
  next
    case (ps_sync s ph A B D ph' A' B' ts)
    then show ?case using saleKept_keeps by (auto simp: list_all_iff)
  qed simp
qed

lemma pool_runs:
  assumes "pool_step\<^sup>*\<^sup>* P P'" and "tillInv (pooled P)" and "poolKept P"
  shows "till_step\<^sup>*\<^sup>* (pooled P) (pooled P') \<and> tillInv (pooled P') \<and> poolKept P'"
  using assms
proof (induction rule: rtranclp_induct)
  case (step Q R)
  then have Q: "till_step\<^sup>*\<^sup>* (pooled P) (pooled Q)" "tillInv (pooled Q)" "poolKept Q" by blast+
  note one = pool_step_run [OF step(2)]
  from Q(1) one have "till_step\<^sup>*\<^sup>* (pooled P) (pooled R)" by (rule rtranclp_trans)
  moreover have "tillInv (pooled R)" using till_reach_inv [OF one Q(2)] ..
  moreover have "poolKept R" using pool_step_kept [OF step(2) Q(3,2)] .
  ultimately show ?case by blast
qed auto

text \<open>
  C4. Requests served at the same time cannot lose a sale. Start the server on a store that
  meets the invariant every reachable device has (\<open>tillInv\<close>), in any phase of a sync cycle, and let requests arrive, their handlers' store
  accesses and the cycle's steps interleave in any order: the store only takes the steps of
  \<open>till_step\<close>, its invariant holds, every sale and stock event of the start is there unchanged,
  and every request answered with a sale has exactly that sale in the store, queued for the
  push or taken by the cloud. (An id drawn for a new row is not in use.)
\<close>

theorem concurrent_sales_kept:
  assumes "tillInv (svDB s0, ph, A, B)" and "pool_step\<^sup>*\<^sup>* (s0, [], ph, A, B) (s, ts, ph', A', B')"
  shows "till_step\<^sup>*\<^sup>* (svDB s0, ph, A, B) (svDB s, ph', A', B') \<and> store_inv (svDB s) \<and>
     keepsRows (svDB s0) (svDB s) \<and>
     (\<forall>r sale printed msg. Replied r \<in> set ts \<longrightarrow> hrBody r = BSale sale printed msg \<longrightarrow>
        SaleByID (saID sale) (svDB s) = Inr (Some sale) \<and>
        (saID sale \<in> fst ` set (bPendingSale (svDB s)) \<or> sale \<in> A'))"
proof -
  from pool_runs [OF assms(2)] assms(1)
  have run: "till_step\<^sup>*\<^sup>* (svDB s0, ph, A, B) (svDB s, ph', A', B')" and inv: "tillInv (svDB s, ph', A', B')"
    and kept: "list_all (saleKept (svDB s)) ts" by simp_all
  have "SaleByID (saID sale) (svDB s) = Inr (Some sale) \<and> (saID sale \<in> fst ` set (bPendingSale (svDB s)) \<or> sale \<in> A')"
    if "Replied r \<in> set ts" "hrBody r = BSale sale printed msg" for r sale printed msg
  proof -
    have "bGet (bSales (svDB s)) (saID sale) = Some (Json sale)"
      using bspec [OF kept [unfolded list_all_iff] that(1)] that(2) by (simp add: saleKept_def)
    moreover from this inv have "saID sale \<in> fst ` set (bPendingSale (svDB s)) \<or> sale \<in> A'"
      by (fastforce simp: known_def pend_def)
    ultimately show ?thesis by (simp add: SaleByID_def)
  qed
  with run inv till_reach_inv [OF run assms(1)] show ?thesis by simp
qed

section \<open>No request waits for another\<close>

text \<open>The steps a task has before it at most.\<close>

fun taskWork :: "'w task \<Rightarrow> nat" where
  "taskWork (Arrived o' (RqSettings m (Some kvs))) = length kvs + 2"
| "taskWork (Arrived o' rq) = 5"
| "taskWork (Saving o' n kvs) = length kvs + 1"
| "taskWork (Sold o' wants sale) = 4"
| "taskWork (ToPrint o' f sale) = 3"
| "taskWork (Composing o' f sale addr d) = 2"
| "taskWork (Sending o' f sale addr d) = 1"
| "taskWork (Replied r) = 0"

lemma taskWork_arrived: "0 < taskWork (Arrived o' rq)" "inSteps rq \<Longrightarrow> (\<forall>m b. rq \<noteq> RqSettings m b) \<Longrightarrow> taskWork (Arrived o' rq) = 5"
  by (cases "(Arrived o' rq)" rule: taskWork.cases; simp)+

lemma taskWork_drops: "task_step (s, t) (s', t') \<Longrightarrow> taskWork t' < taskWork t"
proof (induction "(s, t)" "(s', t')" arbitrary: s t s' t' rule: task_step.induct)
  case (ts_whole rq o' s r s')
  then show ?case using taskWork_arrived(1) [of o' rq] by simp
qed simp_all

definition notSync :: "'w task \<Rightarrow> bool" where
  "notSync t \<longleftrightarrow> (\<forall>o' rq. t = Arrived o' rq \<longrightarrow> \<not> isSync rq)"

lemma task_live:
  assumes "notSync t" and "\<forall>r. t \<noteq> Replied r"
  shows "\<exists>s' t'. task_step (s, t) (s', t')"
proof (cases t)
  case (Arrived o' rq)
  then have rq: "\<not> isSync rq" using assms(1) by (simp add: notSync_def)
  obtain r s' where "serve o' rq s = (r, s')" by (metis prod.exhaust)
  from task_runs [OF rq this] show ?thesis unfolding Arrived
    by (cases rule: converse_rtranclpE) auto
next
  case (Saving o' n kvs)
  show ?thesis
  proof (cases kvs)
    case Nil
    then show ?thesis using Saving ts_saved by blast
  next
    case (Cons kv kvs')
    obtain k v where kv: "kv = (k, v)" by (cases kv)
    obtain x D where "SetSetting (ouEnv o' n) k v (svDB s) = (x, D)" by (metis prod.exhaust)
    then show ?thesis using Saving Cons kv ts_unknown_key [of k s o' n v kvs']
        ts_key [of k o' n v s _ D kvs'] ts_key_err [of k o' n v s _ D kvs']
      by (cases x; cases "k \<in> set allowedSettings") blast+
  qed
next
  case (Sold o' wants sale)
  then show ?thesis using ts_nudge [of s o' sale] ts_nudge_print [of wants s o' sale] by (cases "wants = Some False") blast+
next
  case (ToPrint o' f sale)
  then show ?thesis using ts_no_printer [of s o' f sale] ts_settings [of s _ o' f sale] by blast
next
  case (Composing o' f sale addr d)
  then show ?thesis using ts_logo by blast
next
  case (Sending o' f sale addr d)
  obtain err w where "PrintReceipt (ouDecode o') (ouNet o') addr d (svWorld s) = (err, w)" by (metis prod.exhaust)
  then show ?thesis using Sending ts_printed [of o' addr d s w f sale] ts_not_printed [of o' addr d s _ w f sale]
    by (cases err) blast+
next
  case (Replied r)
  then show ?thesis using assms(2) by blast
qed

lemma task_step_notSync: "task_step (s, t) (s', t') \<Longrightarrow> notSync t' \<and> drawsFresh t' D"
  by (erule task_step.cases) (auto simp: notSync_def)

lemma task_finishes:
  assumes "notSync (ts ! i)" and "drawsFresh (ts ! i) (svDB s)" and "i < length ts"
  shows "\<exists>n s' r. n \<le> taskWork (ts ! i) \<and> (pool_step ^^ n) (s, ts, ph, A, B) (s', ts[i := Replied r], ph, A, B)"
  using assms
proof (induction "taskWork (ts ! i)" arbitrary: s ts rule: less_induct)
  case less
  show ?case
  proof (cases "\<exists>r. ts ! i = Replied r")
    case True
    then obtain r where "ts[i := Replied r] = ts" by (metis list_update_id)
    then have "(pool_step ^^ 0) (s, ts, ph, A, B) (s, ts[i := Replied r], ph, A, B)" by simp
    then show ?thesis by blast
  next
    case False
    then obtain s1 t where step: "task_step (s, ts ! i) (s1, t)" using task_live [OF less(2)] by blast
    let ?ts = "ts[i := t]"
    have t: "?ts ! i = t" using less(4) by simp
    have one: "pool_step (s, ts, ph, A, B) (s1, ?ts, ph, A, B)" by (rule ps_task [OF less(4,3) step])
    have "taskWork (?ts ! i) < taskWork (ts ! i)" using taskWork_drops [OF step] t by simp
    moreover have "notSync (?ts ! i)" "drawsFresh (?ts ! i) (svDB s1)" using task_step_notSync [OF step] t by simp_all
    moreover have "i < length ?ts" using less(4) by simp
    ultimately obtain n s' r where n: "n \<le> taskWork (?ts ! i)"
      and run: "(pool_step ^^ n) (s1, ?ts, ph, A, B) (s', ?ts[i := Replied r], ph, A, B)"
      using less(1) by blast
    from relpowp_Suc_I2 [OF one run] have "(pool_step ^^ Suc n) (s, ts, ph, A, B) (s', ts[i := Replied r], ph, A, B)" by simp
    moreover have "Suc n \<le> taskWork (ts ! i)" using n taskWork_drops [OF step] t by simp
    ultimately show ?thesis by blast
  qed
qed

lemma pool_notSync: "pool_step\<^sup>*\<^sup>* P P' \<Longrightarrow> list_all notSync (fst (snd P)) \<Longrightarrow> list_all notSync (fst (snd P'))"
proof (induction rule: rtranclp_induct)
  case (step Q R)
  from step(2,3) step.prems show ?case
    by (cases rule: pool_step.cases)
      (auto simp: notSync_def list_all_iff dest: task_step_notSync dest!: set_update_subset_insert [THEN subsetD])
qed


section \<open>Example: a sale while a cycle runs\<close>

lemma demoShop_device: "tillInv (demoShop, Idle, {}, {})"
  by (simp add: known_def phaseOK_def)

lemma lift_task:
  "task_step\<^sup>*\<^sup>* (s, t) (s', t') \<Longrightarrow> drawsFresh t (svDB s) \<Longrightarrow> i < length ts \<Longrightarrow>
   pool_step\<^sup>*\<^sup>* (s, ts[i := t], ph, A, B) (s', ts[i := t'], ph, A, B) \<and> drawsFresh t' (svDB s')"
proof (induction "(s', t')" arbitrary: s' t' rule: rtranclp_induct)
  case (step c)
  obtain s1 t1 where c: "c = (s1, t1)" by (cases c)
  from step(3) [OF c step(4,5)] have run: "pool_step\<^sup>*\<^sup>* (s, ts[i := t], ph, A, B) (s1, ts[i := t1], ph, A, B)"
    and fresh: "drawsFresh t1 (svDB s1)" by simp_all
  have one: "task_step (s1, (ts[i := t1]) ! i) (s', t')" using step(2,5) c by simp
  have "pool_step (s1, ts[i := t1], ph, A, B) (s', ts[i := t1, i := t'], ph, A, B)"
    using step(5) fresh by (intro ps_task one) simp_all
  with run show ?case using task_step_notSync [of s1 t1 s' t' "svDB s'"] step(2) c by simp
qed auto

lemma demo_pool:
  assumes "serve demoOutside demoRequest demoServer = (r, s')"
  shows "pool_step\<^sup>*\<^sup>* (demoServer, [], Idle, {}, {}) (s', [Replied r], Idle, {}, {})"
proof -
  have first: "pool_step (demoServer, [], Idle, {}, {}) (demoServer, [] @ [Arrived demoOutside demoRequest], Idle, {}, {})"
    by (rule ps_arrive) simp
  have "task_step\<^sup>*\<^sup>* (demoServer, Arrived demoOutside demoRequest) (s', Replied r)"
    using assms by (intro task_runs) simp_all
  from lift_task [OF this, of 0 "[Arrived demoOutside demoRequest]" Idle "{}" "{}"]
  have "pool_step\<^sup>*\<^sup>* (demoServer, [Arrived demoOutside demoRequest], Idle, {}, {}) (s', [Replied r], Idle, {}, {})"
    by (simp add: freshEnv_def)
  from converse_rtranclp_into_rtranclp [OF first [unfolded append_Nil] this] show ?thesis .
qed

lemma demo_reply:
  obtains r s' printed msg where "serve demoOutside demoRequest demoServer = (r, s')"
    and "hrBody r = BSale (saleOf (demoEnv 3) demoSale demoShop) printed msg"
proof -
  obtain D where cs: "CreateSale (demoEnv 3) demoSale demoShop = (Inr (saleOf (demoEnv 3) demoSale demoShop), D)"
    using demo_sale by blast
  obtain printed msg s' where "printSale (ouDecode demoOutside) (ouNet demoOutside)
      (saleOf (demoEnv 3) demoSale demoShop) (nudgeSync (demoServer\<lparr>svDB := D\<rparr>)) = ((printed, msg), s')" by (metis prod.exhaust)
  then have "serve demoOutside demoRequest demoServer =
      (writeJSON 200 (BSale (saleOf (demoEnv 3) demoSale demoShop) printed msg), s')"
    by (simp add: handleSales_def cs Let_def) (simp add: demoBody_def)
  then show ?thesis by (rule that) simp
qed

theorem concurrent_sales_kept_witness:
  "\<exists>s r sale. pool_step\<^sup>*\<^sup>* (demoServer, [], Idle, {}, {}) (s, [Replied r], Idle, {}, {}) \<and>
     SaleByID (saID sale) (svDB s) = Inr (Some sale) \<and> saID sale \<in> fst ` set (bPendingSale (svDB s))"
proof -
  obtain r s' printed msg where serve: "serve demoOutside demoRequest demoServer = (r, s')"
    and body: "hrBody r = BSale (saleOf (demoEnv 3) demoSale demoShop) printed msg" by (rule demo_reply)
  have "tillInv (svDB demoServer, Idle, {}, {})" using demoShop_device by simp
  from concurrent_sales_kept [OF this demo_pool [OF serve]] body demo_pool [OF serve] show ?thesis
    by fastforce
qed


end
