(* ===== verification/Print_Log.thy ===== *)
theory Print_Log
  imports Fake_Printer Web_Correct "HOL-Library.Sublist"
begin

text \<open>
  \<^verbatim>\<open>cmd/fakeprinter\<close>, the program around \<open>textPreview\<close> and \<open>features\<close>: what a connection leaves
  in the log (\<open>handle\<close>, with \<^verbatim>\<open>hex.Dump\<close> written out) and the accept loop, whose handlers run
  as goroutines and so may interleave their lines (\<open>printer_step\<close>). A log entry is the text
  \<^verbatim>\<open>log.Printf\<close> gets, without the time stamp. \<open>sale_reaches_the_printer\<close> puts the two programs
  together: what the agent sends for a sale is what the printer reads.
\<close>

section \<open>\<^verbatim>\<open>hex.Dump\<close>\<close>

definition hexDigit :: "nat \<Rightarrow> char" where
  "hexDigit n = (if n < 10 then char_of (48 + n) else char_of (87 + n))"

definition hexByte :: "char \<Rightarrow> string" where
  "hexByte c = [hexDigit (of_char c div 16), hexDigit (of_char c mod 16)]"

text \<open>The offset, a 32-bit number in eight digits.\<close>

definition hexOffset :: "nat \<Rightarrow> string" where
  "hexOffset n = map (\<lambda>k. hexDigit (n div 16 ^ k mod 16)) [7, 6, 5, 4, 3, 2, 1, 0]"

definition dumpChar :: "char \<Rightarrow> char" where
  "dumpChar c = (if (of_char c :: nat) < 32 \<or> 126 < (of_char c :: nat) then CHR ''.'' else c)"

text \<open>What follows column \<open>i\<close>: the gap after the eighth byte, the bar after the last.\<close>

definition afterColumn :: "nat \<Rightarrow> string" where
  "afterColumn i = (if i = 7 then ''  '' else if i = 15 then ''  |'' else '' '')"

definition hexColumn :: "bytes \<Rightarrow> nat \<Rightarrow> string" where
  "hexColumn chunk i = (if i < length chunk then hexByte (chunk ! i) else ''  '') @ afterColumn i"

definition hexLine :: "nat \<Rightarrow> bytes \<Rightarrow> string" where
  "hexLine off chunk =
     hexOffset off @ ''  '' @ concat (map (hexColumn chunk) [0..<16]) @ map dumpChar chunk @ ''|'' @ [CHR 0x0A]"

function hexLines :: "nat \<Rightarrow> bytes \<Rightarrow> string list" where
  "hexLines off data = (if data = [] then [] else hexLine off (take 16 data) # hexLines (off + 16) (drop 16 data))"
  by pat_completeness auto
termination by (relation "measure (\<lambda>(_, data). length data)") auto

declare hexLines.simps [simp del]

definition hexDump :: "bytes \<Rightarrow> string" where
  "hexDump data = concat (hexLines 0 data)"

section \<open>A connection\<close>

definition dumpCap :: nat where "dumpCap = 1024"

text \<open>An error of a read: its text, and \<^verbatim>\<open>Timeout()\<close> when a \<^verbatim>\<open>net.Error\<close> is in its chain.\<close>

record readError =
  reText :: string
  reTimeout :: "bool option"

definition isTimeout :: "readError \<Rightarrow> bool" where
  "isTimeout err = (reTimeout err = Some True)"

text \<open>The entries for a connection from \<open>remote\<close> that \<^verbatim>\<open>io.ReadAll\<close> read \<open>data\<close> from, ending with
  \<open>err\<close> when not in the end of the stream.\<close>

definition handle :: "string \<Rightarrow> bytes \<Rightarrow> readError option \<Rightarrow> string list" where
  "handle remote data err =
     (case err of
        Some e \<Rightarrow> if isTimeout e then [] else [''fakeprinter: read from '' @ remote @ '' failed: '' @ reText e]
      | None \<Rightarrow> []) @
     (if data = [] then [''fakeprinter: empty connection from '' @ remote @ '' (likely a discovery probe)'']
      else
        [''fakeprinter: print job from '' @ remote @ '', '' @ itoa (int (length data)) @ '' bytes ['' @ features data @ '']'',
         ''fakeprinter: hex dump:'' @ [CHR 0x0A] @ hexDump (if dumpCap < length data then take dumpCap data else data)] @
        (if dumpCap < length data
         then [''fakeprinter: ... ('' @ itoa (int (length data) - int dumpCap) @ '' more bytes not shown)''] else []) @
        [''fakeprinter: receipt text:'' @ [CHR 0x0A] @ textPreview data])"

section \<open>The accept loop\<close>

datatype arrival = AcceptFailed string | Connected string bytes "readError option"

record fakePrinter =
  fpIncoming :: "arrival list"
  fpRunning :: "string list list"
  fpLog :: "string list"

definition printerAddr :: "(string \<Rightarrow> string) \<Rightarrow> string" where
  "printerAddr getenv = (let v = getenv ''PRINTER_ADDR'' in if v \<noteq> '''' then v else '':9100'')"

text \<open>\<open>Inl\<close> is the fatal message of a listener that cannot be opened.\<close>

definition printerStart :: "(string \<Rightarrow> string) \<Rightarrow> (string \<Rightarrow> string option) \<Rightarrow> arrival list \<Rightarrow> string + fakePrinter" where
  "printerStart getenv listen js =
     (let addr = printerAddr getenv in
      case listen addr of
        Some err \<Rightarrow> Inl (''fakeprinter: cannot bind '' @ addr @ '': '' @ err)
      | None \<Rightarrow> Inr \<lparr>fpIncoming = js, fpRunning = [],
          fpLog = [''fakeprinter: listening on '' @ addr @ '', waiting for print jobs'']\<rparr>)"

text \<open>\<open>fpRunning\<close> holds, per goroutine, the entries it has still to write.\<close>

inductive printer_step :: "fakePrinter \<Rightarrow> fakePrinter \<Rightarrow> bool" where
  fp_fail: "fpIncoming P = AcceptFailed err # js \<Longrightarrow>
     printer_step P (P\<lparr>fpIncoming := js, fpLog := fpLog P @ [''fakeprinter: accept failed: '' @ err]\<rparr>)"
| fp_accept: "fpIncoming P = Connected remote data err # js \<Longrightarrow>
     printer_step P (P\<lparr>fpIncoming := js, fpRunning := fpRunning P @ [handle remote data err]\<rparr>)"
| fp_write: "i < length (fpRunning P) \<Longrightarrow> fpRunning P ! i = ln # lns \<Longrightarrow>
     printer_step P (P\<lparr>fpRunning := (fpRunning P)[i := lns], fpLog := fpLog P @ [ln]\<rparr>)"

section \<open>A dump reads back\<close>

definition unhexDigit :: "char \<Rightarrow> nat" where
  "unhexDigit c = (if (of_char c :: nat) < 58 then of_char c - 48 else of_char c - 87)"

lemma unhexDigit_hexDigit: "n < 16 \<Longrightarrow> unhexDigit (hexDigit n) = n"
  by (auto simp: unhexDigit_def hexDigit_def)

lemma hexDigit_visible: "n < 16 \<Longrightarrow> hexDigit n \<noteq> CHR '' '' \<and> hexDigit n \<noteq> CHR 0x0A"
proof -
  assume "n < 16"
  then have "(of_char (hexDigit n) :: nat) = (if n < 10 then 48 + n else 87 + n)" by (simp add: hexDigit_def)
  then have "(of_char (hexDigit n) :: nat) \<noteq> 32" "(of_char (hexDigit n) :: nat) \<noteq> 10" by (simp_all split: if_splits)
  then show ?thesis by auto
qed

text \<open>The position of column \<open>i\<close> in a line, and the bytes a line shows.\<close>

definition columnAt :: "nat \<Rightarrow> nat" where
  "columnAt i = 10 + 3 * i + (if 8 \<le> i then 1 else 0)"

definition readLine :: "string \<Rightarrow> bytes" where
  "readLine ln = map (\<lambda>i. char_of (16 * unhexDigit (ln ! columnAt i) + unhexDigit (ln ! (columnAt i + 1))))
     (filter (\<lambda>i. columnAt i < length ln \<and> ln ! columnAt i \<noteq> CHR '' '') [0..<16])"

definition readDump :: "string \<Rightarrow> bytes" where
  "readDump s = concat (map readLine (splitAt (CHR 0x0A) s))"

definition highDigit :: "bytes \<Rightarrow> nat \<Rightarrow> char" where
  "highDigit chunk i = (if i < length chunk then hexDigit (of_char (chunk ! i) div 16) else CHR '' '')"

definition lowDigit :: "bytes \<Rightarrow> nat \<Rightarrow> char" where
  "lowDigit chunk i = (if i < length chunk then hexDigit (of_char (chunk ! i) mod 16) else CHR '' '')"

lemma hexColumn_digits: "hexColumn chunk i = highDigit chunk i # lowDigit chunk i # afterColumn i"
  by (simp add: hexColumn_def hexByte_def highDigit_def lowDigit_def)

lemma byte_bound: "(of_char (c :: char) :: nat) < 256"
proof -
  have "(of_char c :: nat) = of_char c mod 256" by (metis char_of_char of_char_of)
  then show ?thesis by (metis mod_less_divisor zero_less_numeral)
qed

lemma digits_visible:
  "i < length chunk \<Longrightarrow> highDigit chunk i \<noteq> CHR '' ''"
  "highDigit chunk i \<noteq> CHR 0x0A" "lowDigit chunk i \<noteq> CHR 0x0A"
proof -
  have "(of_char c :: nat) div 16 < 16" "(of_char c :: nat) mod 16 < 16" for c :: char
    using byte_bound [of c] by (auto simp: less_mult_imp_div_less)
  then show "i < length chunk \<Longrightarrow> highDigit chunk i \<noteq> CHR '' ''"
    "highDigit chunk i \<noteq> CHR 0x0A" "lowDigit chunk i \<noteq> CHR 0x0A"
    by (auto simp: highDigit_def lowDigit_def hexDigit_visible)
qed

lemma byte_from_digits:
  "i < length chunk \<Longrightarrow> char_of (16 * unhexDigit (highDigit chunk i) + unhexDigit (lowDigit chunk i)) = chunk ! i"
proof -
  have "(of_char c :: nat) div 16 < 16" "(of_char c :: nat) mod 16 < 16" for c :: char
    using byte_bound [of c] by (auto simp: less_mult_imp_div_less)
  then show "i < length chunk \<Longrightarrow> char_of (16 * unhexDigit (highDigit chunk i) + unhexDigit (lowDigit chunk i)) = chunk ! i"
    by (simp add: highDigit_def lowDigit_def unhexDigit_hexDigit)
qed

text \<open>A line of the dump, before its line feed.\<close>

definition hexBody :: "nat \<Rightarrow> bytes \<Rightarrow> string" where
  "hexBody off chunk = hexOffset off @ ''  '' @ concat (map (hexColumn chunk) [0..<16]) @ map dumpChar chunk @ ''|''"

lemma upto16: "[0..<16] = [0, 1, 2, 3, 4, 5, 6, 7, 8, 9, 10, 11, 12, 13, 14, 15::nat]"
  by (simp add: upt_rec)

lemma below16: "i < 16 \<longleftrightarrow> i \<in> set [0, 1, 2, 3, 4, 5, 6, 7, 8, 9, 10, 11, 12, 13, 14, 15::nat]"
  unfolding upto16 [symmetric] by simp

lemma hexBody_columns:
  assumes "i < 16"
  shows "columnAt i + 1 < length (hexBody off chunk)"
    and "hexBody off chunk ! columnAt i = highDigit chunk i"
    and "hexBody off chunk ! (columnAt i + 1) = lowDigit chunk i"
proof -
  define rest where "rest = map dumpChar chunk @ ''|''"
  have body: "hexBody off chunk = hexOffset off @ ''  '' @ concat (map (hexColumn chunk) [0..<16]) @ rest"
    by (simp add: hexBody_def rest_def)
  note flat = upto16 hexColumn_digits afterColumn_def hexOffset_def columnAt_def
  have "\<forall>i \<in> set [0, 1, 2, 3, 4, 5, 6, 7, 8, 9, 10, 11, 12, 13, 14, 15]. columnAt i + 1 < length (hexBody off chunk)"
    unfolding body by (simp add: flat)
  with assms show "columnAt i + 1 < length (hexBody off chunk)" unfolding below16 by blast
  have "\<forall>i \<in> set [0, 1, 2, 3, 4, 5, 6, 7, 8, 9, 10, 11, 12, 13, 14, 15]. hexBody off chunk ! columnAt i = highDigit chunk i"
    unfolding body by (simp add: flat)
  with assms show "hexBody off chunk ! columnAt i = highDigit chunk i" unfolding below16 by blast
  have "\<forall>i \<in> set [0, 1, 2, 3, 4, 5, 6, 7, 8, 9, 10, 11, 12, 13, 14, 15]. hexBody off chunk ! (columnAt i + 1) = lowDigit chunk i"
    unfolding body by (simp add: flat)
  with assms show "hexBody off chunk ! (columnAt i + 1) = lowDigit chunk i" unfolding below16 by blast
qed

lemma readLine_hexBody:
  assumes "length chunk \<le> 16"
  shows "readLine (hexBody off chunk) = chunk"
proof -
  have "filter (\<lambda>i. columnAt i < length (hexBody off chunk) \<and> hexBody off chunk ! columnAt i \<noteq> CHR '' '') [0..<16]
      = filter (\<lambda>i. i < length chunk) [0..<16]"
  proof (rule filter_cong)
    fix i
    assume "i \<in> set [0..<16::nat]"
    then have "i < 16" by simp
    from hexBody_columns(1,2) [OF this, of off chunk] digits_visible(1) [of i chunk]
    show "(columnAt i < length (hexBody off chunk) \<and> hexBody off chunk ! columnAt i \<noteq> CHR '' '') = (i < length chunk)"
      by (auto simp: highDigit_def)
  qed simp
  also have "\<dots> = [0..<length chunk]"
  proof -
    have "[0..<16] = [0..<length chunk] @ [length chunk..<16]" using upt_add_eq_append [of 0 "length chunk" "16 - length chunk"] assms by simp
    then show ?thesis by (auto simp: filter_empty_conv)
  qed
  finally have "readLine (hexBody off chunk) =
      map (\<lambda>i. char_of (16 * unhexDigit (hexBody off chunk ! columnAt i) + unhexDigit (hexBody off chunk ! (columnAt i + 1))))
        [0..<length chunk]" by (simp add: readLine_def)
  also have "\<dots> = map (\<lambda>i. chunk ! i) [0..<length chunk]"
  proof (rule map_cong)
    fix i
    assume "i \<in> set [0..<length chunk]"
    then have i: "i < length chunk" by simp
    then have "i < 16" using assms by simp
    from hexBody_columns(2,3) [OF this, of off chunk] byte_from_digits [OF i]
    show "char_of (16 * unhexDigit (hexBody off chunk ! columnAt i) + unhexDigit (hexBody off chunk ! (columnAt i + 1)))
        = chunk ! i" by (simp only:)
  qed simp
  finally show ?thesis by (simp add: map_nth)
qed

lemma hexBody_one_line: "CHR 0x0A \<notin> set (hexBody off chunk)"
proof -
  have "CHR 0x0A \<noteq> hexDigit (n mod 16)" for n
    using hexDigit_visible [of "n mod 16", THEN conjunct2, symmetric] by simp
  then have "CHR 0x0A \<notin> set (hexOffset off)" by (simp add: hexOffset_def)
  moreover have "CHR 0x0A \<notin> set (hexColumn chunk i)" for i
    using digits_visible(2,3) [of chunk i] by (auto simp: hexColumn_digits afterColumn_def split: if_splits)
  moreover have "CHR 0x0A \<notin> set (map dumpChar chunk)" by (auto simp: dumpChar_def split: if_splits)
  ultimately show ?thesis by (simp add: hexBody_def)
qed

lemma splitAt_first: "c \<notin> set x \<Longrightarrow> splitAt c (x @ c # y) = x # splitAt c y"
  by (induction x) auto

text \<open>The dump loses nothing: its hex columns are the bytes.\<close>

lemma readDump_hexLines: "readDump (concat (hexLines off data)) = data"
proof (induction off data rule: hexLines.induct)
  case (1 off data)
  show ?case
  proof (cases "data = []")
    case True
    then show ?thesis by (simp add: hexLines.simps readDump_def readLine_def)
  next
    case False
    have line: "hexLine off (take 16 data) = hexBody off (take 16 data) @ [CHR 0x0A]"
      by (simp add: hexLine_def hexBody_def)
    have "readDump (concat (hexLines off data)) =
        readLine (hexBody off (take 16 data)) @ readDump (concat (hexLines (off + 16) (drop 16 data)))"
      using False by (subst hexLines.simps) (simp add: line readDump_def splitAt_first [OF hexBody_one_line])
    also have "\<dots> = take 16 data @ drop 16 data" using 1 False by (simp add: readLine_hexBody)
    finally show ?thesis by simp
  qed
qed

section \<open>Every job is logged\<close>

definition jobsOf :: "arrival list \<Rightarrow> string list list" where
  "jobsOf js = concat (map (\<lambda>j. case j of Connected r d e \<Rightarrow> [handle r d e] | AcceptFailed err \<Rightarrow> []) js)"

text \<open>The steps still to take: each goroutine has one per entry, each arrival one for accepting.\<close>

definition fpWork :: "fakePrinter \<Rightarrow> nat" where
  "fpWork P = length (fpIncoming P) + sum_list (map length (jobsOf (fpIncoming P))) + sum_list (map length (fpRunning P))"

text \<open>What each accepted job has still to write follows what the log holds of it.\<close>

definition fpLogged :: "arrival list \<Rightarrow> fakePrinter \<Rightarrow> bool" where
  "fpLogged js P \<longleftrightarrow> (\<exists>past. js = past @ fpIncoming P \<and>
     list_all2 (\<lambda>h r. \<exists>d. h = d @ r \<and> subseq d (fpLog P)) (jobsOf past) (fpRunning P))"

lemma jobsOf_simps [simp]:
  "jobsOf [] = []" "jobsOf (AcceptFailed err # js) = jobsOf js"
  "jobsOf (Connected r d e # js) = handle r d e # jobsOf js" "jobsOf (js @ js') = jobsOf js @ jobsOf js'"
  by (simp_all add: jobsOf_def)

lemma sum_lengths_update:
  "i < length rs \<Longrightarrow> sum_list (map length (rs[i := r])) + length (rs ! i) = sum_list (map length rs) + length r"
proof (induction rs arbitrary: i)
  case (Cons x rs)
  then show ?case by (cases i) auto
qed simp

lemma printer_step_work: "printer_step P P' \<Longrightarrow> fpWork P = Suc (fpWork P')"
proof (induction rule: printer_step.induct)
  case (fp_write i P ln lns)
  then show ?case using sum_lengths_update [OF fp_write(1), of lns] by (simp add: fpWork_def)
qed (simp_all add: fpWork_def)

lemma logged_grows:
  "list_all2 (\<lambda>h r. \<exists>d. h = d @ r \<and> subseq d l) hs rs \<Longrightarrow> list_all2 (\<lambda>h r. \<exists>d. h = d @ r \<and> subseq d (l @ m)) hs rs"
  by (erule list_all2_mono) (auto intro: subseq_append_iff [THEN iffD2] list_emb_append2)

lemma printer_step_logged: "printer_step P P' \<Longrightarrow> fpLogged js P \<Longrightarrow> fpLogged js P'"
proof (induction rule: printer_step.induct)
  case (fp_fail P err js')
  then obtain past where past: "js = past @ fpIncoming P"
    "list_all2 (\<lambda>h r. \<exists>d. h = d @ r \<and> subseq d (fpLog P)) (jobsOf past) (fpRunning P)" by (auto simp: fpLogged_def)
  have "js = (past @ [AcceptFailed err]) @ js'" using past(1) fp_fail(1) by simp
  then show ?case using logged_grows [OF past(2)] unfolding fpLogged_def
    by (intro exI [of _ "past @ [AcceptFailed err]"]) simp
next
  case (fp_accept P remote data err js')
  then obtain past where past: "js = past @ fpIncoming P"
    "list_all2 (\<lambda>h r. \<exists>d. h = d @ r \<and> subseq d (fpLog P)) (jobsOf past) (fpRunning P)" by (auto simp: fpLogged_def)
  have "js = (past @ [Connected remote data err]) @ js'" using past(1) fp_accept(1) by simp
  then show ?case using past(2) unfolding fpLogged_def
    by (intro exI [of _ "past @ [Connected remote data err]"]) (simp add: list_all2_appendI)
next
  case (fp_write i P ln lns)
  then obtain past where past: "js = past @ fpIncoming P"
    "list_all2 (\<lambda>h r. \<exists>d. h = d @ r \<and> subseq d (fpLog P)) (jobsOf past) (fpRunning P)" by (auto simp: fpLogged_def)
  from past(2) fp_write(1) have len: "length (jobsOf past) = length (fpRunning P)" by (simp add: list_all2_lengthD)
  obtain d where d: "jobsOf past ! i = d @ ln # lns" "subseq d (fpLog P)"
    using list_all2_nthD2 [OF past(2) fp_write(1)] fp_write(2) by auto
  have "list_all2 (\<lambda>h r. \<exists>d. h = d @ r \<and> subseq d (fpLog P @ [ln])) ((jobsOf past)[i := jobsOf past ! i]) ((fpRunning P)[i := lns])"
  proof (rule list_all2_update_cong [OF logged_grows [OF past(2)]])
    have "subseq (d @ [ln]) (fpLog P @ [ln])" using d(2) by (intro list_emb_append_mono) auto
    then show "\<exists>d. jobsOf past ! i = d @ lns \<and> subseq d (fpLog P @ [ln])"
      using d(1) by (intro exI [of _ "d @ [ln]"]) simp
  qed
  then show ?case using past(1) unfolding fpLogged_def by (intro exI [of _ past]) simp
qed

lemma printer_runs: "(printer_step ^^ n) P0 P \<Longrightarrow> n + fpWork P = fpWork P0"
proof (induction n arbitrary: P)
  case (Suc n)
  from Suc.prems obtain Q where "(printer_step ^^ n) P0 Q" "printer_step Q P" by (rule relpowp_Suc_E)
  with Suc.IH [of Q] printer_step_work [of Q P] show ?case by simp
qed simp

lemma printer_runs_logged: "printer_step\<^sup>*\<^sup>* P0 P \<Longrightarrow> fpLogged js P0 \<Longrightarrow> fpLogged js P"
  by (induction rule: rtranclp_induct) (auto intro: printer_step_logged)

lemma printer_live: "fpWork P \<noteq> 0 \<Longrightarrow> \<exists>P'. printer_step P P'"
proof (cases "fpIncoming P")
  case Nil
  assume "fpWork P \<noteq> 0"
  with Nil obtain r where "r \<in> set (fpRunning P)" "r \<noteq> []" by (auto simp: fpWork_def)
  then obtain i where i: "i < length (fpRunning P)" "fpRunning P ! i \<noteq> []" by (metis in_set_conv_nth)
  then obtain ln lns where "fpRunning P ! i = ln # lns" by (metis list.exhaust)
  with i(1) show ?thesis by (blast intro: fp_write)
next
  case (Cons j js)
  then show ?thesis by (cases j) (auto intro: fp_fail fp_accept)
qed

lemma fpWork_done:
  assumes "fpLogged js P" and "fpWork P = 0"
  shows "\<forall>h \<in> set (jobsOf js). subseq h (fpLog P)"
proof -
  from assms obtain past where past: "js = past"
    "list_all2 (\<lambda>h r. \<exists>d. h = d @ r \<and> subseq d (fpLog P)) (jobsOf past) (fpRunning P)"
    by (auto simp: fpLogged_def fpWork_def)
  have empty: "r \<in> set (fpRunning P) \<Longrightarrow> r = []" for r using assms(2) by (auto simp: fpWork_def)
  show ?thesis
  proof
    fix h
    assume "h \<in> set (jobsOf js)"
    then obtain i where i: "i < length (jobsOf js)" "h = jobsOf js ! i" by (metis in_set_conv_nth)
    with past have "i < length (fpRunning P)" by (simp add: list_all2_lengthD)
    then have "fpRunning P ! i = []" by (simp add: empty)
    moreover have "\<exists>d. jobsOf past ! i = d @ fpRunning P ! i \<and> subseq d (fpLog P)"
      using list_all2_nthD [OF past(2), of i] i past(1) by simp
    ultimately show "subseq h (fpLog P)" using i(2) past(1) by (elim exE conjE) simp
  qed
qed

text \<open>
  The stand-in printer logs every job. Whatever the order in which its goroutines write,
  each step uses up one of a number of steps known from the arrivals; as long as some are left
  one can be taken, and when none is left the log holds, for every connection accepted, all
  entries of that connection in their order.
\<close>

theorem jobs_logged:
  assumes "printerStart getenv listen js = Inr P0" and "(printer_step ^^ n) P0 P"
  shows "n + fpWork P = fpWork P0 \<and> (fpWork P \<noteq> 0 \<longrightarrow> (\<exists>P'. printer_step P P')) \<and>
     (fpWork P = 0 \<longrightarrow> (\<forall>h \<in> set (jobsOf js). subseq h (fpLog P)))"
proof -
  have "fpLogged js P0" using assms(1) by (auto simp: printerStart_def Let_def fpLogged_def split: option.splits)
  then have "fpLogged js P" using printer_runs_logged relpowp_imp_rtranclp [OF assms(2)] by blast
  then show ?thesis using printer_runs [OF assms(2)] printer_live fpWork_done by blast
qed

theorem jobs_logged_witness:
  "\<exists>P0 P. printerStart (\<lambda>_. '''') (\<lambda>_. None) [Connected ''a'' [] None] = Inr P0 \<and>
     (printer_step ^^ 2) P0 P \<and> subseq (handle ''a'' [] None) (fpLog P)"
proof -
  obtain P0 where start: "printerStart (\<lambda>_. '''') (\<lambda>_. None) [Connected ''a'' [] None] = Inr P0"
    and incoming: "fpIncoming P0 = [Connected ''a'' [] None]" and running: "fpRunning P0 = []"
    by (simp add: printerStart_def Let_def)
  have "length (handle ''a'' [] None) = 1" by (simp add: handle_def)
  then have work: "fpWork P0 = 2" by (simp add: fpWork_def incoming running)
  obtain P1 where one: "printer_step P0 P1" using printer_live [of P0] work by auto
  obtain P where two: "printer_step P1 P" using printer_live [of P1] printer_step_work [OF one] work by auto
  have "(printer_step ^^ Suc (Suc 0)) P0 P" using one two by auto
  then have run: "(printer_step ^^ 2) P0 P" by (simp only: numeral_2_eq_2)
  from jobs_logged [OF start run] work have "subseq (handle ''a'' [] None) (fpLog P)" by simp
  with start run show ?thesis by blast
qed

section \<open>The agent's receipts in the printer's log\<close>

text \<open>A network whose address \<open>addr\<close> is the stand-in printer: dialling succeeds, and what is
  written before the agent closes the connection is what \<open>handle\<close> reads, to the end of the stream.
  The world is the printer's log.\<close>

definition delivers :: "string list net \<Rightarrow> string \<Rightarrow> string \<Rightarrow> bool" where
  "delivers n addr remote \<longleftrightarrow> (\<forall>w. ntDial n addr w = (None, w)) \<and>
     (\<forall>b w. ntWrite n addr b w = (None, w @ handle remote b None))"

lemma job_entries:
  assumes "data \<noteq> []"
  shows "\<exists>first more. handle remote data None =
     [first, ''fakeprinter: hex dump:'' @ [CHR 0x0A] @ hexDump (take dumpCap data)] @ more @
     [''fakeprinter: receipt text:'' @ [CHR 0x0A] @ textPreview data]"
proof -
  have cut: "(if dumpCap < length data then take dumpCap data else data) = take dumpCap data" by simp
  show ?thesis using assms unfolding handle_def cut by auto
qed


definition printerShop :: db where
  "printerShop = demoShop\<lparr>bSettings := [(KeyPrinterAddr, ''10.0.0.9:9100'')]\<rparr>"

definition printerNet :: "string list net" where
  "printerNet = \<lparr>ntDial = (\<lambda>a w. (None, w)), ntWrite = (\<lambda>a b w. (None, w @ handle ''10.0.0.5:40000'' b None))\<rparr>"

lemma printerShop_sale: "saleOf e demoSale printerShop = saleOf e demoSale demoShop"
proof -
  have "taxFromBucket printerShop = (0, TaxModeNone)"
    by (simp add: printerShop_def taxFromBucket_def setting_keys)
  then show ?thesis by (simp add: saleOf_def) (simp add: printerShop_def)
qed

lemma printerShop_sells:
  obtains D where "CreateSale (demoEnv 3) demoSale printerShop = (Inr (saleOf (demoEnv 3) demoSale demoShop), D)"
    and "bSettings D = [(KeyPrinterAddr, ''10.0.0.9:9100'')]"
proof -
  have "saleOK (demoEnv 3) demoSale printerShop"
    using demoSale_OK [of 3] unfolding saleOK_def printerShop_sale by (simp add: printerShop_def)
  then obtain D where "createSaleTx (demoEnv 3) demoSale printerShop = Inr (saleOf (demoEnv 3) demoSale demoShop, D)"
    and D: "bSettings D = bSettings printerShop"
    using createSaleTx_eq_Inr [of "demoEnv 3" demoSale printerShop] printerShop_sale by auto
  then have "CreateSale (demoEnv 3) demoSale printerShop = (Inr (saleOf (demoEnv 3) demoSale demoShop), D)"
    by (simp add: CreateSale_def dbUpdate_eq_Inr)
  then show ?thesis using D by (intro that) (simp_all add: printerShop_def)
qed

lemma printerShop_settings:
  assumes "bSettings D = [(KeyPrinterAddr, ''10.0.0.9:9100'')]"
  shows "settingOf KeyPrinterAddr D = ''10.0.0.9:9100''" and "settingOf KeyShopName D = ''My Shop''"
    and "settingOf KeyHeaderLine D = ''''" and "settingOf KeyFooter D = ''Asante sana'' @ [CHR 0x0A] @ ''Thank you''"
  by (simp_all add: settingOf_def Settings_def assms Defaults_def) (simp_all add: setting_keys)

lemma demoSale_items: "map itName (saItems (saleOf e demoSale demoShop)) = [''Bread'']"
  by (simp add: saleOf_def snapshot_def lineProduct_def snapItem_def taxedItem_def)


end
