(* ===== verification/Agent.thy ===== *)
theory Agent
  imports Web_Correct
begin

text \<open>
  \<^verbatim>\<open>cmd/pos/main.go\<close>: how the agent starts, with \<^verbatim>\<open>Open\<close> of \<^verbatim>\<open>boltstore.go\<close> and \<^verbatim>\<open>New\<close> of
  \<^verbatim>\<open>server.go\<close>. What it asks the operating system is the record \<open>machine\<close>: environment
  variables, the user's configuration directory, the platform's path functions, creating a
  directory, opening the database file (bbolt), and binding the listening address. \<open>startup\<close> ends
  in a fatal message, in handing over to the agent that already runs, or in serving; logging is
  left out. From there \<open>serveAll\<close> answers requests one after the other. The lemmas carry the
  invariant of the store and its rows through a restart and any sequence of requests.
\<close>

section \<open>The machine\<close>

datatype binding = Listening | AddrInUse | ListenErr string

record machine =
  mcGetenv :: "string \<Rightarrow> string"
  mcConfigDir :: "string option"
  mcGOOS :: string
  mcDir :: "string \<Rightarrow> string"
  mcJoin :: "string list \<Rightarrow> string"
  mcMkdirAll :: "string \<Rightarrow> string option"
  mcOpenDB :: "string \<Rightarrow> string + db"
  mcListen :: "string \<Rightarrow> binding"

definition envOr :: "machine \<Rightarrow> string \<Rightarrow> string \<Rightarrow> string" where
  "envOr M key def = (let v = mcGetenv M key in if v \<noteq> '''' then v else def)"

definition defaultCloudURL :: string where
  "defaultCloudURL = ''https://pos.alkenacode.dev''"

definition defaultAddr :: string where
  "defaultAddr = ''127.0.0.1:7777''"

definition defaultDataPath :: "machine \<Rightarrow> string" where
  "defaultDataPath M = (case mcConfigDir M of
     Some dir \<Rightarrow> if dir \<noteq> '''' then mcJoin M [dir, ''AlkenaCode POS'', ''pos.db''] else mcJoin M [''data'', ''pos.db'']
   | None \<Rightarrow> mcJoin M [''data'', ''pos.db''])"

definition dataPath :: "machine \<Rightarrow> string" where
  "dataPath M = envOr M ''POS_DATA'' (defaultDataPath M)"

text \<open>The command that opens the browser; that it fails is only logged.\<close>

definition browserCommand :: "machine \<Rightarrow> string \<Rightarrow> string list" where
  "browserCommand M url =
     (if mcGOOS M = ''windows'' then [''rundll32'', ''url.dll,FileProtocolHandler'', url]
      else if mcGOOS M = ''darwin'' then [''open'', url]
      else [''xdg-open'', url])"

section \<open>Opening the store\<close>

text \<open>\<^verbatim>\<open>init\<close> creates the buckets a file lacks. A bucket that is not there and an empty one are the
  same \<open>db\<close>, so only the commit of its transaction is left.\<close>

definition initStore :: "env \<Rightarrow> db \<Rightarrow> (err + unit) \<times> db" where
  "initStore e D = dbExec e Inr D"

definition openStore :: "machine \<Rightarrow> env \<Rightarrow> string \<Rightarrow> string + db" where
  "openStore M e path = (case mcOpenDB M path of
     Inl m \<Rightarrow> Inl m
   | Inr D \<Rightarrow> (case initStore e D of
       (Inl x, D1) \<Rightarrow> Inl (errText x)
     | (Inr _, D1) \<Rightarrow> Inr D1))"

section \<open>Starting\<close>

datatype ending = Fatal string | HandedOver | Serving

record 'w launch =
  laEnding :: ending
  laStarted :: "string list list"
  laServer :: "'w server option"

definition fatal :: "string \<Rightarrow> 'w launch" where
  "fatal msg = \<lparr>laEnding = Fatal msg, laStarted = [], laServer = None\<rparr>"

definition newServer :: "db \<Rightarrow> Controller option \<Rightarrow> string \<Rightarrow> 'w \<Rightarrow> 'w server" where
  "newServer D c url w = \<lparr>svDB = D, svSync = c, svCloudURL = url, svWorld = w\<rparr>"

text \<open>\<open>es 0\<close> is drawn by \<open>init\<close>, \<open>es (n + 1)\<close> by the \<open>n\<close>-th transaction of the seeding.\<close>

definition startup :: "machine \<Rightarrow> (nat \<Rightarrow> env) \<Rightarrow> 'w \<Rightarrow> 'w launch" where
  "startup M es w =
     (let addr = envOr M ''POS_ADDR'' defaultAddr;
          dbPath = dataPath M;
          dir = mcDir M dbPath;
          url = ''http://'' @ addr @ ''/'';
          started = (if mcGetenv M ''POS_NO_BROWSER'' = '''' then [browserCommand M url] else [])
      in case (if dir \<noteq> '''' \<and> dir \<noteq> ''.'' then mcMkdirAll M dir else None) of
           Some m \<Rightarrow> fatal (''startup: cannot create data directory: '' @ m)
         | None \<Rightarrow> (case openStore M (es 0) dbPath of
             Inl m \<Rightarrow> fatal (''startup: cannot open database: '' @ m)
           | Inr D \<Rightarrow> (case SeedIfEmpty (\<lambda>n. es (n + 1)) D of
               (Inl x, D1) \<Rightarrow> fatal (''startup: cannot seed catalogue: '' @ errText x)
             | (Inr _, D1) \<Rightarrow> (case mcListen M addr of
                 AddrInUse \<Rightarrow> \<lparr>laEnding = HandedOver, laStarted = started, laServer = None\<rparr>
               | ListenErr m \<Rightarrow> fatal (''cannot bind '' @ addr @ '': '' @ m)
               | Listening \<Rightarrow> \<lparr>laEnding = Serving, laStarted = started,
                   laServer = Some (newServer D1 (Some NewController) (envOr M ''POS_CLOUD'' defaultCloudURL) w)\<rparr>))))"

section \<open>Serving\<close>

fun serveAll :: "('w outside \<times> request) list \<Rightarrow> 'w server \<Rightarrow> 'w server" where
  "serveAll [] s = s"
| "serveAll ((o', rq) # rqs) s = serveAll rqs (snd (serve o' rq s))"

text \<open>The ids each request draws are fresh, and what the cloud sends has keys the database takes.\<close>

fun admissible :: "('w outside \<times> request) list \<Rightarrow> 'w server \<Rightarrow> bool" where
  "admissible [] s \<longleftrightarrow> True"
| "admissible ((o', rq) # rqs) s \<longleftrightarrow>
     freshEnv (ouEnv o' 0) (svDB s) \<and> goodClient (httpClient (ouTransport o')) \<and>
     admissible rqs (snd (serve o' rq s))"

definition seedsFresh :: "(nat \<Rightarrow> env) \<Rightarrow> nat \<Rightarrow> nat \<Rightarrow> db \<Rightarrow> bool" where
  "seedsFresh es n k D \<longleftrightarrow> (\<forall>m. n \<le> m \<and> m < n + k \<longrightarrow> freshEnv (es m) D) \<and> inj_on (\<lambda>m. eRowID (es m)) {n..<n + k}"

section \<open>What holds from the file on\<close>

lemma seed_fresh:
  assumes "addProduct e d False D = (x, D')" and "freshEnv e' D" and "eRowID e' \<noteq> eRowID e"
  shows "freshEnv e' D'"
proof (rule dbUpdate_inv [OF assms(1) [unfolded addProduct_def]])
  fix p D1
  assume "addProductTx e d False D = Inr (p, D1)"
  from addProductTx_fields [OF this] assms(2,3) show "freshEnv e' D1"
    by (auto simp: freshEnv_def split: if_splits)
qed (rule assms(2))

lemma seedLoop_ops:
  "seedLoop es n sps D = (r, D') \<Longrightarrow> seedsFresh es n (length sps) D \<Longrightarrow> local_op\<^sup>*\<^sup>* D D'"
proof (induction es n sps D rule: seedLoop.induct)
  case (2 es n sp sps D)
  obtain x D1 where one: "addProduct (es n) (starterDraft sp) False D = (x, D1)"
    by (cases "addProduct (es n) (starterDraft sp) False D")
  have fresh: "freshEnv (es m) D" if "n \<le> m" "m < n + length (sp # sps)" for m
    using 2(3) that by (simp add: seedsFresh_def)
  have step: "local_op D D1" using op_add [of "es n" D "starterDraft sp" False] fresh [of n] one by simp
  show ?case
  proof (cases x)
    case (Inl y)
    with 2(2) one step show ?thesis by auto
  next
    case (Inr p)
    have "freshEnv (es m) D1" if "Suc n \<le> m" "m < Suc n + length sps" for m
    proof (rule seed_fresh [OF one])
      show "freshEnv (es m) D" using fresh that by simp
      have "inj_on (\<lambda>m. eRowID (es m)) {n..<n + length (sp # sps)}" using 2(3) by (simp add: seedsFresh_def)
      then show "eRowID (es m) \<noteq> eRowID (es n)" using that by (force dest: inj_onD)
    qed
    moreover have "inj_on (\<lambda>m. eRowID (es m)) {Suc n..<Suc n + length sps}"
      using 2(3) by (auto simp: seedsFresh_def elim: inj_on_subset)
    ultimately have "seedsFresh es (Suc n) (length sps) D1" by (simp add: seedsFresh_def)
    moreover have "seedLoop es (Suc n) sps D1 = (r, D')" using 2(2) one Inr by simp
    ultimately have "local_op\<^sup>*\<^sup>* D1 D'" using 2(1) [OF one [symmetric] Inr] by blast
    with step show ?thesis by (rule converse_rtranclp_into_rtranclp)
  qed
qed simp

lemma openStore_same: "openStore M e path = Inr D1 \<Longrightarrow> mcOpenDB M path = Inr D1"
  by (auto simp: openStore_def initStore_def dbExec_def dbUpdate_def split: sum.splits option.splits)

lemma startup_serves:
  assumes "laServer (startup M es w) = Some s"
  obtains D where "mcOpenDB M (dataPath M) = Inr D"
    and "SeedIfEmpty (\<lambda>n. es (n + 1)) D = (Inr (), svDB s)"
    and "svSync s = Some NewController" and "laEnding (startup M es w) = Serving"
    and "mcListen M (envOr M ''POS_ADDR'' defaultAddr) = Listening"
  using assms that
  by (auto simp: startup_def fatal_def newServer_def Let_def
      split: if_splits option.splits sum.splits prod.splits binding.splits dest!: openStore_same)

lemma SeedIfEmpty_ops:
  "SeedIfEmpty es D = (r, D') \<Longrightarrow> seedsFresh es 0 (length starter) D \<Longrightarrow> local_op\<^sup>*\<^sup>* D D'"
  by (auto simp: SeedIfEmpty_def split: sum.splits if_splits intro: seedLoop_ops)

lemma serveAll_run:
  "admissible rqs s \<Longrightarrow> \<exists>A' B'. till_step\<^sup>*\<^sup>* (svDB s, Idle, A, B) (svDB (serveAll rqs s), Idle, A', B')"
proof (induction rqs arbitrary: s A B)
  case (Cons orq rqs)
  obtain o' rq where q: "orq = (o', rq)" by (cases orq)
  obtain r s1 where one: "serve o' rq s = (r, s1)" by (cases "serve o' rq s")
  with q Cons.prems have "freshEnv (ouEnv o' 0) (svDB s)" "goodClient (httpClient (ouTransport o'))" "admissible rqs s1"
    by simp_all
  with serve_refines [OF one, of A B] obtain A1 B1 where
    "till_step\<^sup>*\<^sup>* (svDB s, Idle, A, B) (svDB s1, Idle, A1, B1)" by blast
  moreover obtain A' B' where "till_step\<^sup>*\<^sup>* (svDB s1, Idle, A1, B1) (svDB (serveAll rqs s1), Idle, A', B')"
    using Cons.IH [OF \<open>admissible rqs s1\<close>] by blast
  ultimately show ?case using q one by (auto intro: rtranclp_trans)
qed auto

text \<open>
  C8. Nothing is lost across restarts. Take the file as an earlier run left it, at any moment
  of a sync cycle, and start the agent on it: whatever requests it then serves, the store is
  reached from the file by whole transactions (\<open>till_step\<close>), every invariant holds, each sale
  and stock event of the file is there unchanged, and each one the store holds is queued for
  the push or was taken or sent by the cloud in that run.
\<close>

theorem restart_loses_nothing:
  assumes "till_step\<^sup>*\<^sup>* newTill (D, ph, A, B)" and "mcOpenDB M (dataPath M) = Inr D"
    and "seedsFresh (\<lambda>n. es (n + 1)) 0 (length starter) D"
    and "laServer (startup M es w) = Some s" and "admissible rqs s"
  shows "\<exists>A' B'. till_step\<^sup>*\<^sup>* (D, Idle, A, B) (svDB (serveAll rqs s), Idle, A', B') \<and>
     store_inv (svDB (serveAll rqs s)) \<and> keepsRows D (svDB (serveAll rqs s)) \<and>
     (\<forall>k c. bGet (bSales (svDB (serveAll rqs s))) k = Some c \<longrightarrow>
        k \<in> fst ` set (bPendingSale (svDB (serveAll rqs s))) \<or> (\<exists>sale \<in> A'. c = Json sale)) \<and>
     (\<forall>k c. bGet (bStockEvents (svDB (serveAll rqs s))) k = Some c \<longrightarrow>
        k \<in> fst ` set (bPendingStock (svDB (serveAll rqs s))) \<or> (\<exists>ev \<in> B'. c = Json ev))"
proof -
  have "SeedIfEmpty (\<lambda>n. es (n + 1)) D = (Inr (), svDB s)"
    using startup_serves [OF assms(4)] assms(2) by (metis sum.inject(2))
  from local_ops_run [OF SeedIfEmpty_ops [OF this assms(3)]]
  have "till_step\<^sup>*\<^sup>* (D, Idle, A, B) (svDB s, Idle, A, B)" .
  with serveAll_run [OF assms(5), of A B] obtain A' B' where
    run: "till_step\<^sup>*\<^sup>* (D, Idle, A, B) (svDB (serveAll rqs s), Idle, A', B')" by (meson rtranclp_trans)
  have "tillInv (D, Idle, A, B)" using till_reach_inv [OF assms(1) newTill_inv] by (simp add: phaseOK_def)
  from till_reach_inv [OF run this] run show ?thesis
    unfolding tillInv.simps known_def pend_def fst_conv by blast
qed

text \<open>
  C34. Launching the agent again cannot open the page of the one that runs. The running agent
  holds the database file, which bbolt then refuses to open (its documented lock timeout); the
  second launch ends with a fatal message before it comes to the listening address, and starts
  no browser. It hands over only when it got hold of the database itself.
\<close>

theorem second_launch_fails:
  assumes "mcOpenDB M (dataPath M) = Inl m" and "mcListen M (envOr M ''POS_ADDR'' defaultAddr) = AddrInUse"
  shows "(\<exists>msg. laEnding (startup M es w) = Fatal msg) \<and> laStarted (startup M es w) = [] \<and>
     (\<forall>M'. laEnding (startup M' es w) = HandedOver \<longrightarrow> (\<exists>D. mcOpenDB M' (dataPath M') = Inr D))"
proof -
  have "openStore M (es 0) (dataPath M) = Inl m" using assms(1) by (simp add: openStore_def)
  moreover have "\<exists>D. mcOpenDB M' (dataPath M') = Inr D" if "laEnding (startup M' es w) = HandedOver" for M'
    using that by (auto simp: startup_def fatal_def Let_def
        split: if_splits option.splits sum.splits prod.splits binding.splits dest!: openStore_same)
  ultimately show ?thesis by (auto simp: startup_def fatal_def Let_def split: option.split)
qed

section \<open>Example: a first launch, a second one, a sale\<close>

definition demoMachine :: "(string + db) \<Rightarrow> binding \<Rightarrow> machine" where
  "demoMachine file b = \<lparr>mcGetenv = (\<lambda>_. ''''), mcConfigDir = None, mcGOOS = ''linux'', mcDir = (\<lambda>_. ''data''),
     mcJoin = joinWith ''/'', mcMkdirAll = (\<lambda>_. None), mcOpenDB = (\<lambda>_. file), mcListen = (\<lambda>_. b)\<rparr>"

lemma demoMachine_simps [simp]:
  "mcOpenDB (demoMachine file b) p = file" "mcListen (demoMachine file b) a = b"
  "mcMkdirAll (demoMachine file b) d = None" "mcDir (demoMachine file b) d = ''data''"
  "mcGetenv (demoMachine file b) v = ''''"
  by (simp_all add: demoMachine_def)

theorem second_launch_fails_witness:
  "laStarted (startup (demoMachine (Inl ''timeout'') AddrInUse) demoEnv (0 :: nat)) = []"
  using second_launch_fails [of "demoMachine (Inl ''timeout'') AddrInUse" "''timeout''" demoEnv "0 :: nat"] by simp

lemma demo_seeds: "seedsFresh (\<lambda>n. demoEnv (n + 1)) 0 (length starter) emptyDB"
  by (simp add: seedsFresh_def freshEnv_def emptyDB_def inj_on_def demoID_def)

lemma startup_listening:
  assumes "mcMkdirAll M (mcDir M (dataPath M)) = None" and "openStore M (es 0) (dataPath M) = Inr D"
    and "SeedIfEmpty (\<lambda>n. es (n + 1)) D = (Inr (), D1)"
    and "mcListen M (envOr M ''POS_ADDR'' defaultAddr) = Listening"
  shows "laServer (startup M es w) =
    Some (newServer D1 (Some NewController) (envOr M ''POS_CLOUD'' defaultCloudURL) w)"
  using assms by (simp add: startup_def Let_def)

lemma demo_launch:
  obtains s where "laServer (startup (demoMachine (Inr emptyDB) Listening) demoEnv (0 :: nat)) = Some s"
    and "freshEnv (demoEnv 9) (svDB s)"
proof -
  let ?es = "\<lambda>n. demoEnv (n + 1)"
  have e: "catalogue_inv emptyDB" "bStockEvents emptyDB = []" "bSales emptyDB = []" "bProducts emptyDB = []"
    by (simp_all add: emptyDB_def catalogue_inv_def table_inv_def index_sound_def keyed_def)
  have len: "length starter = 8" by (simp add: starter_def)
  have ok: "eIO (?es n) = None \<and> goodKey (eRowID (?es n))" if "n < length starter" for n
    using that len by (simp add: goodKey_demoID maxKeySize_def)
  have dist: "distinct (map (\<lambda>n. eRowID (?es n)) [0..<length starter])"
    by (simp add: distinct_map inj_on_def demoID_def)
  from SeedIfEmpty_seeds [of emptyDB ?es, OF e(1) _ _ ok dist] obtain D where
    D: "SeedIfEmpty ?es emptyDB = (Inr (), D)" "D = emptyDB\<lparr>bProducts := bProducts D\<rparr>"
      "bGet (bProducts D) = bGet [] ++ map_of (map (\<lambda>n. (eRowID (?es n),
         Json (draftProduct (?es n) (starterDraft (starter ! n))))) [0..<length starter])"
    unfolding e by auto
  have "openStore (demoMachine (Inr emptyDB) Listening) (demoEnv 0) p = Inr emptyDB" for p
    by (simp add: openStore_def initStore_def dbExec_def dbUpdate_def)
  with startup_listening [of "demoMachine (Inr emptyDB) Listening" demoEnv emptyDB D "0 :: nat"] D(1) obtain url where
    "laServer (startup (demoMachine (Inr emptyDB) Listening) demoEnv (0 :: nat)) =
       Some (newServer D (Some NewController) url 0)" by (simp only: demoMachine_simps simp_thms)
  moreover have "freshEnv (demoEnv 9) D"
  proof -
    have ne: "demoID ''row'' 9 \<noteq> demoID ''row'' (Suc n)" if "n < 8" for n
      using that by (auto simp: demoID_def dest: arg_cong [of _ _ length])
    have "bGet (bProducts D) (eRowID (demoEnv 9)) = None"
      unfolding D(3) len by (auto simp: map_add_None map_of_eq_None_iff ne)
    moreover have "bSales D = []" using arg_cong [OF D(2), of bSales] e by simp
    moreover have "bStockEvents D = []" using arg_cong [OF D(2), of bStockEvents] e by simp
    ultimately show ?thesis by (simp add: freshEnv_def demoID_def)
  qed
  ultimately show ?thesis using that [of "newServer D (Some NewController) url 0"] by (simp add: newServer_def)
qed

definition demoAdd :: "nat outside \<times> request" where
  "demoAdd = (demoOutside\<lparr>ouEnv := \<lambda>_. demoEnv 9\<rparr>, RqProducts MethodPost (Some [''name'' \<mapsto> RawString ''Tea'']))"

theorem restart_loses_nothing_witness:
  "\<exists>s. laServer (startup (demoMachine (Inr emptyDB) Listening) demoEnv (0 :: nat)) = Some s \<and>
     store_inv (svDB (serveAll [demoAdd] s))"
proof -
  obtain s where s: "laServer (startup (demoMachine (Inr emptyDB) Listening) demoEnv (0 :: nat)) = Some s"
    and f: "freshEnv (demoEnv 9) (svDB s)" by (rule demo_launch)
  have "goodClient (httpClient deadTransport)"
    by (simp add: goodClient_def httpClient_def deadTransport_def clientPull_def post_def)
  then have "admissible [demoAdd] s" using f by (simp add: demoAdd_def)
  with restart_loses_nothing [of emptyDB Idle "{}" "{}", OF _ _ demo_seeds s] show ?thesis
    using s by (fastforce simp: newTill_def)
qed

end
