(* ===== verification/Shop.thy ===== *)
theory Shop
  imports Till Search Analytics
begin

text \<open>
  What \<^verbatim>\<open>store.Local\<close> promises, as a plain shop. The interface of \<^verbatim>\<open>store.go\<close> says that the web
  layer depends on it and never on a concrete engine; \<open>call\<close> and \<open>answer\<close> are its methods and
  results, \<open>bolt\<close> is the bolt store behind it, and \<open>shopDo\<close> is the contract: finite maps of items,
  sales and stock movements, a register of barcodes, the settings and the logo, with no
  buckets, reference index, activity log, outbox or sync state. The locale \<open>local_store\<close> is the
  contract for any engine, interpreted on the shop itself and on the bolt store.
  \<open>store_is_the_shop\<close>: over any sequence of calls the store answers exactly as the shop does. Reading the activity log is not
  part of it (\<open>AuditLog\<close>), nor are seeding and closing.
\<close>

section \<open>The shop\<close>

record shop =
  shItems :: "string \<rightharpoonup> Product"
  shSold :: "string \<rightharpoonup> Sale"
  shMoves :: "string \<rightharpoonup> StockEvent"
  shCodes :: "string \<rightharpoonup> string"
  shPrefs :: "string \<rightharpoonup> string"
  shLogo :: "bytes option"

text \<open>The rows of a map in the order of their ids.\<close>

definition rowsOf :: "(string \<rightharpoonup> 'a) \<Rightarrow> 'a list" where
  "rowsOf m = map (\<lambda>i. the (m i)) (sorted_list_of_set (dom m))"

definition shelfCount :: "shop \<Rightarrow> string \<Rightarrow> int" where
  "shelfCount sh pid = wrapI (sumDelta pid (rowsOf (shMoves sh)) - sumSold pid (rowsOf (shSold sh)))"

definition onShelf :: "shop \<Rightarrow> Product \<Rightarrow> Product" where
  "onShelf sh p = p\<lparr>pStock := (if pTrackStock p then max0 (shelfCount sh (pID p)) else 0)\<rparr>"

fun lineItems :: "(string \<rightharpoonup> Product) \<Rightarrow> SaleLine list \<Rightarrow> err + SaleItem list" where
  "lineItems items [] = Inr []"
| "lineItems items (l # ls) =
     (if lnQty l \<le> 0 then Inl ErrInvalidQuantity
      else case items (lnProductID l) of
        None \<Rightarrow> Inl (ErrUnknownProduct (lnProductID l))
      | Some p \<Rightarrow> rbind (lineItems items ls) (\<lambda>its. Inr (snapItem p l # its)))"

definition taxIn :: "(string \<rightharpoonup> string) \<Rightarrow> int \<times> string" where
  "taxIn prefs = (fst (atoi (the (prefs KeyTaxRateBps))),
     if the (prefs KeyTaxMode) = '''' then TaxModeNone else the (prefs KeyTaxMode))"

section \<open>The interface\<close>

datatype call =
    CallProducts
  | CallAddProduct ProductDraft
  | CallUpdateProduct string ProductDraft
  | CallDeleteProduct string
  | CallProductByBarcode string
  | CallRestock string int
  | CallCreateSale SaleInput
  | CallSalesSince gotime
  | CallSaleByID string
  | CallSalesByReference string
  | CallSearchSales SearchCriteria
  | CallAnalytics gotime
  | CallSettings
  | CallSetSetting string string
  | CallLogo
  | CallSetLogo bytes
  | CallDeleteLogo

datatype answer =
    Failed err
  | Done
  | AProduct Product
  | MaybeProduct "Product option"
  | SomeProducts "Product list"
  | ASale Sale
  | MaybeSale "Sale option"
  | SomeSales "Sale list"
  | Figures Analytics
  | AllSettings "string \<rightharpoonup> string"
  | MaybeLogo "bytes option"

definition answered :: "('a \<Rightarrow> answer) \<Rightarrow> err + 'a \<Rightarrow> answer" where
  "answered f r = (case r of Inl x \<Rightarrow> Failed x | Inr y \<Rightarrow> f y)"

text \<open>The bolt store as an implementation. \<open>lower\<close> is \<^verbatim>\<open>strings.ToLower\<close>.\<close>

fun bolt :: "(string \<Rightarrow> string) \<Rightarrow> env \<Rightarrow> call \<Rightarrow> db \<Rightarrow> answer \<times> db" where
  "bolt lower e CallProducts D = (answered SomeProducts (Products D), D)"
| "bolt lower e (CallAddProduct d) D = apfst (answered AProduct) (AddProduct e d D)"
| "bolt lower e (CallUpdateProduct i d) D = apfst (answered AProduct) (UpdateProduct e i d D)"
| "bolt lower e (CallDeleteProduct i) D = apfst (answered (\<lambda>u. Done)) (DeleteProduct e i D)"
| "bolt lower e (CallProductByBarcode code) D = (answered MaybeProduct (ProductByBarcode code D), D)"
| "bolt lower e (CallRestock i q) D = apfst (answered AProduct) (Restock e i q D)"
| "bolt lower e (CallCreateSale inp) D = apfst (answered ASale) (CreateSale e inp D)"
| "bolt lower e (CallSalesSince t) D = (answered SomeSales (SalesSince t D), D)"
| "bolt lower e (CallSaleByID i) D = (answered MaybeSale (SaleByID i D), D)"
| "bolt lower e (CallSalesByReference ref) D = (answered SomeSales (SalesByReference ref D), D)"
| "bolt lower e (CallSearchSales c) D = (answered SomeSales (SearchSales lower c D), D)"
| "bolt lower e (CallAnalytics now) D = (answered Figures (AnalyticsAt now D), D)"
| "bolt lower e CallSettings D = (AllSettings (Settings D), D)"
| "bolt lower e (CallSetSetting k v) D = apfst (answered (\<lambda>u. Done)) (SetSetting e k v D)"
| "bolt lower e CallLogo D = (MaybeLogo (Logo D), D)"
| "bolt lower e (CallSetLogo data) D = apfst (answered (\<lambda>u. Done)) (SetLogo e data D)"
| "bolt lower e CallDeleteLogo D = apfst (answered (\<lambda>u. Done)) (DeleteLogo e D)"

section \<open>The contract\<close>

text \<open>A change takes effect when the disk takes it; else it leaves no trace.\<close>

definition commit :: "env \<Rightarrow> answer \<Rightarrow> shop \<Rightarrow> shop \<Rightarrow> answer \<times> shop" where
  "commit e a sh' sh = (case eIO e of None \<Rightarrow> (a, sh') | Some m \<Rightarrow> (Failed (ErrIO m), sh))"

definition shopAdd :: "env \<Rightarrow> ProductDraft \<Rightarrow> shop \<Rightarrow> answer \<times> shop" where
  "shopAdd e d sh =
     (if dBarcode d \<noteq> '''' \<and> shCodes sh (dBarcode d) \<noteq> None then (Failed ErrBarcodeTaken, sh)
      else commit e (AProduct (draftProduct e d))
        (sh\<lparr>shItems := (shItems sh)(eRowID e \<mapsto> draftProduct e d),
            shCodes := (if dBarcode d = '''' then shCodes sh else (shCodes sh)(dBarcode d \<mapsto> eRowID e)),
            shMoves := (if dTrackStock d \<and> dStock d \<noteq> 0 then (shMoves sh)(eEventID e \<mapsto> initialEvent e d)
              else shMoves sh)\<rparr>) sh)"

text \<open>An edit sets the count by a movement of the difference.\<close>

definition shopUpdate :: "env \<Rightarrow> string \<Rightarrow> ProductDraft \<Rightarrow> shop \<Rightarrow> answer \<times> shop" where
  "shopUpdate e i d sh = (case shItems sh i of
     None \<Rightarrow> (Failed ErrNotFound, sh)
   | Some p \<Rightarrow>
       if dBarcode d \<noteq> '''' \<and> shCodes sh (dBarcode d) \<notin> {None, Some i} then (Failed ErrBarcodeTaken, sh)
       else
         let codes = (if pBarcode p \<noteq> dBarcode d \<and> pBarcode p \<noteq> '''' then (shCodes sh)(pBarcode p := None) else shCodes sh);
             delta = wrapI (dStock d - shelfCount sh i)
         in commit e (AProduct ((editedProduct e d p)\<lparr>pStock := (if dTrackStock d then dStock d else 0)\<rparr>))
           (sh\<lparr>shItems := (shItems sh)(i \<mapsto> editedProduct e d p),
               shCodes := (if dBarcode d = '''' then codes else codes(dBarcode d \<mapsto> i)),
               shMoves := (if dTrackStock d \<and> delta \<noteq> 0 then (shMoves sh)(eEventID e \<mapsto> correctionEvent e i delta)
                 else shMoves sh)\<rparr>) sh)"

definition shopDelete :: "env \<Rightarrow> string \<Rightarrow> shop \<Rightarrow> answer \<times> shop" where
  "shopDelete e i sh = (case shItems sh i of
     None \<Rightarrow> (Failed ErrNotFound, sh)
   | Some p \<Rightarrow> commit e Done
       (sh\<lparr>shItems := (shItems sh)(i \<mapsto> p\<lparr>pActive := False, pDeletedAt := Some (eNow e), pUpdatedAt := eNow e\<rparr>),
           shCodes := (if pBarcode p \<noteq> '''' then (shCodes sh)(pBarcode p := None) else shCodes sh)\<rparr>) sh)"

definition shopScan :: "string \<Rightarrow> shop \<Rightarrow> Product option" where
  "shopScan code sh = (case shCodes sh code of
     None \<Rightarrow> None
   | Some i \<Rightarrow> (case shItems sh i of
       None \<Rightarrow> None
     | Some p \<Rightarrow> if \<not> pActive p then None else Some (if pTrackStock p then onShelf sh p else p)))"

definition shopRestock :: "env \<Rightarrow> string \<Rightarrow> int \<Rightarrow> shop \<Rightarrow> answer \<times> shop" where
  "shopRestock e i q sh = (case shItems sh i of
     None \<Rightarrow> (Failed ErrNotFound, sh)
   | Some p \<Rightarrow>
       if q = 0 then (AProduct (p\<lparr>pStock := max0 (shelfCount sh i)\<rparr>), sh)
       else
         let sh' = sh\<lparr>shMoves := (shMoves sh)(eEventID e \<mapsto> \<lparr>evID = eEventID e, evProductID = i, evDelta = q,
                        evReason = StockRestock, evCreatedAt = eNow e\<rparr>)\<rparr>
         in commit e (AProduct (p\<lparr>pStock := max0 (shelfCount sh' i)\<rparr>)) sh' sh)"

definition shopSale :: "env \<Rightarrow> SaleInput \<Rightarrow> shop \<Rightarrow> answer \<times> shop" where
  "shopSale e inp sh = (case lineItems (shItems sh) (inLines inp) of
     Inl x \<Rightarrow> (Failed x, sh)
   | Inr its \<Rightarrow>
       if its = [] then (Failed ErrEmptySale, sh)
       else case taxIn (shPrefs sh) of (rateBps, mode) \<Rightarrow>
         let s = newSale e inp rateBps mode its in
         if inPaidCents inp < saTotalCents s then (Failed ErrUnderpaid, sh)
         else commit e (ASale s) (sh\<lparr>shSold := (shSold sh)(eRowID e \<mapsto> s)\<rparr>) sh)"

fun shopDo :: "(string \<Rightarrow> string) \<Rightarrow> env \<Rightarrow> call \<Rightarrow> shop \<Rightarrow> answer \<times> shop" where
  "shopDo lower e CallProducts sh = (SomeProducts (sort_key pName (map (onShelf sh) (filter pActive (rowsOf (shItems sh))))), sh)"
| "shopDo lower e (CallAddProduct d) sh = shopAdd e d sh"
| "shopDo lower e (CallUpdateProduct i d) sh = shopUpdate e i d sh"
| "shopDo lower e (CallDeleteProduct i) sh = shopDelete e i sh"
| "shopDo lower e (CallProductByBarcode code) sh = (MaybeProduct (shopScan code sh), sh)"
| "shopDo lower e (CallRestock i q) sh = shopRestock e i q sh"
| "shopDo lower e (CallCreateSale inp) sh = shopSale e inp sh"
| "shopDo lower e (CallSalesSince t) sh =
     (SomeSales (newestFirst (filter (\<lambda>s. \<not> tBefore (saCreatedAt s) t) (rowsOf (shSold sh)))), sh)"
| "shopDo lower e (CallSaleByID i) sh = (MaybeSale (shSold sh i), sh)"
| "shopDo lower e (CallSalesByReference ref) sh =
     (SomeSales (if ref = '''' then [] else newestFirst (filter (\<lambda>s. saReference s = ref) (rowsOf (shSold sh)))), sh)"
| "shopDo lower e (CallSearchSales c) sh =
     (SomeSales (take (searchLimit c) (newestFirst (filter (hit lower c) (rowsOf (shSold sh))))), sh)"
| "shopDo lower e (CallAnalytics now) sh =
     (case foldl (countSale now) (emptyAnalytics now, []) (rowsOf (shSold sh)) of (a, agg) \<Rightarrow>
        (Figures (a\<lparr>anTopProducts := rankStats agg\<rparr>), sh))"
| "shopDo lower e CallSettings sh = (AllSettings (shPrefs sh), sh)"
| "shopDo lower e (CallSetSetting k v) sh = commit e Done (sh\<lparr>shPrefs := (shPrefs sh)(k \<mapsto> v)\<rparr>) sh"
| "shopDo lower e CallLogo sh = (MaybeLogo (shLogo sh), sh)"
| "shopDo lower e (CallSetLogo data) sh =
     commit e Done (sh\<lparr>shLogo := Some data, shPrefs := (shPrefs sh)(KeyHasLogo \<mapsto> ''yes'')\<rparr>) sh"
| "shopDo lower e CallDeleteLogo sh =
     commit e Done (sh\<lparr>shLogo := None, shPrefs := (shPrefs sh)(KeyHasLogo \<mapsto> ''no'')\<rparr>) sh"

section \<open>From the store to the shop\<close>

definition valAt :: "'a cell bucket \<Rightarrow> string \<Rightarrow> 'a option" where
  "valAt b i = (case bGet b i of Some (Json x) \<Rightarrow> Some x | _ \<Rightarrow> None)"

definition shopOf :: "db \<Rightarrow> shop" where
  "shopOf D = \<lparr>shItems = valAt (bProducts D), shSold = valAt (bSales D), shMoves = valAt (bStockEvents D),
     shCodes = bGet (bBarcodeIdx D), shPrefs = Settings D, shLogo = Logo D\<rparr>"

lemma shopOf_simps [simp]:
  "shItems (shopOf D) = valAt (bProducts D)" "shSold (shopOf D) = valAt (bSales D)"
  "shMoves (shopOf D) = valAt (bStockEvents D)" "shCodes (shopOf D) = bGet (bBarcodeIdx D)"
  "shPrefs (shopOf D) = Settings D" "shLogo (shopOf D) = Logo D"
  by (simp_all add: shopOf_def)

lemma valAt_iff: "valAt b i = Some x \<longleftrightarrow> bGet b i = Some (Json x)"
  by (auto simp: valAt_def split: option.splits cell.splits)

lemma valAt_None: "readable b \<Longrightarrow> valAt b i = None \<longleftrightarrow> bGet b i = None"
  by (auto simp: valAt_def dest: readable_get split: option.splits cell.splits)

lemma valAt_bput [simp]: "valAt (bput k (Json x) b) = (valAt b)(k \<mapsto> x)"
  by (rule ext) (simp add: valAt_def)

lemma rowsOf_valAt:
  assumes "readable b" and "bsorted b"
  shows "rowsOf (valAt b) = cellVals b"
proof -
  have "dom (valAt b) = fst ` set b"
    using valAt_None [OF assms(1)] by (auto simp: dom_def bGet_None_iff)
  moreover have "sorted_list_of_set (set (map fst b)) = map fst b"
    using assms(2) by (intro sorted_list_of_set.idem_if_sorted_distinct) (simp_all add: bsorted_def strict_sorted_iff)
  moreover have "map (\<lambda>i. the (valAt b i)) (map fst b) = cellVals b"
    using assms
  proof (induction b)
    case (Cons kc b)
    obtain k c where kc: "kc = (k, c)" by (cases kc)
    with Cons.prems obtain x where x: "c = Json x" by (cases c) (auto simp: readable_def)
    have rest: "readable b" "bsorted b" using Cons.prems by (auto simp: readable_def bsorted_def)
    have others: "the (valAt (kc # b) i) = the (valAt b i)" if "i \<in> set (map fst b)" for i
      using that Cons.prems(2) by (auto simp: valAt_def kc bsorted_def)
    have "map (\<lambda>i. the (valAt (kc # b) i)) (map fst b) = map (\<lambda>i. the (valAt b i)) (map fst b)"
      by (rule map_cong) (simp_all only: others)
    with Cons.IH [OF rest] have "map (\<lambda>i. the (valAt (kc # b) i)) (map fst b) = cellVals b" by (simp only:)
    moreover have "the (valAt (kc # b) k) = x" by (simp add: valAt_def kc x)
    ultimately show ?case by (simp only: kc x list.map fst_conv cellVals.simps)
  qed simp
  ultimately show ?thesis by (simp add: rowsOf_def)
qed

section \<open>Each call, seen from the shop\<close>

text \<open>The environment a call may meet: ids that are not in use and that the database takes, and,
  for a call that names its own key, one that it takes.\<close>

definition goodIDs :: "env \<Rightarrow> db \<Rightarrow> bool" where
  "goodIDs e D \<longleftrightarrow> freshEnv e D \<and> goodKey (eRowID e) \<and> goodKey (eEventID e)"

fun takes :: "env \<Rightarrow> call \<Rightarrow> bool" where
  "takes e (CallAddProduct d) \<longleftrightarrow> dBarcode d = '''' \<or> goodKey (dBarcode d)"
| "takes e (CallUpdateProduct i d) \<longleftrightarrow> goodKey i \<and> (dBarcode d = '''' \<or> goodKey (dBarcode d))"
| "takes e (CallDeleteProduct i) \<longleftrightarrow> goodKey i"
| "takes e (CallCreateSale inp) \<longleftrightarrow> inReference inp = '''' \<or> goodKey (refKey (inReference inp) (eRowID e))"
| "takes e (CallSetSetting k v) \<longleftrightarrow> goodKey k"
| "takes e c \<longleftrightarrow> True"

lemma store_tables:
  assumes "store_inv D"
  shows "readable (bProducts D)" "bsorted (bProducts D)" "keyed pID (bProducts D)"
    and "readable (bSales D)" "bsorted (bSales D)" "keyed saID (bSales D)"
    and "readable (bStockEvents D)" "bsorted (bStockEvents D)" "bsorted (bSettings D)" "bsorted (bBarcodeIdx D)"
    and "sales_inv D" "catalogue_inv D"
  using assms by (simp_all add: store_inv_def catalogue_inv_def sales_inv_def stock_inv_def table_inv_def)

lemma shop_rows:
  assumes "store_inv D"
  shows "rowsOf (valAt (bProducts D)) = cellVals (bProducts D)" "rowsOf (valAt (bSales D)) = cellVals (bSales D)"
    and "rowsOf (valAt (bStockEvents D)) = cellVals (bStockEvents D)"
    and "shelfCount (shopOf D) pid = wrapI (onHand pid D)" "onShelf (shopOf D) p = shown D p"
proof -
  note t = store_tables [OF assms]
  show rows: "rowsOf (valAt (bProducts D)) = cellVals (bProducts D)" "rowsOf (valAt (bSales D)) = cellVals (bSales D)"
    "rowsOf (valAt (bStockEvents D)) = cellVals (bStockEvents D)"
    by (simp_all add: rowsOf_valAt t)
  show "shelfCount (shopOf D) pid = wrapI (onHand pid D)" for pid
    by (simp add: shelfCount_def onHand_def rows)
  then show "onShelf (shopOf D) p = shown D p" by (simp add: onShelf_def shown_def)
qed

text \<open>A transaction is its body and the commit.\<close>

lemma update_commits:
  assumes "f D = Inr (r, D')"
  shows "apfst (answered h) (dbUpdate e f D) = (case eIO e of None \<Rightarrow> (h r, D') | Some m \<Rightarrow> (Failed (ErrIO m), D))"
  using assms by (simp add: dbUpdate_def answered_def split: option.split)

lemma update_fails: "f D = Inl x \<Longrightarrow> apfst (answered h) (dbUpdate e f D) = (Failed x, D)"
  by (simp add: dbUpdate_def answered_def)

lemma exec_commits:
  assumes "f D = Inr D'"
  shows "apfst (answered h) (dbExec e f D) = (case eIO e of None \<Rightarrow> (h (), D') | Some m \<Rightarrow> (Failed (ErrIO m), D))"
  unfolding dbExec_def by (rule update_commits) (simp add: assms)

lemma exec_fails: "f D = Inl x \<Longrightarrow> apfst (answered h) (dbExec e f D) = (Failed x, D)"
  unfolding dbExec_def by (rule update_fails) simp

lemma commit_shop:
  "apsnd shopOf (case eIO e of None \<Rightarrow> (a, D') | Some m \<Rightarrow> (Failed (ErrIO m), D)) = commit e a (shopOf D') (shopOf D)"
  by (simp add: commit_def split: option.split)

definition agrees :: "(string \<Rightarrow> string) \<Rightarrow> env \<Rightarrow> call \<Rightarrow> db \<Rightarrow> bool" where
  "agrees lower e c D \<longleftrightarrow> apsnd shopOf (bolt lower e c D) = shopDo lower e c (shopOf D)"

lemma agrees_update_tx:
  assumes "bolt lower e c D = apfst (answered h) (dbUpdate e f D)" and "f D = Inr (r, D')"
    and "shopDo lower e c (shopOf D) = commit e (h r) (shopOf D') (shopOf D)"
  shows "agrees lower e c D"
  unfolding agrees_def assms(1,3) update_commits [of f, OF assms(2)] by (rule commit_shop)

lemma agrees_exec_tx:
  assumes "bolt lower e c D = apfst (answered h) (dbExec e f D)" and "f D = Inr D'"
    and "shopDo lower e c (shopOf D) = commit e (h ()) (shopOf D') (shopOf D)"
  shows "agrees lower e c D"
  unfolding agrees_def assms(1,3) exec_commits [of f, OF assms(2)] by (rule commit_shop)

lemmas bolt_tx = bolt.simps AddProduct_def addProduct_def UpdateProduct_def DeleteProduct_def CreateSale_def
  SetSetting_def SetLogo_def DeleteLogo_def

lemma shop_eqI:
  "shItems x = shItems y \<Longrightarrow> shSold x = shSold y \<Longrightarrow> shMoves x = shMoves y \<Longrightarrow> shCodes x = shCodes y \<Longrightarrow>
   shPrefs x = shPrefs y \<Longrightarrow> shLogo x = shLogo y \<Longrightarrow> x = (y :: shop)"
  by (rule shop.equality) simp_all

lemma prefs_same: "bSettings D' = bSettings D \<Longrightarrow> Settings D' = Settings D"
  by (simp add: Settings_def)

lemma logo_same: "bBlobs D' = bBlobs D \<Longrightarrow> Logo D' = Logo D"
  by (simp add: Logo_def)

lemma agrees_add:
  assumes "store_inv D" and "goodIDs e D" and "takes e (CallAddProduct d)"
  shows "agrees lower e (CallAddProduct d) D"
proof (cases "dBarcode d \<noteq> '''' \<and> bGet (bBarcodeIdx D) (dBarcode d) \<noteq> None")
  case True
  then have "addProductTx e d True D = Inl ErrBarcodeTaken" by (simp add: addProductTx_def Let_def)
  with True show ?thesis
    by (simp add: agrees_def AddProduct_def addProduct_def update_fails shopAdd_def)
next
  case False
  have "goodKey (eRowID e)" "goodKey (eEventID e)" using assms(2) by (simp_all add: goodIDs_def)
  with False assms(3) obtain D' where tx: "addProductTx e d True D = Inr (draftProduct e d, D')"
    using addProductTx_succeeds [of e d D True] by auto
  note f = addProductTx_fields [OF tx]
  have eq: "shopOf D' = (shopOf D)\<lparr>shItems := (valAt (bProducts D))(eRowID e \<mapsto> draftProduct e d),
      shCodes := (if dBarcode d = '''' then bGet (bBarcodeIdx D) else (bGet (bBarcodeIdx D))(dBarcode d \<mapsto> eRowID e)),
      shMoves := (if dTrackStock d \<and> dStock d \<noteq> 0 then (valAt (bStockEvents D))(eEventID e \<mapsto> initialEvent e d)
        else valAt (bStockEvents D))\<rparr>"
    by (rule shop_eqI) (simp_all add: f(5,6,8,10) prefs_same [OF f(11)] logo_same [OF f(12)])
  show ?thesis
    by (rule agrees_update_tx [where f = "addProductTx e d True" and h = "AProduct", OF _ tx])
      (simp_all only: bolt_tx shopDo.simps shopAdd_def shopOf_simps False if_False eq)
qed

lemma agrees_update:
  assumes "store_inv D" and "goodIDs e D" and "takes e (CallUpdateProduct i d)"
  shows "agrees lower e (CallUpdateProduct i d) D"
proof (cases "valAt (bProducts D) i")
  case None
  then have none: "bGet (bProducts D) i = None" using store_tables(1) [OF assms(1)] by (simp add: valAt_None)
  then have "updateProductTx e i d D = Inl ErrNotFound" by (simp add: updateProductTx_def)
  with None show ?thesis by (simp add: agrees_def UpdateProduct_def update_fails shopUpdate_def)
next
  case (Some p)
  then have row: "bGet (bProducts D) i = Some (Json p)" by (simp add: valAt_iff)
  note t = store_tables [OF assms(1)]
  have taken: "barcodeOfOther (dBarcode d) i (bBarcodeIdx D) \<longleftrightarrow>
      dBarcode d \<noteq> '''' \<and> bGet (bBarcodeIdx D) (dBarcode d) \<notin> {None, Some i}"
    by (auto simp: barcodeOfOther_def split: option.splits)
  show ?thesis
  proof (cases "barcodeOfOther (dBarcode d) i (bBarcodeIdx D)")
    case True
    have "onHandOf i D = Inr (wrapI (onHand i D))" using t by (simp add: onHandOf_eq_Inr)
    with True have "updateProductTx e i d D = Inl ErrBarcodeTaken" by (simp add: updateProductTx_def row)
    moreover have "shopDo lower e (CallUpdateProduct i d) (shopOf D) = (Failed ErrBarcodeTaken, shopOf D)"
      using True unfolding taken by (simp only: shopDo.simps shopUpdate_def shopOf_simps Some option.case if_True simp_thms)
    ultimately show ?thesis by (simp add: agrees_def UpdateProduct_def update_fails del: shopDo.simps)
  next
    case False
    let ?p = "(editedProduct e d p)\<lparr>pStock := (if dTrackStock d then dStock d else 0)\<rparr>"
    have "goodKey (eEventID e)" using assms(2) by (simp add: goodIDs_def)
    moreover have "goodKey i" "dBarcode d = [] \<or> goodKey (dBarcode d)" using assms(3) by simp_all
    ultimately obtain D' where tx: "updateProductTx e i d D = Inr (?p, D')"
      using updateProductTx_succeeds [OF row _ _ t(7) t(4) _ False] by blast
    obtain q where q: "bGet (bProducts D) i = Some (Json q)"
      and f: "bProducts D' = bput i (Json (editedProduct e d q)) (bProducts D)"
        "bBarcodeIdx D' = (let idx = dropOldBarcode q d (bBarcodeIdx D) in
           if dBarcode d = [] then idx else bput (dBarcode d) i idx)"
        "bStockEvents D' = (let delta = wrapI (dStock d - wrapI (onHand i D)) in
           if dTrackStock d \<and> delta \<noteq> 0
           then bput (eEventID e) (Json (correctionEvent e i delta)) (bStockEvents D) else bStockEvents D)"
        "bSales D' = bSales D" "bSettings D' = bSettings D" "bBlobs D' = bBlobs D"
      using updateProductTx_fields [OF tx] by metis
    have "q = p" using q row by simp
    note f = f [unfolded this]
    let ?codes = "if pBarcode p \<noteq> dBarcode d \<and> pBarcode p \<noteq> '''' then (bGet (bBarcodeIdx D))(pBarcode p := None)
      else bGet (bBarcodeIdx D)" and ?delta = "wrapI (dStock d - wrapI (onHand i D))"
    have codes: "bGet (dropOldBarcode p d (bBarcodeIdx D)) = ?codes"
      using t(10) by (simp add: dropOldBarcode_def)
    have eq: "shopOf D' = (shopOf D)\<lparr>shItems := (valAt (bProducts D))(i \<mapsto> editedProduct e d p),
        shCodes := (if dBarcode d = '''' then ?codes else ?codes(dBarcode d \<mapsto> i)),
        shMoves := (if dTrackStock d \<and> ?delta \<noteq> 0 then (valAt (bStockEvents D))(eEventID e \<mapsto> correctionEvent e i ?delta)
          else valAt (bStockEvents D))\<rparr>"
      by (rule shop_eqI) (simp_all add: f(1,2,3,4) codes Let_def prefs_same [OF f(5)] logo_same [OF f(6)])
    show ?thesis using False unfolding taken
      by (intro agrees_update_tx [where f = "updateProductTx e i d" and h = "AProduct", OF _ tx])
        (simp_all only: bolt_tx shopDo.simps shopUpdate_def shopOf_simps Some option.case if_False Let_def eq
          shop_rows(4) [OF assms(1)])
  qed
qed

lemma agrees_delete:
  assumes "store_inv D" and "takes e (CallDeleteProduct i)"
  shows "agrees lower e (CallDeleteProduct i) D"
proof (cases "valAt (bProducts D) i")
  case None
  then have none: "bGet (bProducts D) i = None" using store_tables(1) [OF assms(1)] by (simp add: valAt_None)
  then have "deleteProductTx e i D = Inl ErrNotFound" by (simp add: deleteProductTx_def)
  with None show ?thesis by (simp add: agrees_def DeleteProduct_def exec_fails shopDelete_def)
next
  case (Some p)
  then have row: "bGet (bProducts D) i = Some (Json p)" by (simp add: valAt_iff)
  let ?q = "p\<lparr>pActive := False, pDeletedAt := Some (eNow e), pUpdatedAt := eNow e\<rparr>"
  define D' where "D' = (logged (eNow e) (eAuditID e) actItemRemoved (pName p)
      (D\<lparr>bProducts := bput i (Json ?q) (bProducts D),
         bBarcodeIdx := (if pBarcode p \<noteq> [] then bDelete (pBarcode p) (bBarcodeIdx D) else bBarcodeIdx D)\<rparr>))
      \<lparr>bPendingProd := bput i [] (bPendingProd D)\<rparr>"
  have tx: "deleteProductTx e i D = Inr D'"
    unfolding deleteProductTx_eq_Inr D'_def using row assms(2) by auto
  have eq: "shopOf D' = (shopOf D)\<lparr>shItems := (valAt (bProducts D))(i \<mapsto> ?q),
      shCodes := (if pBarcode p \<noteq> '''' then (bGet (bBarcodeIdx D))(pBarcode p := None) else bGet (bBarcodeIdx D))\<rparr>"
    by (rule shop_eqI) (simp_all add: D'_def Settings_def Logo_def)
  show ?thesis
    by (rule agrees_exec_tx [where f = "deleteProductTx e i" and h = "\<lambda>u. Done", OF _ tx])
      (simp_all only: bolt_tx shopDo.simps shopDelete_def shopOf_simps Some option.case eq)
qed

lemma agrees_scan:
  assumes "store_inv D"
  shows "agrees lower e (CallProductByBarcode code) D"
proof -
  note t = store_tables [OF assms]
  have oh: "onHandOf i D = Inr (wrapI (onHand i D))" for i using t by (simp add: onHandOf_eq_Inr)
  have "ProductByBarcode code D = Inr (shopScan code (shopOf D))"
  proof (cases "bGet (bBarcodeIdx D) code")
    case (Some i)
    show ?thesis
    proof (cases "valAt (bProducts D) i")
      case None
      then have "bGet (bProducts D) i = None" using t(1) by (simp add: valAt_None)
      with None Some show ?thesis by (simp add: ProductByBarcode_def shopScan_def)
    next
      case (Some p)
      then have "bGet (bProducts D) i = Some (Json p)" by (simp add: valAt_iff)
      with Some \<open>bGet (bBarcodeIdx D) code = Some i\<close> show ?thesis
        by (simp add: ProductByBarcode_def shopScan_def oh shop_rows(5) [OF assms] shown_def)
    qed
  qed (simp add: ProductByBarcode_def shopScan_def)
  then show ?thesis by (simp add: agrees_def answered_def)
qed

lemma agrees_restock:
  assumes "store_inv D" and "goodIDs e D"
  shows "agrees lower e (CallRestock i q) D"
proof (cases "valAt (bProducts D) i")
  case None
  then have none: "bGet (bProducts D) i = None" using store_tables(1) [OF assms(1)] by (simp add: valAt_None)
  then have "restockTx e i q D = Inl ErrNotFound" "restockView i D = Inl ErrNotFound"
    by (simp_all add: restockTx_def restockView_def)
  with None show ?thesis by (simp add: agrees_def Restock_def shopRestock_def answered_def dbUpdate_def)
next
  case (Some p)
  then have row: "bGet (bProducts D) i = Some (Json p)" by (simp add: valAt_iff)
  note t = store_tables [OF assms(1)]
  show ?thesis
  proof (cases "q = 0")
    case True
    have "restockView i D = Inr (p\<lparr>pStock := max0 (wrapI (onHand i D))\<rparr>)"
      using t row by (simp add: restockView_def onHandOf_def [symmetric] onHandOf_eq_Inr rbind_eq_Inr)
    with True Some show ?thesis
      by (simp add: agrees_def Restock_def shopRestock_def answered_def shop_rows(4) [OF assms(1)])
  next
    case False
    let ?ev = "\<lparr>evID = eEventID e, evProductID = i, evDelta = q, evReason = StockRestock, evCreatedAt = eNow e\<rparr>"
    have "goodKey (eEventID e)" using assms(2) by (simp add: goodIDs_def)
    then obtain r D' where tx: "restockTx e i q D = Inr (r, D')"
      using restockTx_succeeds [OF row t(7,4)] by blast
    then obtain D1 where D1: "appendStockEvent ?ev D = Inr D1"
      and r: "r = p\<lparr>pStock := max0 (wrapI (onHand i D1))\<rparr>"
      and D': "D' = logged (eNow e) (eAuditID e) actStockChanged (restockDetail p q (wrapI (onHand i D1))) D1"
      using row by (auto simp: restockTx_eq_Inr Let_def)
    have f: "bProducts D1 = bProducts D" "bSales D1 = bSales D" "bBarcodeIdx D1 = bBarcodeIdx D"
      "bStockEvents D1 = bput (eEventID e) (Json ?ev) (bStockEvents D)" "bSettings D1 = bSettings D" "bBlobs D1 = bBlobs D"
      using D1 by (auto simp: appendStockEvent_eq_Inr)
    let ?sh = "(shopOf D)\<lparr>shMoves := (valAt (bStockEvents D))(eEventID e \<mapsto> ?ev)\<rparr>"
    have eq: "shopOf D' = ?sh"
      by (rule shop_eqI) (simp_all add: D' f Settings_def Logo_def)
    have "rowsOf ((valAt (bStockEvents D))(eEventID e \<mapsto> ?ev)) = cellVals (bStockEvents D1)"
      using rowsOf_valAt [of "bput (eEventID e) (Json ?ev) (bStockEvents D)"] t(7,8) by (simp add: f(4))
    then have count: "shelfCount ?sh i = wrapI (onHand i D1)"
      by (simp add: shelfCount_def onHand_def f(2) shop_rows(2) [OF assms(1)])
    show ?thesis
      by (rule agrees_update_tx [where f = "restockTx e i q" and h = "AProduct", OF _ tx])
        (simp_all only: bolt.simps Restock_def shopDo.simps shopRestock_def shopOf_simps Some option.case False if_False
          Let_def eq count r)
  qed
qed

lemma lineItems_valAt: "readable b \<Longrightarrow> lineItems (valAt b) ls = saleLines b ls"
proof (induction ls)
  case (Cons l ls)
  show ?case
  proof (cases "bGet b (lnProductID l)")
    case None
    with Cons.prems have "valAt b (lnProductID l) = None" by (simp add: valAt_None)
    with None show ?thesis by simp
  next
    case (Some c)
    with Cons.prems obtain p where c: "c = Json p" by (blast dest: readable_get)
    with Some have "valAt b (lnProductID l) = Some p" by (simp add: valAt_iff)
    with Some c Cons show ?thesis by simp
  qed
qed simp

lemma taxIn_Settings:
  assumes "bsorted (bSettings D)"
  shows "taxIn (Settings D) = taxFromBucket D"
proof -
  have "atoi ''0'' = (0, True)" by code_simp
  moreover have "Defaults KeyTaxRateBps = Some ''0''" "Defaults KeyTaxMode = Some ''none''"
    by (simp_all add: Defaults_def) (simp_all add: setting_keys)
  ultimately show ?thesis
    by (auto simp: taxIn_def taxFromBucket_def Settings_eq [OF assms] map_add_def TaxModeNone_def split: option.splits)
qed

lemma agrees_sale:
  assumes "store_inv D" and "goodIDs e D" and "takes e (CallCreateSale inp)"
  shows "agrees lower e (CallCreateSale inp) D"
proof -
  note t = store_tables [OF assms(1)]
  have lines: "lineItems (shItems (shopOf D)) ls = saleLines (bProducts D) ls" for ls
    using t(1) by (simp add: lineItems_valAt)
  have tax: "taxIn (shPrefs (shopOf D)) = taxFromBucket D" using t(9) by (simp add: taxIn_Settings)
  have refused: "agrees lower e (CallCreateSale inp) D"
    if "createSaleTx e inp D = Inl x" "shopSale e inp (shopOf D) = (Failed x, shopOf D)" for x
    using that by (simp add: agrees_def CreateSale_def update_fails)
  show ?thesis
  proof (cases "saleLines (bProducts D) (inLines inp)")
    case (Inl x)
    then show ?thesis by (intro refused [of x]) (simp_all add: createSaleTx_def shopSale_def lines del: shopOf_simps)
  next
    case (Inr its)
    obtain r m where rm: "taxFromBucket D = (r, m)" by (cases "taxFromBucket D")
    let ?s = "newSale e inp r m its"
    consider "its = []" | "its \<noteq> []" "inPaidCents inp < saTotalCents ?s" | "its \<noteq> []" "\<not> inPaidCents inp < saTotalCents ?s"
      by blast
    then show ?thesis
    proof cases
      case 1
      then show ?thesis using Inr
        by (intro refused [of ErrEmptySale]) (simp_all add: createSaleTx_def shopSale_def lines del: shopOf_simps)
    next
      case 2
      then show ?thesis using Inr rm
        by (intro refused [of ErrUnderpaid]) (simp_all add: createSaleTx_def shopSale_def lines tax Let_def del: shopOf_simps)
    next
      case 3
      define D' where "D' = D\<lparr>bSales := bput (eRowID e) (Json ?s) (bSales D),
         bRefIdx := (if inReference inp = [] then bRefIdx D
                     else bput (refKey (inReference inp) (eRowID e)) [] (bRefIdx D)),
         bPendingSale := bput (eRowID e) [] (bPendingSale D)\<rparr>"
      have its: "\<forall>l \<in> set (inLines inp). lineOK (bProducts D) l" "its = map (snapshot (bProducts D)) (inLines inp)"
        using Inr by (simp_all add: saleLines_eq_Inr)
      then have s: "saleOf e inp D = ?s" by (simp add: saleOf_def rm)
      have "saleOK e inp D"
        using 3 its assms(2,3) unfolding saleOK_def s by (auto simp: goodIDs_def)
      then have tx: "createSaleTx e inp D = Inr (?s, D')" unfolding createSaleTx_eq_Inr s D'_def by blast
      have eq: "shopOf D' = (shopOf D)\<lparr>shSold := (shSold (shopOf D))(eRowID e \<mapsto> ?s)\<rparr>"
        by (rule shop_eqI) (simp_all add: D'_def Settings_def Logo_def)
      show ?thesis
        by (rule agrees_update_tx [where f = "createSaleTx e inp" and h = "ASale", OF _ tx])
          (simp_all only: bolt_tx shopDo.simps shopSale_def lines Inr sum.case 3 if_False tax rm prod.case Let_def eq)
    qed
  qed
qed

lemma newestFirst_filter: "newestFirst (filter P (newestFirst ss)) = newestFirst (filter P ss)"
  unfolding newestFirst_def filter_sort by (simp add: sort_key_id_if_sorted filter_sort [symmetric])

text \<open>Two lists of sales in the strict order of their ids that hold the same sales are the same.\<close>

lemma same_rows:
  assumes "sorted_wrt (<) (map saID xs)" and "sorted_wrt (<) (map saID ys)" and "set xs = set ys"
  shows "xs = ys"
proof -
  have "map saID xs = map saID ys"
    using assms by (intro sorted_distinct_set_unique) (simp_all add: strict_sorted_iff)
  moreover have "inj_on saID (set xs \<union> set ys)"
    using assms by (auto simp: strict_sorted_iff distinct_map)
  ultimately show ?thesis by (simp add: inj_on_map_eq_map)
qed

lemma reference_shop:
  assumes "store_inv D" and "ref \<noteq> []"
  shows "SalesByReference ref D = Inr (newestFirst (filter (\<lambda>s. saReference s = ref) (cellVals (bSales D))))"
proof -
  note t = store_tables [OF assms(1)]
  obtain ss where ss: "SalesByReference ref D = Inr (newestFirst ss)"
    "set ss = {s. \<exists>i. bGet (bSales D) i = Some (Json s) \<and> saReference s = ref}" "sorted_wrt (<) (map saID ss)"
    using reference_rows [OF t(11) assms(2)] by blast
  let ?rows = "cellVals (bSales D)"
  have "map saID ?rows = map fst (bSales D)" by (rule keys_cellVals [OF t(4,5,6)])
  then have "sorted_wrt (<) (map saID ?rows)" using t(5) by (simp add: bsorted_def)
  then have "sorted_wrt (<) (map saID (filter (\<lambda>s. saReference s = ref) ?rows))"
    by (simp add: sorted_wrt_map sorted_wrt_filter)
  moreover have "set ss = set (filter (\<lambda>s. saReference s = ref) ?rows)"
    using ss(2) by (auto simp: set_cellVals bGet_iff [OF t(5)])
  ultimately have "ss = filter (\<lambda>s. saReference s = ref) ?rows" using same_rows [OF ss(3)] by blast
  with ss(1) show ?thesis by simp
qed

lemma matches_named:
  "scReference c \<noteq> [] \<Longrightarrow> (saReference s = scReference c \<and> matchesCriteria lower s c) = hit lower c s"
  by (cases "saReference s = scReference c") (simp add: matchesCriteria_hit, simp add: hit_def)

lemma agrees_search:
  assumes "store_inv D"
  shows "agrees lower e (CallSearchSales c) D"
proof -
  note t = store_tables [OF assms]
  let ?rows = "cellVals (bSales D)"
  have "SearchSales lower c D = Inr (take (searchLimit c) (newestFirst (filter (hit lower c) ?rows)))"
  proof (cases "scReference c = []")
    case True
    then have "filter (\<lambda>s. matchesCriteria lower s c) ?rows = filter (hit lower c) ?rows"
      by (intro filter_cong) (simp_all add: matchesCriteria_hit)
    with True t(4) show ?thesis by (simp add: SearchSales_def Let_def)
  next
    case False
    let ?named = "filter (\<lambda>s. saReference s = scReference c) ?rows"
    have "filter (\<lambda>s. matchesCriteria lower s c) ?named = filter (hit lower c) ?rows"
      unfolding filter_filter by (intro filter_cong refl matches_named False)
    with False reference_shop [OF assms False] show ?thesis
      by (simp add: SearchSales_def Let_def newestFirst_filter)
  qed
  then show ?thesis by (simp add: agrees_def answered_def shop_rows [OF assms])
qed

lemma agrees_reads:
  assumes "store_inv D"
  shows "agrees lower e CallProducts D" "agrees lower e (CallSalesSince t) D" "agrees lower e (CallSaleByID i) D"
    and "agrees lower e (CallSalesByReference ref) D" "agrees lower e (CallAnalytics now) D"
    and "agrees lower e CallSettings D" "agrees lower e CallLogo D"
proof -
  note t = store_tables [OF assms] and rows = shop_rows [OF assms]
  have shelf: "onShelf (shopOf D) = shown D" using rows(5) by (rule ext)
  show "agrees lower e CallProducts D"
    by (simp add: agrees_def answered_def Products_eq t rows shelf)
  show "agrees lower e (CallSalesSince t) D" by (simp add: agrees_def answered_def SalesSince_def t rows)
  show "agrees lower e (CallSaleByID i) D"
  proof (cases "bGet (bSales D) i")
    case None
    then show ?thesis by (simp add: agrees_def answered_def SaleByID_def valAt_def)
  next
    case (Some c)
    with t(4) obtain s where "c = Json s" by (blast dest: readable_get)
    with Some show ?thesis by (simp add: agrees_def answered_def SaleByID_def valAt_def)
  qed
  show "agrees lower e (CallSalesByReference ref) D"
  proof (cases "ref = []")
    case True
    then show ?thesis by (simp add: agrees_def answered_def SalesByReference_def)
  next
    case False
    with reference_shop [OF assms False] show ?thesis by (simp add: agrees_def answered_def rows)
  qed
  show "agrees lower e (CallAnalytics now) D"
    by (simp add: agrees_def answered_def AnalyticsAt_def t rows split: prod.split)
  show "agrees lower e CallSettings D" "agrees lower e CallLogo D" by (simp_all add: agrees_def)
qed

lemma settings_put:
  "store_inv D \<Longrightarrow> bSettings D' = bput k v (bSettings D) \<Longrightarrow> Settings D' = (Settings D)(k \<mapsto> v)"
  by (simp add: Settings_eq store_tables(9))

lemma agrees_setting:
  assumes "store_inv D" and "takes e (CallSetSetting k v)"
  shows "agrees lower e (CallSetSetting k v) D"
proof -
  have key: "goodKey k" using assms(2) by simp
  define D1 where "D1 = D\<lparr>bSettings := bput k v (bSettings D)\<rparr>"
  define D2 where "D2 = (if settingText (bSettings D) k \<noteq> v then settingLogged e k v D1 else D1)"
  define D' where "D' = (if syncableSettingKey k
      then D2\<lparr>bSyncState := bput kSettingsDue (Stamp (tUTC (eNow2 e))) (bSyncState D2)\<rparr> else D2)"
  have tx: "setSettingTx e k v D = Inr D'"
    using setSettingTx_eq [OF key, of e v D] by (simp add: Let_def D1_def D2_def D'_def)
  have f: "bProducts D' = bProducts D" "bSales D' = bSales D" "bStockEvents D' = bStockEvents D"
    "bBarcodeIdx D' = bBarcodeIdx D" "bSettings D' = bput k v (bSettings D)" "bBlobs D' = bBlobs D"
    by (simp_all add: D'_def D2_def D1_def)
  have eq: "shopOf D' = (shopOf D)\<lparr>shPrefs := (shPrefs (shopOf D))(k \<mapsto> v)\<rparr>"
    by (rule shop_eqI) (simp_all add: f(1-4) settings_put [OF assms(1) f(5)] logo_same [OF f(6)])
  show ?thesis by (rule agrees_exec_tx [where f = "setSettingTx e k v" and h = "\<lambda>u. Done", OF _ tx]) (simp_all only: bolt_tx shopDo.simps eq)
qed

lemma agrees_logo:
  assumes "store_inv D"
  shows "agrees lower e (CallSetLogo data) D" and "agrees lower e CallDeleteLogo D"
proof -
  define D1 where "D1 = D\<lparr>bBlobs := bput logoKey data (bBlobs D), bSettings := bput KeyHasLogo ''yes'' (bSettings D)\<rparr>"
  define D2 where "D2 = D\<lparr>bBlobs := bDelete logoKey (bBlobs D), bSettings := bput KeyHasLogo ''no'' (bSettings D)\<rparr>"
  have tx: "setLogoTx data D = Inr D1" "deleteLogoTx D = Inr D2"
    by (simp_all add: setLogoTx_def D1_def deleteLogoTx_def D2_def)
  have f: "bSettings D1 = bput KeyHasLogo ''yes'' (bSettings D)" "bSettings D2 = bput KeyHasLogo ''no'' (bSettings D)"
    by (simp_all add: D1_def D2_def)
  have eq1: "shopOf D1 = (shopOf D)\<lparr>shLogo := Some data, shPrefs := (shPrefs (shopOf D))(KeyHasLogo \<mapsto> ''yes'')\<rparr>"
    by (rule shop_eqI) (simp_all add: settings_put [OF assms f(1)], simp_all add: D1_def Logo_def)
  have eq2: "shopOf D2 = (shopOf D)\<lparr>shLogo := None, shPrefs := (shPrefs (shopOf D))(KeyHasLogo \<mapsto> ''no'')\<rparr>"
    by (rule shop_eqI) (simp_all add: settings_put [OF assms f(2)], simp_all add: D2_def Logo_def)
  show "agrees lower e (CallSetLogo data) D"
    by (rule agrees_exec_tx [where f = "setLogoTx data" and h = "\<lambda>u. Done", OF _ tx(1)]) (simp_all only: bolt_tx shopDo.simps eq1)
  show "agrees lower e CallDeleteLogo D"
    by (rule agrees_exec_tx [where f = "deleteLogoTx" and h = "\<lambda>u. Done", OF _ tx(2)]) (simp_all only: bolt_tx shopDo.simps eq2)
qed

lemma call_agrees:
  "store_inv D \<Longrightarrow> goodIDs e D \<Longrightarrow> takes e c \<Longrightarrow> apsnd shopOf (bolt lower e c D) = shopDo lower e c (shopOf D)"
  unfolding agrees_def [symmetric]
  by (cases c) (auto simp only: intro: agrees_add agrees_update agrees_delete agrees_scan agrees_restock agrees_sale
      agrees_search agrees_reads agrees_setting agrees_logo)

lemma call_keeps_inv:
  assumes "store_inv D" and "goodIDs e D"
  shows "store_inv (snd (bolt lower e c D))"
proof -
  have "local_op D (snd (bolt lower e c D)) \<or> snd (bolt lower e c D) = D"
    using assms(2) by (cases c) (auto simp: goodIDs_def AddProduct_def intro: local_op.intros)
  with local_op_good [OF _ assms(1)] assms(1) show ?thesis by (auto simp: good_def)
qed

section \<open>Any sequence of calls\<close>

text \<open>A store of the interface: what a call answers and leaves behind.\<close>

type_synonym 's engine = "(string \<Rightarrow> string) \<Rightarrow> env \<Rightarrow> call \<Rightarrow> 's \<Rightarrow> answer \<times> 's"

fun runCalls :: "'s engine \<Rightarrow> (string \<Rightarrow> string) \<Rightarrow> (env \<times> call) list \<Rightarrow> 's \<Rightarrow> answer list \<times> 's" where
  "runCalls st lower [] s = ([], s)"
| "runCalls st lower ((e, c) # ecs) s = (case st lower e c s of (a, s1) \<Rightarrow> apfst ((#) a) (runCalls st lower ecs s1))"

text \<open>Each call meets an environment it may meet (\<open>ids\<close>) and names keys the store takes.\<close>

fun callable :: "'s engine \<Rightarrow> (env \<Rightarrow> 's \<Rightarrow> bool) \<Rightarrow> (string \<Rightarrow> string) \<Rightarrow> (env \<times> call) list \<Rightarrow> 's \<Rightarrow> bool" where
  "callable st ids lower [] s \<longleftrightarrow> True"
| "callable st ids lower ((e, c) # ecs) s \<longleftrightarrow>
     ids e s \<and> takes e c \<and> callable st ids lower ecs (snd (st lower e c s))"

text \<open>A sale that is answered is on file under its own id.\<close>

lemma shopSale_filed:
  assumes "shopSale e inp sh = (ASale s, sh')"
  shows "shSold sh' (saID s) = Some s"
proof -
  obtain r m where tax: "taxIn (shPrefs sh) = (r, m)" by (cases "taxIn (shPrefs sh)")
  with assms obtain its where "commit e (ASale (newSale e inp r m its))
      (sh\<lparr>shSold := (shSold sh)(eRowID e \<mapsto> newSale e inp r m its)\<rparr>) sh = (ASale s, sh')"
    by (auto simp: shopSale_def Let_def split: sum.splits if_splits)
  then show ?thesis by (auto simp: commit_def split: option.splits)
qed

text \<open>The contract of \<^verbatim>\<open>store.Local\<close>: a view of the store as a shop that every call respects.\<close>

locale local_store =
  fixes st :: "'s engine"
    and sound :: "'s \<Rightarrow> bool"
    and ids :: "env \<Rightarrow> 's \<Rightarrow> bool"
    and view :: "'s \<Rightarrow> shop"
  assumes st_agrees: "sound s \<Longrightarrow> ids e s \<Longrightarrow> takes e c \<Longrightarrow> apsnd view (st lower e c s) = shopDo lower e c (view s)"
    and st_sound: "sound s \<Longrightarrow> ids e s \<Longrightarrow> takes e c \<Longrightarrow> sound (snd (st lower e c s))"
begin

lemma run_agrees:
  "sound s \<Longrightarrow> callable st ids lower ecs s \<Longrightarrow>
   apsnd view (runCalls st lower ecs s) = runCalls shopDo lower ecs (view s) \<and> sound (snd (runCalls st lower ecs s))"
proof (induction ecs arbitrary: s)
  case (Cons ec ecs)
  obtain e c where ec: "ec = (e, c)" by (cases ec)
  obtain a s1 where one: "st lower e c s = (a, s1)" by (cases "st lower e c s")
  have "shopDo lower e c (view s) = (a, view s1)" "sound s1" "callable st ids lower ecs s1"
    using st_agrees [of s e c lower] st_sound [of s e c lower] Cons.prems one ec by simp_all
  with Cons.IH [of s1] one ec show ?case
    by (cases "runCalls st lower ecs s1"; cases "runCalls shopDo lower ecs (view s1)") simp
qed simp

text \<open>A sale that is answered reads back by its id, whatever is called in between.\<close>

lemma sale_reads_back:
  assumes "sound s" and "ids e s" and "takes e (CallCreateSale inp)"
    and "st lower e (CallCreateSale inp) s = (ASale sale, s1)" and "ids e' s1"
  shows "fst (st lower e' (CallSaleByID (saID sale)) s1) = MaybeSale (Some sale)"
proof -
  have "shopSale e inp (view s) = (ASale sale, view s1)" "sound s1"
    using st_agrees [OF assms(1-3), of lower] st_sound [OF assms(1-3), of lower] assms(4) by simp_all
  then have "shSold (view s1) (saID sale) = Some sale" by (simp only: shopSale_filed)
  moreover have "fst (st lower e' (CallSaleByID (saID sale)) s1) = fst (shopDo lower e' (CallSaleByID (saID sale)) (view s1))"
    using st_agrees [OF \<open>sound s1\<close> assms(5), of "CallSaleByID (saID sale)" lower] by (metis fst_apsnd takes.simps(10))
  ultimately show ?thesis by simp
qed

end

text \<open>The plain shop itself is a store of the interface, and so is the bolt store.\<close>

interpretation plainShop: local_store shopDo "\<lambda>sh. True" "\<lambda>e sh. True" "\<lambda>sh. sh"
  by unfold_locales (simp_all add: apsnd_def map_prod_def)

interpretation boltStore: local_store bolt store_inv goodIDs shopOf
  by unfold_locales (auto simp del: shopDo.simps bolt.simps intro: call_agrees call_keeps_inv)

text \<open>
  bbolt today and SQLite later are interchangeable: any two stores that keep the contract
  answer alike from equal shops. For two bolt stores: what the shop does not show (outbox,
  activity log, sync state) never shows.
\<close>

theorem engines_interchangeable:
  fixes view :: "'s \<Rightarrow> shop"
  assumes "local_store st sound ids view" and "sound s" and "store_inv D" and "view s = shopOf D"
    and "callable st ids lower ecs s" and "callable bolt goodIDs lower ecs D"
  shows "fst (runCalls st lower ecs s) = fst (runCalls bolt lower ecs D)"
  using local_store.run_agrees [OF assms(1,2,5)] boltStore.run_agrees [OF assms(3,6)] assms(4) by (metis fst_apsnd)

text \<open>
  C2. The bolt store keeps the contract of \<open>store.Local\<close>. On a store that meets its invariant,
  over any sequence of calls, with any of them failing at the commit, every answer, error or
  result, is the one the plain shop gives, and what the shop would hold is what the store
  holds: the buckets, the reference index, the activity log, the outbox and the order in which
  rows are stored never show. The invariant holds throughout. (Ids drawn are not in use, keys
  are ones the database takes.)
\<close>

theorem store_is_the_shop:
  assumes "store_inv D" and "callable bolt goodIDs lower ecs D"
  shows "apsnd shopOf (runCalls bolt lower ecs D) = runCalls shopDo lower ecs (shopOf D) \<and>
     store_inv (snd (runCalls bolt lower ecs D))"
  by (rule boltStore.run_agrees [OF assms])

theorem store_is_the_shop_witness:
  "fst (runCalls bolt id [(demoEnv 3, CallCreateSale demoSale)] demoShop) =
     [ASale (newSale (demoEnv 3) demoSale 0 TaxModeNone [snapItem demoProduct \<lparr>lnProductID = ''p'', lnQty = 3\<rparr>])]"
proof -
  let ?calls = "[(demoEnv 3, CallCreateSale demoSale)]"
  let ?s = "newSale (demoEnv 3) demoSale 0 TaxModeNone [snapItem demoProduct \<lparr>lnProductID = ''p'', lnQty = 3\<rparr>]"
  have "goodIDs (demoEnv 3) demoShop"
    by (simp add: goodIDs_def freshEnv_def goodKey_demoID maxKeySize_def)
  then have "callable bolt goodIDs id ?calls demoShop" by (simp add: maxKeySize_def)
  from store_is_the_shop [OF demoShop_store this]
  have "apsnd shopOf (runCalls bolt id ?calls demoShop) = runCalls shopDo id ?calls (shopOf demoShop)" ..
  then have "fst (runCalls bolt id ?calls demoShop) = fst (runCalls shopDo id ?calls (shopOf demoShop))" by (metis fst_apsnd)
  moreover have "shopDo id (demoEnv 3) (CallCreateSale demoSale) (shopOf demoShop) =
      commit (demoEnv 3) (ASale ?s) ((shopOf demoShop)\<lparr>shSold := (shSold (shopOf demoShop))(demoID ''row'' 3 \<mapsto> ?s)\<rparr>) (shopOf demoShop)"
  proof -
    have "valAt (bProducts demoShop) ''p'' = Some demoProduct" by (simp add: valAt_iff)
    moreover have "taxIn (Settings demoShop) = (0, TaxModeNone)" by (simp add: taxIn_Settings)
    moreover have "saleOf (demoEnv 3) demoSale demoShop = ?s"
      by (simp add: saleOf_def snapshot_def lineProduct_def)
    then have "saTotalCents ?s = 19500" using demoSale_total [of "demoEnv 3"] by simp
    ultimately show ?thesis by (simp add: shopSale_def Let_def)
  qed
  ultimately show ?thesis by (simp add: commit_def del: shopDo.simps bolt.simps)
qed

end
