(* ===== verification/Spec2Isabelle.thy ===== *)
theory Spec2Isabelle
  imports Tax Search Till Analytics Fake_Printer Controller Engine_Correct Scan Xlsx Pdf Web_Correct Serving Print_Log Agent Shop
begin

text \<open>
  A model of the point-of-sale agent (the Go module under \<^verbatim>\<open>src/\<close>), with the theorems that
  make it correct.

  \<^bold>\<open>The program.\<close> One process runs on the shop's till. The page in the browser drives a JSON
  API (\<^verbatim>\<open>internal/web\<close>); its handlers read and write a local bbolt file
  (\<^verbatim>\<open>internal/store\<close>, \<^verbatim>\<open>internal/store/boltstore\<close>), print receipts on a network printer
  (\<^verbatim>\<open>internal/printer\<close>), look for printers (\<^verbatim>\<open>internal/scan\<close>) and export the books. Every write
  leaves, in the same transaction, a line in the activity log and a mark in an outbox; a
  background loop (\<^verbatim>\<open>internal/cloudsync\<close>) pushes the outbox to the shop's cloud and merges what
  other tills pushed. The till works without the cloud; nothing it does waits for it.

  \<^bold>\<open>The model.\<close> State is passed explicitly. The database is the record \<open>db\<close>, one field per
  bucket, a bucket being its keys and values in key order; a store method is a function from
  the environment of its transaction (\<open>env\<close>: clock, random ids, whether the commit succeeds)
  and the database to an error or a result, and the new database. An error is the \<open>Inl\<close> of a
  sum. Money is \<^verbatim>\<open>int64\<close> and counts are \<^verbatim>\<open>int\<close> as integers with the wrap-around written out
  (\<open>wrap64\<close>, \<open>wrapI\<close>; \<open>intBits = 32\<close>, the width on the 32-bit machines the agent is built
  for); strings are byte strings; a time is its instant in nanoseconds and the offset of its
  zone (\<open>gotime\<close>), so a zone with daylight saving time is not covered. What runs beside other
  code is a step relation.

  \<^bold>\<open>Theories.\<close>
  \<^item> \<open>Prelude\<close>: Go integers, fallible steps, \<^verbatim>\<open>strconv\<close>. \<open>GoText\<close>: what the code uses of
    \<^verbatim>\<open>strings\<close>. \<open>Calendar\<close>: what it uses of \<^verbatim>\<open>time\<close>, with dates reading back.
  \<^item> \<open>Domain\<close>: the types of \<^verbatim>\<open>store.go\<close>. \<open>Tax\<close>: \<^verbatim>\<open>tax.go\<close>; the totals against exact rational
    arithmetic and where rounding happens.
  \<^item> \<open>Buckets\<close>, \<open>Database\<close>: buckets and transactions, with the merge laws of append-only logs
    and last-write-wins tables as the locales \<open>merge_log\<close> and \<open>lww_table\<close>.
  \<^item> \<open>AuditLog\<close>, \<open>Outbox\<close>, \<open>Settings\<close>, \<open>Stock\<close>, \<open>Catalogue\<close>, \<open>Sales\<close>, \<open>Search\<close>, \<open>Analytics\<close>:
    \<^verbatim>\<open>boltstore.go\<close>, \<^verbatim>\<open>audit.go\<close>, \<^verbatim>\<open>stock.go\<close>, \<^verbatim>\<open>search.go\<close> operation by operation;
    \<open>Catalogue_Correct\<close> and \<open>Sales_Correct\<close> hold their invariants, the exact effect of each
    operation, and that listing, scanning and searching return exactly what was asked for.
  \<^item> \<open>Sync_Store\<close>, \<open>Sync_Correct\<close>, \<open>Outbox_Correct\<close>: \<^verbatim>\<open>boltstore/sync.go\<close>. The merge of a pull is
    append-only for sales and stock events and last-write-wins for products, idempotent, never
    echoed, and two tills that exchange their rows agree; clearing after a push loses no
    settings change made meanwhile.
  \<^item> \<open>Cloud_Client\<close>, \<open>Engine\<close>: \<^verbatim>\<open>client.go\<close>, \<^verbatim>\<open>engine.go\<close>, over any network and any store of
    the interface. \<open>Till\<close>: the whole device, the sync cycle's transactions interleaved with the
    cashier's, refined by the abstract cycle; no sale is lost in any run. \<open>Engine_Correct\<close>: the
    engine's contract with its store as the locale \<open>outbox_store\<close>, interpreted on the bolt store.
  \<^item> \<open>Shop\<close>: the contract of the interface \<^verbatim>\<open>store.Local\<close> as a plain shop of finite maps, which the
    bolt store refines: over any sequence of calls it gives the same answers.
  \<^item> \<open>Controller\<close>: \<^verbatim>\<open>controller.go\<close>; the background loop as a step relation in which no nudge is
    lost.
  \<^item> \<open>Receipt\<close>, \<open>Fake_Printer\<close>: \<^verbatim>\<open>receipt.go\<close>, \<^verbatim>\<open>printer.go\<close>, \<^verbatim>\<open>logo.go\<close> to the byte, every line
    within the paper, and the stand-in printer of \<^verbatim>\<open>cmd/fakeprinter\<close> reading the text back.
    \<open>Print_Log\<close>: the rest of that program, its log and its accept loop, and both programs
    together: the receipt of a sale, printed by the agent, is what the printer logs.
  \<^item> \<open>Scan\<close>: \<^verbatim>\<open>scan.go\<close>; one goroutine per address and port, finishing in any order; every full
    sweep ends, and a scan reports exactly the hosts of the local networks that answer.
  \<^item> \<open>Export\<close>, \<open>Xlsx\<close>, \<open>Pdf\<close>: \<^verbatim>\<open>export.go\<close>, \<^verbatim>\<open>xlsx.go\<close>, \<^verbatim>\<open>pdfdoc.go\<close>. The CSV and the sheet read
    back to the table, the PDF shows every row, within the page, under an exact
    cross-reference table.
  \<^item> \<open>Web_Server\<close>, \<open>Web_Api\<close>, \<open>Web_Mux\<close>: the handlers of \<^verbatim>\<open>server.go\<close>, \<^verbatim>\<open>search.go\<close>, \<^verbatim>\<open>sync.go\<close> and
    \<^verbatim>\<open>export.go\<close> over the store and the controller, and the routes (\<open>serve\<close>). \<open>Web_Guard\<close>: what
    the handlers need of \<^verbatim>\<open>store.Local\<close> to keep a property of the database, as the locale
    \<open>store_guard\<close>. \<open>Web_Correct\<close> interprets it: serving any request is a run of \<open>Till\<close>, so every
    invariant of the store holds for whatever the page sends, tax settings stay usable and the
    catalogue stays sellable; a sale outlives its printer, and a request that leaves something
    to push nudges the loop.
  \<^item> \<open>Serving\<close>: requests in flight at once, the handlers split at their accesses to the store and
    interleaved with each other and with the sync cycle. A request alone is \<open>serve\<close>; in every
    interleaving an answered sale is kept, and each request can be answered by its own steps.
  \<^item> \<open>Agent\<close>: \<^verbatim>\<open>cmd/pos/main.go\<close> and \<^verbatim>\<open>Open\<close>, from the environment to serving. The rows and
    invariants of a file survive restarting on it and any sequence of requests; a second launch
    fails on the locked file instead of opening the page.

  \<^bold>\<open>Bounds and fuel.\<close> No definition uses fuel. Loops are structural recursion or have a measure:
  \<open>shrinkLoop\<close> the sum of the widths, \<open>pageChunks\<close> and \<open>mapRunes\<close> the length of the text, \<open>colLoop\<close>
  the column index. A theorem about unwrapped money or counts states the range it needs
  (\<open>fits64\<close>, \<open>fitsI\<close>).

  \<^bold>\<open>Parameters.\<close> What is outside the repository is an argument: the transport to the cloud and the
  decoding of its replies, dialling and writing to a printer, which ports answer, the machine's
  interfaces, the operating system a start asks (environment, paths, the bbolt file and its
  lock, binding the address), decoding of uploaded images (and the check that they are images), content
  sniffing, Unicode lower-casing, parsing of RFC 3339, the local zone, and the zip writer.

  \<^bold>\<open>Not modelled.\<close> The agent's logging and time stamps, how \<^verbatim>\<open>net/http\<close> accepts a connection (a
  task arrives; in \<open>Agent\<close>, \<open>serveAll\<close> answers requests in turn), the text of JSON (a request is its decoded body, a stored
  value its record), response headers beyond the content type and the file name, the embedded
  page, timeouts and the semaphore that bounds the probes, and averaging of image pixels when a
  logo is scaled. \<^verbatim>\<open>sort.Slice\<close> leaves the order of ties open: the model takes the stable one.
  Stored strings are valid UTF-8 and times lie in the years 0 to 9999 (they come from decoded
  JSON and from the clock), so a written record reads back as it was.
\<close>

end
